(* ===== verification/Prelude.thy ===== *)
theory Prelude
  imports Main "HOL-Library.Word"
begin

text \<open>
  Shared vocabulary of the development: machine integers with Rust's saturating and checked
  additions, the sequencing of fallible stateful steps that the \<open>?\<close> operator of the source
  stands for, and a few list operations (update in place of the first match, binary search) with the
  lemmas every component shares. The step relations collect the unfolding rules of their operations in
  \<open>step_simps\<close> and the preservation of their invariants in \<open>inv_intros\<close>.

  A \<open>string\<close> of the model is the list of the UTF-8 bytes of a Rust \<open>String\<close>, so
  that \<open>length\<close> is Rust's \<open>len()\<close>.
\<close>

unbundle bit_operations_syntax

named_theorems step_simps \<open>unfolding rules of the operations of a component\<close>
named_theorems inv_intros \<open>preservation rules of the component invariants\<close>

section \<open>Machine integers\<close>

type_synonym u8 = "8 word"
type_synonym u16 = "16 word"
type_synonym u32 = "32 word"
type_synonym u64 = "64 word"
type_synonym uuid = "128 word"

definition saturating_add :: "'a::len word \<Rightarrow> 'a word \<Rightarrow> 'a word" where
  "saturating_add a b = (if unat a + unat b < 2 ^ LENGTH('a) then a + b else - 1)"

definition checked_add :: "'a::len word \<Rightarrow> 'a word \<Rightarrow> 'a word option" where
  "checked_add a b = (if unat a + unat b < 2 ^ LENGTH('a) then Some (a + b) else None)"

lemma unat_saturating_add:
  "unat (saturating_add a (b :: 'a::len word)) = min (unat a + unat b) (2 ^ LENGTH('a) - 1)"
proof (cases "unat a + unat b < 2 ^ LENGTH('a)")
  case True
  then show ?thesis by (simp add: saturating_add_def unat_word_ariths)
next
  case False
  then show ?thesis
    by (simp add: saturating_add_def unsigned_minus_1_eq_mask mask_eq_exp_minus_1)
qed

lemma saturating_add_ge: "a \<le> saturating_add a b"
proof -
  have "unat a < 2 ^ LENGTH('a)" by (rule unsigned_less)
  then have "unat a \<le> 2 ^ LENGTH('a) - 1" by linarith
  then show ?thesis by (simp add: word_le_nat_alt unat_saturating_add)
qed

lemma checked_add_Some:
  "checked_add a b = Some c \<longleftrightarrow> unat a + unat b < 2 ^ LENGTH('a) \<and> c = a + (b :: 'a::len word)"
  by (auto simp: checked_add_def)

lemma checked_add_unat:
  "checked_add a b = Some c \<Longrightarrow> unat c = unat a + unat b"
  by (auto simp: checked_add_def unat_word_ariths split: if_splits)

lemma checked_add_inj:
  "checked_add a b = Some c \<Longrightarrow> checked_add a' b = Some c \<Longrightarrow> a = a'"
  by (auto simp: checked_add_Some)

lemma unat_u8_less: "unat (n :: u8) < 256"
  by (rule order_less_le_trans [OF unsigned_less]) simp

lemma unat_u16_less: "unat (n :: u16) < 65536"
  by (rule order_less_le_trans [OF unsigned_less]) simp

lemma unat_of_nat_u16: "x < 65536 \<Longrightarrow> unat (of_nat x :: u16) = x"
  by (simp add: unat_of_nat)

lemma unat_ucast: "unat (ucast (w :: 'a::len word) :: 'b::len word) = unat w mod 2 ^ LENGTH('b)"
  by (simp add: unsigned_ucast_eq take_bit_eq_mod)

lemma word_eq_unatI: "unat a = unat b \<Longrightarrow> a = (b :: 'a::len word)"
  by (simp add: word_unat_eq_iff)

lemma word_or_and_self: "(x OR b) AND b = (b :: 'a::len word)"
  by (rule bit_eqI) (auto simp: bit_simps)

lemma word_or_and_disjoint: "b AND c = 0 \<Longrightarrow> (x OR b) AND c = x AND (c :: 'a::len word)"
  by (simp add: bit.conj_disj_distrib2)

lemma word_or_eq_0: "(x OR b) = 0 \<longleftrightarrow> x = 0 \<and> b = (0 :: 'a::len word)"
  by (fact or_eq_0_iff)

section \<open>Sequencing of fallible stateful steps\<close>

text \<open>
  A step that may fail returns \<open>(Inl e, s)\<close> or \<open>(Inr x, s)\<close>: the state is returned in
  both cases, because what an operation did before its error stays done.
  \<open>and_then\<close> is the \<open>?\<close> operator: it stops at an error and keeps the state.
\<close>

definition and_then ::
  "('e + 'a) \<times> 's \<Rightarrow> ('a \<Rightarrow> 's \<Rightarrow> ('e + 'b) \<times> 's) \<Rightarrow> ('e + 'b) \<times> 's" where
  "and_then r k = (case r of (Inl e, s) \<Rightarrow> (Inl e, s) | (Inr x, s) \<Rightarrow> k x s)"

lemma and_then_Inl [simp]: "and_then (Inl e, s) k = (Inl e, s)"
  by (simp add: and_then_def)

lemma and_then_Inr [simp]: "and_then (Inr x, s) k = k x s"
  by (simp add: and_then_def)

lemma and_then_if [simp]:
  "and_then (if b then r else r') k = (if b then and_then r k else and_then r' k)"
  by simp

lemma and_then_eq_Inr:
  "and_then r k = (Inr y, t) \<longleftrightarrow> (\<exists>x s. r = (Inr x, s) \<and> k x s = (Inr y, t))"
  by (auto simp: and_then_def split: prod.splits sum.splits)

lemma and_then_split:
  "P (and_then r k) \<longleftrightarrow>
     (\<forall>e s. r = (Inl e, s) \<longrightarrow> P (Inl e, s)) \<and> (\<forall>x s. r = (Inr x, s) \<longrightarrow> P (k x s))"
  by (auto simp: and_then_def split: prod.splits sum.splits)

lemma snd_and_then_preserves:
  assumes "I (snd r)" and "\<And>x s. r = (Inr x, s) \<Longrightarrow> I s \<Longrightarrow> I (snd (k x s))"
  shows "I (snd (and_then r k))"
  using assms by (auto simp: and_then_def split: prod.splits sum.splits)

section \<open>Lists updated in place\<close>

fun position :: "('a \<Rightarrow> bool) \<Rightarrow> 'a list \<Rightarrow> nat option" where
  "position p [] = None"
| "position p (x # xs) = (if p x then Some 0 else map_option Suc (position p xs))"

lemma position_None: "position p xs = None \<longleftrightarrow> (\<forall>x \<in> set xs. \<not> p x)"
  by (induction xs) auto

lemma position_Some:
  "position p xs = Some i \<longleftrightarrow> i < length xs \<and> p (xs ! i) \<and> (\<forall>j < i. \<not> p (xs ! j))"
proof (induction xs arbitrary: i)
  case Nil
  then show ?case by simp
next
  case (Cons x xs)
  show ?case
  proof (cases i)
    case 0
    then show ?thesis by auto
  next
    case (Suc k)
    then show ?thesis
      by (auto simp: Cons.IH less_Suc_eq_0_disj)
  qed
qed

lemma position_nth: "position p xs = Some i \<Longrightarrow> xs ! i \<in> set xs \<and> p (xs ! i)"
  by (simp add: position_Some)

lemma find_position: "List.find p xs = map_option ((!) xs) (position p xs)"
  by (induction xs) (auto simp: option.map_comp comp_def)

lemma map_list_update_same: "i < length xs \<Longrightarrow> f y = f (xs ! i) \<Longrightarrow> map f (xs[i := y]) = map f xs"
  by (simp add: map_update list_update_same_conv)

lemma set_update_cases: "x \<in> set (xs[i := y]) \<Longrightarrow> x = y \<or> x \<in> set xs"
  using set_update_subset_insert by fastforce

subsection \<open>Binary search\<close>

text \<open>
  \<open>slice::binary_search_by_key\<close>: \<open>Some i\<close> for \<open>Ok(i)\<close>, \<open>None\<close> for
  \<open>Err(_)\<close>. On a slice whose keys are strictly ascending the standard library promises the one
  index with the key; which probes it makes is its own business, so the halving below is one
  admissible order of probes.
\<close>

function bsearch :: "('a \<Rightarrow> 'k::linorder) \<Rightarrow> 'k \<Rightarrow> 'a list \<Rightarrow> nat \<Rightarrow> nat \<Rightarrow> nat option" where
  "bsearch f k xs lo hi =
     (if hi \<le> lo then None
      else let mid = (lo + hi) div 2; c = f (xs ! mid)
           in if c = k then Some mid
              else if c < k then bsearch f k xs (mid + 1) hi
              else bsearch f k xs lo mid)"
  by pat_completeness auto
termination
  by (relation "measure (\<lambda>(f, k, xs, lo, hi). hi - lo)") auto

declare bsearch.simps [simp del]

definition binary_search_by_key :: "'k::linorder \<Rightarrow> ('a \<Rightarrow> 'k) \<Rightarrow> 'a list \<Rightarrow> nat option" where
  "binary_search_by_key k f xs = bsearch f k xs 0 (length xs)"

lemma bsearch_None:
  assumes "sorted_wrt (<) (map f xs)" and "hi \<le> length xs" and "bsearch f k xs lo hi = None"
    and "lo \<le> i" and "i < hi"
  shows "f (xs ! i) \<noteq> k"
  using assms
proof (induction f k xs lo hi rule: bsearch.induct)
  case (1 f k xs lo hi)
  define mid where "mid = (lo + hi) div 2"
  have lt: "lo < hi" using "1.prems"(4,5) by simp
  have ne: "f (xs ! mid) \<noteq> k" and rec:
    "if f (xs ! mid) < k then bsearch f k xs (mid + 1) hi = None else bsearch f k xs lo mid = None"
    using "1.prems"(3) lt unfolding bsearch.simps [of f k xs lo hi]
    by (auto simp: Let_def mid_def [symmetric] split: if_splits)
  have mid: "mid < hi" "lo \<le> mid" using lt by (auto simp: mid_def)
  have mono: "f (xs ! a) < f (xs ! b)" if "a < b" "b < length xs" for a b
    using sorted_wrt_nth_less [OF "1.prems"(1), of a b] that by simp
  show ?case
  proof (cases "f (xs ! mid) < k")
    case True
    show ?thesis
    proof (cases "i \<le> mid")
      case True
      then have "f (xs ! i) \<le> f (xs ! mid)"
        using mono [of i mid] mid "1.prems"(2) by (cases "i = mid") auto
      with \<open>f (xs ! mid) < k\<close> show ?thesis by auto
    next
      case False
      with rec True "1.IH"(1) [OF _ mid_def refl ne True] lt "1.prems" show ?thesis by simp
    qed
  next
    case False
    with ne have gt: "k < f (xs ! mid)" by auto
    show ?thesis
    proof (cases "mid \<le> i")
      case True
      then have "f (xs ! mid) \<le> f (xs ! i)"
        using mono [of mid i] "1.prems"(2,5) by (cases "i = mid") auto
      with gt show ?thesis by auto
    next
      case f: False
      with rec False "1.IH"(2) [OF _ mid_def refl ne False] lt mid "1.prems" show ?thesis by simp
    qed
  qed
qed

lemma bsearch_Some:
  "bsearch f k xs lo hi = Some i \<Longrightarrow> lo \<le> i \<and> i < hi \<and> f (xs ! i) = k"
proof (induction f k xs lo hi rule: bsearch.induct)
  case (1 f k xs lo hi)
  define mid where "mid = (lo + hi) div 2"
  have lt: "\<not> hi \<le> lo" using "1.prems" by (auto simp: bsearch.simps [of f k xs lo hi] split: if_splits)
  then have mid: "lo \<le> mid" "mid < hi" by (auto simp: mid_def)
  have eq: "bsearch f k xs lo hi =
    (if f (xs ! mid) = k then Some mid else if f (xs ! mid) < k then bsearch f k xs (mid + 1) hi
     else bsearch f k xs lo mid)"
    using lt by (simp add: bsearch.simps [of f k xs lo hi] Let_def mid_def)
  consider "f (xs ! mid) = k" | "f (xs ! mid) \<noteq> k" "f (xs ! mid) < k"
    | "f (xs ! mid) \<noteq> k" "\<not> f (xs ! mid) < k" by blast
  then show ?case
  proof cases
    case 1
    then show ?thesis using eq "1.prems" mid by simp
  next
    case 2
    then have "mid + 1 \<le> i \<and> i < hi \<and> f (xs ! i) = k"
      using "1.IH"(1) [OF lt mid_def refl 2] eq "1.prems" by simp
    then show ?thesis using mid by simp
  next
    case 3
    then have "lo \<le> i \<and> i < mid \<and> f (xs ! i) = k"
      using "1.IH"(2) [OF lt mid_def refl 3] eq "1.prems" by simp
    then show ?thesis using mid by simp
  qed
qed

lemma binary_search_position:
  assumes "sorted_wrt (<) (map f xs)"
  shows "binary_search_by_key k f xs = position (\<lambda>x. f x = k) xs"
proof (cases "binary_search_by_key k f xs")
  case None
  then have "\<forall>i < length xs. f (xs ! i) \<noteq> k"
    using bsearch_None [OF assms order_refl] by (auto simp: binary_search_by_key_def)
  then have "position (\<lambda>x. f x = k) xs = None"
    by (auto simp: position_None in_set_conv_nth)
  with None show ?thesis by simp
next
  case (Some i)
  then have i: "i < length xs" "f (xs ! i) = k"
    using bsearch_Some [of f k xs 0 "length xs" i] by (auto simp: binary_search_by_key_def)
  have "f (xs ! j) \<noteq> k" if "j < i" for j
    using sorted_wrt_nth_less [OF assms, of j i] that i by auto
  with i have "position (\<lambda>x. f x = k) xs = Some i"
    by (simp add: position_Some)
  with Some show ?thesis by simp
qed

end
