(* ===== verification/Byte_Strings.thy ===== *)
theory Byte_Strings
  imports Prelude
begin

text \<open>
  The operations of Rust's \<open>str\<close> the bridge relies on, over UTF-8 bytes:
  \<open>to_ascii_lowercase\<close>, \<open>trim\<close> (all 25 code points with the Unicode property
  White\_Space, by their encodings), \<open>starts_with\<close>, \<open>contains\<close>,
  \<open>split('.').next()\<close>, \<open>is_char_boundary\<close>, \<open>u64::from_str\<close> and the
  32-digit form of a UUID. The lemmas say how \<open>trim\<close> decomposes a string, what a
  character boundary is on an encoded string, and that the UUID form is injective.
\<close>

section \<open>ASCII case\<close>

definition to_ascii_lowercase :: "string \<Rightarrow> string" where
  "to_ascii_lowercase =
     map (\<lambda>c. let n = of_char c :: nat in if 65 \<le> n \<and> n \<le> 90 then char_of (n + 32) else c)"

lemma length_to_ascii_lowercase [simp]: "length (to_ascii_lowercase s) = length s"
  by (simp add: to_ascii_lowercase_def)

lemma to_ascii_lowercase_Nil [simp]: "to_ascii_lowercase s = [] \<longleftrightarrow> s = []"
  by (simp add: to_ascii_lowercase_def)

lemma to_ascii_lowercase_idem [simp]: "to_ascii_lowercase (to_ascii_lowercase s) = to_ascii_lowercase s"
  by (simp add: to_ascii_lowercase_def Let_def)

section \<open>Trimming\<close>

definition whitespace_codes :: "string list" where
  "whitespace_codes =
    [[CHR 0x09], [CHR 0x0A], [CHR 0x0B], [CHR 0x0C], [CHR 0x0D], [CHR 0x20],
     [CHR 0xC2, CHR 0x85], [CHR 0xC2, CHR 0xA0], [CHR 0xE1, CHR 0x9A, CHR 0x80],
     [CHR 0xE2, CHR 0x80, CHR 0x80], [CHR 0xE2, CHR 0x80, CHR 0x81], [CHR 0xE2, CHR 0x80, CHR 0x82],
     [CHR 0xE2, CHR 0x80, CHR 0x83], [CHR 0xE2, CHR 0x80, CHR 0x84], [CHR 0xE2, CHR 0x80, CHR 0x85],
     [CHR 0xE2, CHR 0x80, CHR 0x86], [CHR 0xE2, CHR 0x80, CHR 0x87], [CHR 0xE2, CHR 0x80, CHR 0x88],
     [CHR 0xE2, CHR 0x80, CHR 0x89], [CHR 0xE2, CHR 0x80, CHR 0x8A], [CHR 0xE2, CHR 0x80, CHR 0xA8],
     [CHR 0xE2, CHR 0x80, CHR 0xA9], [CHR 0xE2, CHR 0x80, CHR 0xAF], [CHR 0xE2, CHR 0x81, CHR 0x9F],
     [CHR 0xE3, CHR 0x80, CHR 0x80]]"

definition strip_code :: "string list \<Rightarrow> string \<Rightarrow> string option" where
  "strip_code codes s =
     map_option (\<lambda>w. drop (length w) s) (List.find (\<lambda>w. w \<noteq> [] \<and> take (length w) s = w) codes)"

lemma strip_code_Some:
  "strip_code codes s = Some t \<Longrightarrow> \<exists>w \<in> set codes. w \<noteq> [] \<and> s = w @ t"
  unfolding strip_code_def by (auto simp: find_Some_iff) (metis append_take_drop_id nth_mem)

lemma strip_code_None:
  "strip_code codes s = None \<longleftrightarrow> (\<forall>w \<in> set codes. w \<noteq> [] \<longrightarrow> take (length w) s \<noteq> w)"
  by (auto simp: strip_code_def find_None_iff)

function trim_start_codes :: "string list \<Rightarrow> string \<Rightarrow> string" where
  "trim_start_codes codes s =
     (case strip_code codes s of None \<Rightarrow> s | Some t \<Rightarrow> trim_start_codes codes t)"
  by pat_completeness auto
termination
  by (relation "measure (\<lambda>(codes, s). length s)") (auto dest!: strip_code_Some)

declare trim_start_codes.simps [simp del]

definition trim :: "string \<Rightarrow> string" where
  "trim s = rev (trim_start_codes (map rev whitespace_codes)
                  (rev (trim_start_codes whitespace_codes s)))"

text \<open>A run of encoded code points of a list.\<close>

definition code_run :: "string list \<Rightarrow> string \<Rightarrow> bool" where
  "code_run codes a \<longleftrightarrow> (\<exists>ws. set ws \<subseteq> set codes \<and> a = concat ws)"

definition whitespace :: "string \<Rightarrow> bool" where
  "whitespace a \<longleftrightarrow> code_run whitespace_codes a"

lemma code_run_Nil [simp]: "code_run codes []"
  unfolding code_run_def by (rule exI [of _ "[]"]) simp

lemma code_run_Cons: "w \<in> set codes \<Longrightarrow> code_run codes a \<Longrightarrow> code_run codes (w @ a)"
  unfolding code_run_def by (metis concat.simps(2) insert_subset list.simps(15))

lemma code_run_rev: "code_run (map rev codes) a \<longleftrightarrow> code_run codes (rev a)"
proof
  assume "code_run (map rev codes) a"
  then obtain ws where ws: "set ws \<subseteq> rev ` set codes" and a: "a = concat ws"
    by (auto simp: code_run_def)
  have "set (rev (map rev ws)) \<subseteq> set codes" using ws by auto
  moreover have "rev a = concat (rev (map rev ws))" by (simp add: a rev_concat rev_map)
  ultimately show "code_run codes (rev a)" unfolding code_run_def by blast
next
  assume "code_run codes (rev a)"
  then obtain ws where ws: "set ws \<subseteq> set codes" and a: "rev a = concat ws"
    by (auto simp: code_run_def)
  have "set (rev (map rev ws)) \<subseteq> set (map rev codes)" using ws by auto
  moreover have "a = concat (rev (map rev ws))"
    using arg_cong [OF a, of rev] by (simp add: rev_concat rev_map)
  ultimately show "code_run (map rev codes) a" unfolding code_run_def by blast
qed

lemma trim_start_decomp: "\<exists>a. s = a @ trim_start_codes codes s \<and> code_run codes a"
proof (induction codes s rule: trim_start_codes.induct)
  case (1 codes s)
  show ?case
  proof (cases "strip_code codes s")
    case None
    then show ?thesis by (simp add: trim_start_codes.simps [of codes s])
  next
    case (Some t)
    then obtain w where w: "w \<in> set codes" "s = w @ t" using strip_code_Some by blast
    obtain a where "t = a @ trim_start_codes codes t" "code_run codes a" using "1" Some by blast
    moreover have "trim_start_codes codes s = trim_start_codes codes t"
      using Some by (simp add: trim_start_codes.simps [of codes s])
    ultimately have "s = (w @ a) @ trim_start_codes codes s \<and> code_run codes (w @ a)"
      using w by (metis append.assoc code_run_Cons)
    then show ?thesis by blast
  qed
qed

lemma trim_decomp: "\<exists>a b. s = a @ trim s @ b \<and> whitespace a \<and> whitespace b"
proof -
  define m where "m = trim_start_codes whitespace_codes s"
  obtain a where a: "s = a @ m" "whitespace a"
    using trim_start_decomp [of s whitespace_codes] by (auto simp: m_def whitespace_def)
  obtain c where c: "rev m = c @ trim_start_codes (map rev whitespace_codes) (rev m)"
    "code_run (map rev whitespace_codes) c"
    using trim_start_decomp by blast
  then have "m = trim s @ rev c"
    by (metis m_def rev_append rev_rev_ident trim_def)
  moreover have "whitespace (rev c)"
    using c(2) by (simp add: whitespace_def code_run_rev)
  ultimately show ?thesis using a by metis
qed

subsection \<open>Padding a word does not change what \<open>trim\<close> leaves\<close>

definition prefix_free :: "string list \<Rightarrow> bool" where
  "prefix_free codes \<longleftrightarrow>
     list_all (\<lambda>w. w \<noteq> [] \<and> list_all (\<lambda>v. take (length w) v = w \<longrightarrow> v = w) codes) codes"

lemma whitespace_codes_prefix_free:
  "prefix_free whitespace_codes" "prefix_free (map rev whitespace_codes)"
  by code_simp+

lemma strip_code_append:
  assumes pf: "prefix_free codes" and w: "w \<in> set codes"
  shows "strip_code codes (w @ s) = Some s"
proof (cases "strip_code codes (w @ s)")
  case None
  then have "w \<noteq> [] \<longrightarrow> take (length w) (w @ s) \<noteq> w" using w by (auto simp only: strip_code_None)
  then have "w = []" by simp
  with pf w show ?thesis by (auto simp: prefix_free_def list_all_iff)
next
  case (Some t)
  then obtain v where v: "v \<in> set codes" "w @ s = v @ t" using strip_code_Some by blast
  have "take (length w) v = w \<or> take (length v) w = v"
    using v(2) by (metis append_eq_append_conv_if)
  then have "v = w" using pf v(1) w by (auto simp: prefix_free_def list_all_iff)
  with v(2) Some show ?thesis by simp
qed

lemma trim_start_run:
  assumes "prefix_free codes" and "code_run codes a"
  shows "trim_start_codes codes (a @ s) = trim_start_codes codes s"
proof -
  have "set ws \<subseteq> set codes \<Longrightarrow> trim_start_codes codes (concat ws @ s) = trim_start_codes codes s" for ws
    by (induction ws)
      (simp_all add: trim_start_codes.simps [of codes "_ @ _"] strip_code_append [OF assms(1)])
  with assms(2) show ?thesis unfolding code_run_def by blast
qed

lemma trim_start_stop:
  assumes "prefix_free codes" and "x \<noteq> []" and "hd x \<notin> hd ` set codes"
  shows "trim_start_codes codes (x @ s) = x @ s"
proof -
  have "take (length w) (x @ s) \<noteq> w" if "w \<in> set codes" "w \<noteq> []" for w
  proof
    assume "take (length w) (x @ s) = w"
    then have "hd w = hd x" using that(2) assms(2) by (metis hd_append2 hd_take length_greater_0_conv)
    with that(1) assms(3) show False by (metis image_eqI)
  qed
  then have "strip_code codes (x @ s) = None" by (simp add: strip_code_None)
  then show ?thesis by (simp add: trim_start_codes.simps [of codes "x @ s"])
qed

lemma hd_rev_image: "\<forall>w \<in> set ws. w \<noteq> [] \<Longrightarrow> hd ` set (map rev ws) = last ` set ws"
  by (induction ws) (auto simp: hd_rev)

lemma trim_pad:
  assumes "whitespace a" "whitespace b" "x \<noteq> []"
    and h: "hd x \<notin> hd ` set whitespace_codes" and l: "last x \<notin> last ` set whitespace_codes"
  shows "trim (a @ x @ b) = x"
proof -
  have ne: "\<forall>w \<in> set whitespace_codes. w \<noteq> []" by (simp add: whitespace_codes_def)
  have 1: "trim_start_codes whitespace_codes (a @ x @ b) = x @ b"
    using assms trim_start_run trim_start_stop whitespace_codes_prefix_free(1)
    by (simp add: whitespace_def)
  have "code_run (map rev whitespace_codes) (rev b)"
    using assms(2) by (simp add: code_run_rev whitespace_def)
  then have "trim_start_codes (map rev whitespace_codes) (rev b @ rev x) =
    trim_start_codes (map rev whitespace_codes) (rev x)"
    by (rule trim_start_run [OF whitespace_codes_prefix_free(2)])
  also have "\<dots> = rev x"
    using trim_start_stop [OF whitespace_codes_prefix_free(2), of "rev x" "[]"] assms(3) l
    by (simp add: hd_rev hd_rev_image [OF ne, simplified] image_image)
  finally show ?thesis by (simp add: trim_def 1)
qed

section \<open>Substrings\<close>

definition starts_with :: "string \<Rightarrow> string \<Rightarrow> bool" where
  "starts_with s p \<longleftrightarrow> take (length p) s = p"

fun contains :: "string \<Rightarrow> string \<Rightarrow> bool" where
  "contains [] p = (p = [])"
| "contains (c # s) p = (starts_with (c # s) p \<or> contains s p)"

text \<open>\<open>s.split(c).next()\<close>: the part before the first separator, the whole string if none.\<close>

definition split_first :: "char \<Rightarrow> string \<Rightarrow> string" where
  "split_first c s = takeWhile (\<lambda>x. x \<noteq> c) s"

lemma starts_with_iff: "starts_with s p \<longleftrightarrow> (\<exists>t. s = p @ t)"
  unfolding starts_with_def by (metis append_eq_conv_conj)

lemma starts_with_append [simp]: "starts_with (p @ t) p"
  by (simp add: starts_with_def)

lemma starts_with_trans: "starts_with s p \<Longrightarrow> starts_with p q \<Longrightarrow> starts_with s q"
  by (auto simp: starts_with_iff)

lemma contains_iff: "contains s p \<longleftrightarrow> (\<exists>a b. s = a @ p @ b)"
proof (induction s)
  case Nil
  then show ?case by auto
next
  case (Cons c s)
  show ?case
  proof
    assume "contains (c # s) p"
    then show "\<exists>a b. c # s = a @ p @ b"
      using Cons.IH by (auto simp: starts_with_iff) (metis append_Cons append_Nil)+
  next
    assume "\<exists>a b. c # s = a @ p @ b"
    then obtain a b where e: "c # s = a @ p @ b" by blast
    show "contains (c # s) p"
    proof (cases a)
      case Nil
      with e have "starts_with (c # s) p" by (simp add: starts_with_def)
      then show ?thesis by simp
    next
      case (Cons d a')
      with e Cons.IH show ?thesis by auto
    qed
  qed
qed

section \<open>Numbers in strings\<close>

definition is_ascii_digit :: "char \<Rightarrow> bool" where
  "is_ascii_digit c \<longleftrightarrow> (let n = of_char c :: nat in 48 \<le> n \<and> n \<le> 57)"

text \<open>
  \<open>str::parse::<u64>\<close>: an optional plus sign, at least one digit, nothing else; \<open>None\<close>
  also when the value does not fit in 64 bits.
\<close>

fun digits_value :: "nat \<Rightarrow> string \<Rightarrow> nat" where
  "digits_value acc [] = acc"
| "digits_value acc (c # s) = digits_value (10 * acc + (of_char c - 48)) s"

definition parse_u64 :: "string \<Rightarrow> u64 option" where
  "parse_u64 s =
     (let ds = (case s of [] \<Rightarrow> [] | c # t \<Rightarrow> if c = CHR ''+'' then t else s)
      in if ds \<noteq> [] \<and> list_all is_ascii_digit ds \<and> digits_value 0 ds < 2 ^ 64
         then Some (of_nat (digits_value 0 ds)) else None)"

text \<open>\<open>Uuid::simple\<close>: the 32 lowercase hexadecimal digits, most significant first.\<close>

definition hex_digit :: "nat \<Rightarrow> char" where
  "hex_digit n = ''0123456789abcdef'' ! n"

fun hex_digits :: "nat \<Rightarrow> nat \<Rightarrow> string" where
  "hex_digits 0 v = []"
| "hex_digits (Suc k) v = hex_digits k (v div 16) @ [hex_digit (v mod 16)]"

definition uuid_simple :: "uuid \<Rightarrow> string" where
  "uuid_simple u = hex_digits 32 (unat u)"

text \<open>\<open>Display\<close> of a UUID: the same digits in groups of 8, 4, 4, 4 and 12.\<close>

definition uuid_hyphenated :: "uuid \<Rightarrow> string" where
  "uuid_hyphenated u =
     (let s = uuid_simple u
      in take 8 s @ ''-'' @ take 4 (drop 8 s) @ ''-'' @ take 4 (drop 12 s) @ ''-'' @ take 4 (drop 16 s) @ ''-''
         @ drop 20 s)"

lemma length_hex_digits [simp]: "length (hex_digits k v) = k"
  by (induction k arbitrary: v) auto

lemma hex_digit_inj: "a < 16 \<Longrightarrow> b < 16 \<Longrightarrow> hex_digit a = hex_digit b \<Longrightarrow> a = b"
proof -
  have "\<forall>a < 16. \<forall>b < 16. hex_digit a = hex_digit b \<longrightarrow> a = b" by code_simp
  then show "a < 16 \<Longrightarrow> b < 16 \<Longrightarrow> hex_digit a = hex_digit b \<Longrightarrow> a = b" by blast
qed

lemma hex_digits_inj:
  "v < 16 ^ k \<Longrightarrow> w < 16 ^ k \<Longrightarrow> hex_digits k v = hex_digits k w \<Longrightarrow> v = w"
proof (induction k arbitrary: v w)
  case 0
  then show ?case by simp
next
  case (Suc k)
  then have "v div 16 = w div 16" and "hex_digit (v mod 16) = hex_digit (w mod 16)"
    by (auto intro: Suc.IH simp: less_mult_imp_div_less mult.commute)
  then have "v div 16 = w div 16" "v mod 16 = w mod 16" using hex_digit_inj by auto
  then show ?case by (metis div_mult_mod_eq)
qed

lemma length_uuid_simple: "length (uuid_simple u) = 32"
  by (simp add: uuid_simple_def)

lemma uuid_simple_inj: "uuid_simple u = uuid_simple v \<longleftrightarrow> u = v"
proof -
  have "unat w < 16 ^ 32" for w :: uuid using unsigned_less [of w] by simp
  then show ?thesis unfolding uuid_simple_def by (metis hex_digits_inj unsigned_word_eqI)
qed

section \<open>UTF-8\<close>

text \<open>
  \<open>str::is_char_boundary\<close>: offset 0, the length, or an offset whose byte does not continue a
  code point. \<open>utf8_char\<close> is the encoding of one code point, the shape every Rust string is
  made of.
\<close>

definition is_continuation :: "char \<Rightarrow> bool" where
  "is_continuation c \<longleftrightarrow> (let n = of_char c :: nat in 128 \<le> n \<and> n < 192)"

definition is_char_boundary :: "string \<Rightarrow> nat \<Rightarrow> bool" where
  "is_char_boundary s i \<longleftrightarrow> i = 0 \<or> i = length s \<or> (i < length s \<and> \<not> is_continuation (s ! i))"

definition utf8_char :: "string \<Rightarrow> bool" where
  "utf8_char w \<longleftrightarrow> (\<exists>b bs. w = b # bs \<and> \<not> is_continuation b \<and> list_all is_continuation bs \<and> length bs < 4)"

definition utf8_string :: "string \<Rightarrow> bool" where
  "utf8_string s \<longleftrightarrow> (\<exists>cs. list_all utf8_char cs \<and> s = concat cs)"

lemma boundary_prefix:
  assumes "list_all utf8_char cs" and "is_char_boundary (concat cs) i" and "i \<le> length (concat cs)"
  shows "\<exists>k. take i (concat cs) = concat (take k cs)"
  using assms
proof (induction cs arbitrary: i)
  case Nil
  then show ?case by simp
next
  case (Cons c cs)
  obtain b bs where c: "c = b # bs" "\<not> is_continuation b" "list_all is_continuation bs"
    using Cons.prems(1) by (auto simp: utf8_char_def)
  show ?case
  proof (cases "i < length c")
    case True
    have "i = 0"
    proof (rule ccontr)
      assume "i \<noteq> 0"
      with True c have "is_continuation (concat (c # cs) ! i)"
        by (cases i) (auto simp: nth_append list_all_length)
      with Cons.prems(2) \<open>i \<noteq> 0\<close> True show False
        by (auto simp: is_char_boundary_def)
    qed
    then show ?thesis by (metis concat.simps(1) take_0)
  next
    case False
    define j where "j = i - length c"
    have "is_char_boundary (concat cs) j" and "j \<le> length (concat cs)"
      using Cons.prems(2,3) False by (auto simp: is_char_boundary_def j_def nth_append)
    with Cons.IH Cons.prems(1) obtain k where "take j (concat cs) = concat (take k cs)" by auto
    with False have "take i (concat (c # cs)) = concat (take (Suc k) (c # cs))" by (simp add: j_def)
    then show ?thesis by blast
  qed
qed

lemma prefix_boundary:
  assumes "list_all utf8_char cs"
  shows "is_char_boundary (concat cs) (length (concat (take k cs)))"
proof (cases "k < length cs")
  case True
  then have cs: "cs = take k cs @ cs ! k # drop (Suc k) cs" by (rule id_take_nth_drop)
  have "utf8_char (cs ! k)" using assms True by (simp add: list_all_length)
  then obtain b bs where "cs ! k = b # bs" "\<not> is_continuation b" by (auto simp: utf8_char_def)
  then have "concat cs ! length (concat (take k cs)) = b" "length (concat (take k cs)) < length (concat cs)"
    by (metis (no_types) cs append_Cons concat.simps(2) concat_append nth_append_length)
      (subst (2) cs, simp add: \<open>cs ! k = b # bs\<close>)
  with \<open>\<not> is_continuation b\<close> show ?thesis by (simp add: is_char_boundary_def)
next
  case False
  then show ?thesis by (simp add: is_char_boundary_def)
qed

end
