(* ===== verification/Ordered_Map.thy ===== *)
theory Ordered_Map
  imports Prelude
begin

text \<open>
  \<open>BTreeMap\<close> of the standard library as the list of its entries in key order, and the
  interface the catalog relies on as a locale: what a lookup returns after an insertion, a
  removal or a change in place, and that every operation keeps the entries sorted. The
  interpretation \<open>bt\<close> discharges the laws for the list operations.
\<close>

type_synonym ('k, 'v) btree = "('k \<times> 'v) list"

definition bt_get :: "('k, 'v) btree \<Rightarrow> 'k \<Rightarrow> 'v option" where
  "bt_get m k = map_of m k"

fun bt_insert :: "'k::linorder \<Rightarrow> 'v \<Rightarrow> ('k, 'v) btree \<Rightarrow> ('k, 'v) btree" where
  "bt_insert k v [] = [(k, v)]"
| "bt_insert k v (e # m) =
     (if k < fst e then (k, v) # e # m
      else if k = fst e then (k, v) # m
      else e # bt_insert k v m)"

definition bt_remove :: "'k \<Rightarrow> ('k, 'v) btree \<Rightarrow> ('k, 'v) btree" where
  "bt_remove k m = filter (\<lambda>e. fst e \<noteq> k) m"

text \<open>A change through \<open>get_mut\<close>.\<close>

definition bt_modify :: "'k \<Rightarrow> ('v \<Rightarrow> 'v) \<Rightarrow> ('k, 'v) btree \<Rightarrow> ('k, 'v) btree" where
  "bt_modify k f m = map (\<lambda>e. if fst e = k then (k, f (snd e)) else e) m"

definition bt_values :: "('k, 'v) btree \<Rightarrow> 'v list" where
  "bt_values m = map snd m"

definition bt_sorted :: "('k::linorder, 'v) btree \<Rightarrow> bool" where
  "bt_sorted m \<longleftrightarrow> sorted_wrt (<) (map fst m)"

lemma bt_sorted_Nil [simp]: "bt_sorted []"
  by (simp add: bt_sorted_def)

lemma bt_sorted_Cons:
  "bt_sorted (e # m) \<longleftrightarrow> (\<forall>e' \<in> set m. fst e < fst e') \<and> bt_sorted m"
  by (auto simp: bt_sorted_def)

lemma bt_sorted_distinct: "bt_sorted m \<Longrightarrow> distinct (map fst m)"
  unfolding bt_sorted_def by (induction m) auto

lemma fst_bt_insert: "fst ` set (bt_insert k v m) = insert k (fst ` set m)"
  by (induction m) auto

lemma bt_insert_sorted: "bt_sorted m \<Longrightarrow> bt_sorted (bt_insert k v m)"
proof (induction m)
  case Nil
  then show ?case by (simp add: bt_sorted_def)
next
  case (Cons e m)
  then have s: "bt_sorted (bt_insert k v m)" by (simp add: bt_sorted_Cons)
  have "fst e < fst e'" if "e' \<in> set (bt_insert k v m)" "fst e < k" for e'
  proof -
    have "fst e' \<in> insert k (fst ` set m)" using that(1) fst_bt_insert [of k v m] by blast
    with Cons.prems that(2) show ?thesis by (auto simp: bt_sorted_Cons)
  qed
  with s Cons.prems show ?case by (auto simp: bt_sorted_Cons dest: less_trans)
qed

lemma bt_get_insert: "bt_sorted m \<Longrightarrow> bt_get (bt_insert k v m) = (bt_get m)(k \<mapsto> v)"
proof (induction m)
  case Nil
  then show ?case by (simp add: bt_get_def fun_eq_iff)
next
  case (Cons e m)
  then show ?case by (cases e) (auto simp: bt_get_def fun_eq_iff bt_sorted_Cons)
qed

lemma bt_get_remove: "bt_get (bt_remove k m) = (bt_get m)(k := None)"
  by (induction m) (auto simp: bt_get_def bt_remove_def fun_eq_iff)

lemma bt_get_modify: "bt_get (bt_modify k f m) = (bt_get m)(k := map_option f (bt_get m k))"
  by (induction m) (auto simp: bt_get_def bt_modify_def fun_eq_iff)

lemma bt_remove_sorted: "bt_sorted m \<Longrightarrow> bt_sorted (bt_remove k m)"
  by (induction m) (auto simp: bt_sorted_Cons bt_remove_def)

lemma bt_modify_sorted: "bt_sorted m \<Longrightarrow> bt_sorted (bt_modify k f m)"
proof -
  have "map fst (bt_modify k f m) = map fst m" by (auto simp: bt_modify_def)
  then show "bt_sorted m \<Longrightarrow> bt_sorted (bt_modify k f m)" by (simp add: bt_sorted_def)
qed

lemma bt_get_entries: "bt_sorted m \<Longrightarrow> bt_get m k = Some v \<longleftrightarrow> (k, v) \<in> set m"
  unfolding bt_get_def by (simp add: bt_sorted_distinct)

lemma bt_sorted_ext:
  assumes "bt_sorted m" and "bt_sorted m'" and "set m = set m'"
  shows "m = m'"
proof -
  have "sorted (map fst m)" "sorted (map fst m')"
    using assms(1,2) unfolding bt_sorted_def by (auto intro: sorted_wrt_mono_rel [rotated])
  moreover have "distinct (map fst m)" "distinct (map fst m')"
    using assms(1,2) by (auto dest: bt_sorted_distinct)
  moreover have "inj_on fst (set m \<union> set m')"
    using calculation(3) assms(3) by (simp add: distinct_map)
  ultimately show ?thesis
    using assms(3) by (intro map_sorted_distinct_set_unique [of fst]) auto
qed

section \<open>The interface\<close>

locale ordered_map =
  fixes empty :: "'m"
    and get :: "'m \<Rightarrow> 'k::linorder \<Rightarrow> 'v option"
    and ins :: "'k \<Rightarrow> 'v \<Rightarrow> 'm \<Rightarrow> 'm"
    and del :: "'k \<Rightarrow> 'm \<Rightarrow> 'm"
    and modify :: "'k \<Rightarrow> ('v \<Rightarrow> 'v) \<Rightarrow> 'm \<Rightarrow> 'm"
    and entries :: "'m \<Rightarrow> ('k \<times> 'v) list"
    and ok :: "'m \<Rightarrow> bool"
  assumes ok_empty: "ok empty"
    and ok_ins: "ok m \<Longrightarrow> ok (ins k v m)"
    and ok_del: "ok m \<Longrightarrow> ok (del k m)"
    and ok_modify: "ok m \<Longrightarrow> ok (modify k f m)"
    and get_empty: "get empty = Map.empty"
    and get_ins: "ok m \<Longrightarrow> get (ins k v m) = (get m)(k \<mapsto> v)"
    and get_del: "ok m \<Longrightarrow> get (del k m) = (get m)(k := None)"
    and get_modify: "ok m \<Longrightarrow> get (modify k f m) = (get m)(k := map_option f (get m k))"
    and entries_sorted: "ok m \<Longrightarrow> sorted_wrt (<) (map fst (entries m))"
    and entries_get: "ok m \<Longrightarrow> (k, v) \<in> set (entries m) \<longleftrightarrow> get m k = Some v"
begin

lemmas ok_intros = ok_empty ok_ins ok_del ok_modify

lemmas get_simps = get_empty get_ins get_del get_modify

lemma values_iff:
  assumes "ok m"
  shows "v \<in> snd ` set (entries m) \<longleftrightarrow> (\<exists>k. get m k = Some v)"
proof -
  have "v \<in> snd ` set (entries m) \<longleftrightarrow> (\<exists>k. (k, v) \<in> set (entries m))" by force
  then show ?thesis by (simp only: entries_get [OF assms])
qed

lemma values_ran: "ok m \<Longrightarrow> snd ` set (entries m) = ran (get m)"
  by (rule set_eqI) (simp only: values_iff ran_def mem_Collect_eq)

lemma ins_same: "ok m \<Longrightarrow> get m k = Some v \<Longrightarrow> get (ins k v m) = get m"
  by (auto simp: get_ins)

text \<open>A map is rebuilt from its entries by inserting them one by one.\<close>

lemma get_rebuild:
  assumes "ok m" and "distinct (map fst es)"
  shows "ok (fold (\<lambda>(k, v). ins k v) es m) \<and>
    get (fold (\<lambda>(k, v). ins k v) es m) = get m ++ map_of es"
  using assms
proof (induction es arbitrary: m)
  case Nil
  then show ?case by simp
next
  case (Cons e es)
  obtain k v where e: "e = (k, v)" by (cases e)
  then have "k \<notin> dom (map_of es)" using Cons.prems by (simp add: dom_map_of_conv_image_fst)
  then have "(get m)(k \<mapsto> v) ++ map_of es = get m ++ map_of (e # es)"
    by (auto simp: e fun_eq_iff map_add_def split: option.splits)
  moreover have "fold (\<lambda>(k, v). ins k v) (e # es) m = fold (\<lambda>(k, v). ins k v) es (ins k v m)"
    by (simp add: e)
  ultimately show ?case
    using Cons.IH [OF ok_ins [OF Cons.prems(1)], of k v] Cons.prems
    by (simp only: get_ins list.map distinct.simps)
qed

lemma rebuild_entries:
  assumes "ok m"
  shows "get (fold (\<lambda>(k, v). ins k v) (entries m) empty) = get m"
proof -
  have d: "distinct (map fst (entries m))"
    using entries_sorted [OF assms] by (simp add: strict_sorted_iff)
  have "map_of (entries m) k = get m k" for k
  proof (cases "get m k")
    case None
    then have "k \<notin> fst ` set (entries m)" using entries_get [OF assms] by fastforce
    with None show ?thesis by (simp add: map_of_eq_None_iff)
  next
    case (Some v)
    then show ?thesis using entries_get [OF assms] d by simp
  qed
  with get_rebuild [OF ok_empty d] show ?thesis by (simp add: get_empty fun_eq_iff)
qed

end

interpretation bt: ordered_map "[]" bt_get bt_insert bt_remove bt_modify "\<lambda>m. m" bt_sorted
  by unfold_locales
    (simp_all add: bt_insert_sorted bt_remove_sorted bt_modify_sorted bt_get_insert bt_get_remove
      bt_get_modify bt_get_entries, simp_all add: bt_get_def bt_sorted_def fun_eq_iff)

lemma bt_values_ran: "bt_sorted m \<Longrightarrow> set (bt_values m) = ran (bt_get m)"
  using bt.values_ran [of m] by (simp add: bt_values_def)

lemma bt_rebuild:
  assumes "bt_sorted m"
  shows "fold (\<lambda>(k, v). bt_insert k v) m [] = m"
proof -
  let ?r = "fold (\<lambda>(k, v). bt_insert k v) m []"
  have s: "bt_sorted ?r"
    using bt.get_rebuild [of "[]" m] bt_sorted_distinct [OF assms] by simp
  have "set ?r = set m"
    using bt.rebuild_entries [OF assms] bt_get_entries [OF s] bt_get_entries [OF assms]
    by (auto simp flip: bt_get_entries)
  then show ?thesis by (rule bt_sorted_ext [OF s assms])
qed

end
