(* ===== verification/Catalog_Model.thy ===== *)
theory Catalog_Model
  imports Complex_Main Byte_Strings Ordered_Map
begin

text \<open>
  The data types of \<open>bridge/src/catalog/model.rs\<close>: what the control plane and the Matter
  side exchange. A UUID is a 128-bit word (its byte order is the numeric order), a
  \<open>BTreeMap\<close> a sorted entry list, a JSON value the tree \<open>serde_json::Value\<close> is.
  A JSON float is a finite double, hence a rational number.
\<close>

section \<open>JSON values\<close>

datatype json_number = PosInt u64 | NegInt int | Float rat

datatype json =
    JNull
  | JBool bool
  | JNumber json_number
  | JString string
  | JArray "json list"
  | JObject "(string \<times> json) list"

text \<open>\<open>Value::as_u64\<close>, \<open>as_f64\<close>, \<open>as_str\<close>, and the saturating cast \<open>f64 as u64\<close>.\<close>

fun as_u64 :: "json \<Rightarrow> u64 option" where
  "as_u64 (JNumber (PosInt n)) = Some n"
| "as_u64 _ = None"

fun as_f64 :: "json \<Rightarrow> rat option" where
  "as_f64 (JNumber (PosInt n)) = Some (of_nat (unat n))"
| "as_f64 (JNumber (NegInt i)) = Some (of_int i)"
| "as_f64 (JNumber (Float f)) = Some f"
| "as_f64 _ = None"

fun as_str :: "json \<Rightarrow> string option" where
  "as_str (JString s) = Some s"
| "as_str _ = None"

definition f64_as_u64 :: "rat \<Rightarrow> u64" where
  "f64_as_u64 f = (if f \<le> 0 then 0 else if f \<ge> 2 ^ 64 then - 1 else of_int \<lfloor>f\<rfloor>)"

section \<open>Device types, exports, commands\<close>

datatype device_type =
    Light | OnOffSwitch | OnOffPlug | Outlet | Contact | Motion | Cover | Garage

definition is_on_off_capable :: "device_type \<Rightarrow> bool" where
  "is_on_off_capable t \<longleftrightarrow>
     (case t of Light \<Rightarrow> True | OnOffSwitch \<Rightarrow> True | OnOffPlug \<Rightarrow> True | Outlet \<Rightarrow> True | _ \<Rightarrow> False)"

datatype linked_role = Battery | Brightness | Position

record export =
  export_id :: uuid
  ex_name :: string
  ex_type :: device_type
  primary_entity_id :: string
  linked :: "(string, string) btree"
  area_id :: "string option"
  enabled :: bool
  endpoint_id :: "u16 option"

record catalog_snapshot =
  snap_bridge_name :: string
  snap_exports :: "export list"

record pairing_material =
  setup_code :: string
  qr_payload :: string
  pm_discriminator :: u32
  pm_passcode :: u32

record ha_state_value =
  entity_id :: string
  ha_state :: string
  attributes :: "(string, json) btree"

record ha_state_update =
  upd_states :: "ha_state_value list"

record state_push_result =
  push_applied :: u32

datatype command_kind = CmdOnOff | CmdLevel | CoverPosition | CoverOpen | CoverClose | CoverStop

record command_request =
  cmd_export_id :: uuid
  cmd_kind :: command_kind
  cmd_on :: "bool option"
  cmd_level :: "u8 option"
  cmd_position :: "u8 option"

instantiation device_type :: enum
begin

definition enum_device_type :: "device_type list" where
  "enum_device_type = [Light, OnOffSwitch, OnOffPlug, Outlet, Contact, Motion, Cover, Garage]"

definition enum_all_device_type :: "(device_type \<Rightarrow> bool) \<Rightarrow> bool" where
  "enum_all_device_type p \<longleftrightarrow> list_all p Enum.enum"

definition enum_ex_device_type :: "(device_type \<Rightarrow> bool) \<Rightarrow> bool" where
  "enum_ex_device_type p \<longleftrightarrow> list_ex p Enum.enum"

instance
proof
  show univ: "(UNIV :: device_type set) = set Enum.enum"
  proof (rule UNIV_eq_I)
    fix t :: device_type
    show "t \<in> set Enum.enum" by (cases t) (simp_all add: enum_device_type_def)
  qed
  show "distinct (Enum.enum :: device_type list)" by (simp add: enum_device_type_def)
  show "Enum.enum_all p \<longleftrightarrow> Ball UNIV p" for p :: "device_type \<Rightarrow> bool"
    by (simp add: univ enum_all_device_type_def list_all_iff)
  show "Enum.enum_ex p \<longleftrightarrow> Bex UNIV p" for p :: "device_type \<Rightarrow> bool"
    by (simp add: univ enum_ex_device_type_def list_ex_iff)
qed

end

lemma is_on_off_capable_iff: "is_on_off_capable t \<longleftrightarrow> t \<in> {Light, OnOffSwitch, OnOffPlug, Outlet}"
  by (cases t) (simp_all add: is_on_off_capable_def)

end
