(* ===== verification/Endpoint_Alloc.thy ===== *)
theory Endpoint_Alloc
  imports Prelude
begin

text \<open>
  The loop of \<open>CatalogStore::alloc_endpoint\<close> (\<open>bridge/src/catalog/store.rs\<close>): it looks for
  a free endpoint id from the cursor \<open>next_endpoint\<close> on, wrapping past 65535 to 1. The source
  loop has no bound of its own, so it is a \<open>partial_function\<close>; the lemmas show that it returns
  whenever some id of 1..65535 is free, and which id it returns: the first free one in cyclic order.
\<close>

definition first_endpoint_id :: u16 where
  "first_endpoint_id = 1"

partial_function (option) alloc_loop :: "u16 set \<Rightarrow> u16 \<Rightarrow> (u16 \<times> u16) option" where
  "alloc_loop used next =
     (let candidate = (if next = 0 then first_endpoint_id else next);
          next' = candidate + 1
      in if candidate \<notin> used then Some (candidate, next') else alloc_loop used next')"

text \<open>The \<open>j\<close>-th id after the cursor, in the cyclic order of 1..65535.\<close>

definition cyclic_id :: "u16 \<Rightarrow> nat \<Rightarrow> u16" where
  "cyclic_id next j = of_nat ((unat next - 1 + j) mod 65535 + 1)"

lemma unat_cyclic_id: "unat (cyclic_id n j) = (unat n - 1 + j) mod 65535 + 1"
proof -
  have "(unat n - 1 + j) mod 65535 + 1 < 65536"
    using mod_less_divisor [of 65535 "unat n - 1 + j"] by linarith
  then show ?thesis unfolding cyclic_id_def by (rule unat_of_nat_u16)
qed

lemma cyclic_id_nonzero: "cyclic_id n j \<noteq> 0"
  using unat_cyclic_id [of n j] by auto

lemma cyclic_id_0: "cyclic_id n 0 = (if n = 0 then first_endpoint_id else n)"
proof (cases "n = 0")
  case True
  then show ?thesis by (simp add: cyclic_id_def first_endpoint_id_def)
next
  case False
  then have "0 < unat n" and "unat n < 65536"
    using unat_u16_less [of n] by (auto simp: unat_gt_0)
  then have "unat (cyclic_id n 0) = unat n" by (simp add: unat_cyclic_id)
  with False show ?thesis by (simp add: unsigned_word_eqI)
qed

lemma cyclic_id_step: "cyclic_id (cyclic_id n 0 + 1) j = cyclic_id n (Suc j)"
proof -
  define m where "m = (unat n - 1) mod 65535"
  have m: "m < 65535" by (simp add: m_def)
  have u: "unat (cyclic_id n 0 + 1) = (m + 2) mod 65536"
    by (simp add: unat_word_ariths unat_cyclic_id m_def)
  have "(unat (cyclic_id n 0 + 1) - 1 + j) mod 65535 = (m + 1 + j) mod 65535"
  proof (cases "m = 65534")
    case True
    then show ?thesis by (simp add: u)
  next
    case False
    with m have "(m + 2) mod 65536 = m + 2" by simp
    then show ?thesis by (simp add: u)
  qed
  also have "\<dots> = (m + (1 + j)) mod 65535" by simp
  also have "\<dots> = (unat n - 1 + (1 + j)) mod 65535" unfolding m_def by (rule mod_add_left_eq)
  also have "\<dots> = (unat n - 1 + Suc j) mod 65535" by simp
  finally have "unat (cyclic_id (cyclic_id n 0 + 1) j) = unat (cyclic_id n (Suc j))"
    by (simp add: unat_cyclic_id)
  then show ?thesis by (rule unsigned_word_eqI)
qed

lemma cyclic_id_onto:
  assumes "c \<noteq> 0"
  obtains j where "j < 65535" and "cyclic_id n j = c"
proof -
  define m where "m = (unat n - 1) mod 65535"
  define x where "x = unat c - 1 + (65535 - m)"
  define j where "j = x mod 65535"
  have c: "0 < unat c" "unat c - 1 < 65535"
    using assms unat_u16_less [of c] by (auto simp: unat_gt_0)
  have m: "m \<le> 65535" by (simp add: m_def less_imp_le)
  have "(unat n - 1 + j) mod 65535 = (unat n - 1 + x) mod 65535"
    unfolding j_def by (rule mod_add_right_eq)
  also have "\<dots> = (m + x) mod 65535" unfolding m_def by (rule mod_add_left_eq [symmetric])
  also have "m + x = unat c - 1 + 65535" using m by (simp add: x_def)
  also have "\<dots> mod 65535 = unat c - 1" using c(2) by (simp only: mod_add_self2 mod_less)
  finally have "unat (cyclic_id n j) = unat c" using c by (simp add: unat_cyclic_id)
  then have "cyclic_id n j = c" by (rule unsigned_word_eqI)
  moreover have "j < 65535" by (simp add: j_def)
  ultimately show ?thesis using that by blast
qed

lemma alloc_loop_unfold:
  "alloc_loop used n =
     (if cyclic_id n 0 \<notin> used then Some (cyclic_id n 0, cyclic_id n 0 + 1)
      else alloc_loop used (cyclic_id n 0 + 1))"
  by (subst alloc_loop.simps) (simp add: Let_def cyclic_id_0)

lemma alloc_loop_first_free:
  assumes "cyclic_id n j \<notin> used" and "\<forall>i < j. cyclic_id n i \<in> used"
  shows "alloc_loop used n = Some (cyclic_id n j, cyclic_id n j + 1)"
  using assms
proof (induction j arbitrary: n)
  case 0
  then show ?case by (subst alloc_loop_unfold) simp
next
  case (Suc j)
  let ?n = "cyclic_id n 0 + 1"
  have "alloc_loop used n = alloc_loop used ?n"
    using Suc.prems(2) by (subst alloc_loop_unfold) auto
  also have "\<dots> = Some (cyclic_id ?n j, cyclic_id ?n j + 1)"
    using Suc.prems by (intro Suc.IH) (auto simp: cyclic_id_step)
  finally show ?case by (simp add: cyclic_id_step)
qed

lemma free_id_exists:
  assumes "card used < 65535"
  shows "\<exists>c :: u16. c \<noteq> 0 \<and> c \<notin> used"
proof (rule ccontr)
  assume "\<not> (\<exists>c. c \<noteq> 0 \<and> c \<notin> used)"
  then have "UNIV - {0} \<subseteq> used" by auto
  then have "card (UNIV - {0 :: u16}) \<le> card used" by (intro card_mono) auto
  then show False using assms by (simp add: card_word)
qed

lemma alloc_loop_returns:
  assumes "card used < 65535"
  shows "\<exists>j < 65535. alloc_loop used n = Some (cyclic_id n j, cyclic_id n j + 1) \<and>
    cyclic_id n j \<notin> used \<and> (\<forall>i < j. cyclic_id n i \<in> used)"
proof -
  obtain c where c: "c \<noteq> 0" "c \<notin> used" using free_id_exists [OF assms] by blast
  obtain j0 where j0: "j0 < 65535" "cyclic_id n j0 = c" using cyclic_id_onto [OF c(1)] .
  define j where "j = (LEAST j. cyclic_id n j \<notin> used)"
  have "cyclic_id n j0 \<notin> used" using c(2) j0(2) by simp
  then have j: "cyclic_id n j \<notin> used" "j \<le> j0" unfolding j_def by (fact LeastI, fact Least_le)
  moreover have "\<forall>i < j. cyclic_id n i \<in> used" unfolding j_def by (auto dest: not_less_Least)
  ultimately show ?thesis using alloc_loop_first_free [OF j(1)] j0(1) by (intro exI [of _ j]) auto
qed

lemma alloc_loop_fresh:
  assumes "card used < 65535"
  obtains c where "alloc_loop used n = Some (c, c + 1)" and "c \<noteq> 0" and "c \<notin> used"
    and "n \<noteq> 0 \<Longrightarrow> n \<notin> used \<Longrightarrow> c = n"
proof -
  obtain j where j: "alloc_loop used n = Some (cyclic_id n j, cyclic_id n j + 1)"
    "cyclic_id n j \<notin> used" "\<forall>i < j. cyclic_id n i \<in> used"
    using alloc_loop_returns [OF assms] by blast
  moreover have "cyclic_id n j = n" if "n \<noteq> 0" "n \<notin> used"
    using j(3) that cyclic_id_0 [of n] by (cases j) auto
  ultimately show ?thesis using that cyclic_id_nonzero by blast
qed

text \<open>
  A run of allocations against the same set of used ids: the cursor moves on along the cycle, so the ids handed
  out so far are the free ones among its first \<open>k\<close> places (\<open>free_until\<close>). As long as an id is free
  that is neither used nor handed out, the next one is new.
\<close>

lemma next_id_less:
  assumes "n + 1 \<noteq> (0 :: u16)"
  shows "n < n + 1"
proof -
  have "unat n \<noteq> 65535"
  proof
    assume "unat n = 65535"
    then have "unat (n + 1) = 0" by (simp add: unat_word_ariths)
    with assms show False by (simp add: unat_eq_zero)
  qed
  then have "unat (n + 1) = unat n + 1" using unat_u16_less [of n] by (simp add: unat_word_ariths)
  then show ?thesis by (simp add: word_less_nat_alt)
qed

lemma cyclic_id_again: "cyclic_id (cyclic_id n j) k = cyclic_id n (j + k)"
proof -
  have "unat (cyclic_id (cyclic_id n j) k) = unat (cyclic_id n (j + k))"
    by (simp add: unat_cyclic_id mod_add_left_eq add.assoc)
  then show ?thesis by (rule unsigned_word_eqI)
qed

lemma cyclic_id_after: "cyclic_id (cyclic_id n j + 1) i = cyclic_id n (Suc (j + i))"
  using cyclic_id_step [of "cyclic_id n j" i] by (simp add: cyclic_id_again)

lemma cyclic_id_neq:
  assumes "i < j" and "j < 65535"
  shows "cyclic_id n i \<noteq> cyclic_id n j"
proof
  assume "cyclic_id n i = cyclic_id n j"
  then have "unat (cyclic_id n i) = unat (cyclic_id n j)" by simp
  then have "(unat n - 1 + j) mod 65535 = (unat n - 1 + i) mod 65535" by (simp add: unat_cyclic_id)
  then have "65535 dvd (unat n - 1 + j) - (unat n - 1 + i)"
    using assms(1) by (subst (asm) mod_eq_dvd_iff_nat) simp_all
  then have "65535 dvd j - i" by simp
  with assms show False by (auto dest: dvd_imp_le)
qed

definition free_until :: "u16 set \<Rightarrow> u16 \<Rightarrow> nat \<Rightarrow> u16 set" where
  "free_until used n k = cyclic_id n ` {..< k} - used"

lemma alloc_loop_run:
  assumes "\<And>j. cyclic_id next j = cyclic_id n (k + j)" and "card (used \<union> free_until used n k) < 65535"
  obtains c k' where "alloc_loop used next = Some (c, c + 1)" "c \<noteq> 0" "c \<notin> used" "c \<notin> free_until used n k"
    "free_until used n k' = insert c (free_until used n k)" "\<And>j. cyclic_id (c + 1) j = cyclic_id n (k' + j)"
proof -
  let ?A = "free_until used n k"
  obtain f where f: "f \<noteq> 0" "f \<notin> used \<union> ?A" using free_id_exists [OF assms(2)] by blast
  obtain i where i: "i < 65535" "cyclic_id n i = f" using cyclic_id_onto [OF f(1)] .
  have "\<not> i < k" using f(2) i(2) by (auto simp: free_until_def)
  then obtain i' where i': "i = k + i'" by (metis le_iff_add linorder_not_less)
  have "card used < 65535" by (rule order_le_less_trans [OF card_mono assms(2)]) auto
  then obtain j where j: "alloc_loop used next = Some (cyclic_id next j, cyclic_id next j + 1)"
    "cyclic_id next j \<notin> used" "\<forall>i < j. cyclic_id next i \<in> used"
    using alloc_loop_returns by blast
  have "cyclic_id next i' \<notin> used" using f(2) i(2) i' assms(1) by simp
  then have "j \<le> i'" using j(3) linorder_not_less by blast
  then have kj: "k + j < 65535" using i(1) i' by simp
  define c where "c = cyclic_id n (k + j)"
  have "c \<notin> ?A"
    using cyclic_id_neq [OF _ kj, THEN not_sym] by (auto simp: c_def free_until_def)
  moreover have "free_until used n (Suc (k + j)) = insert c ?A"
  proof -
    have "cyclic_id n l \<in> used" if "k \<le> l" "l < k + j" for l
      using that j(3) assms(1) by (metis le_iff_add nat_add_left_cancel_less)
    then have "cyclic_id n ` {k ..< k + j} \<subseteq> used" by auto
    moreover have "{..< Suc (k + j)} = insert (k + j) ({..< k} \<union> {k ..< k + j})" by auto
    moreover have "c \<notin> used" using j(2) assms(1) by (simp add: c_def)
    ultimately show ?thesis by (auto simp: free_until_def c_def)
  qed
  moreover have "cyclic_id (c + 1) l = cyclic_id n (Suc (k + j) + l)" for l
    unfolding c_def by (simp add: cyclic_id_after)
  ultimately show ?thesis
    using that [of c "Suc (k + j)"] j(1,2) assms(1) cyclic_id_nonzero unfolding c_def by simp
qed

end
