(* ===== verification/Disk.thy ===== *)
theory Disk
  imports Prelude
begin

text \<open>
  The part of \<open>std::fs\<close> the bridge uses, on the files of its data directory. A disk maps
  file names to contents; the type of the contents is left open, because the text format is
  produced and read by a library. Every operation can fail, as the environment \<open>fs_env\<close>
  says; a failed write leaves whatever \<open>torn\<close> says in the file. A failing operation is also
  what a crash at that point leaves behind. The first argument of an operation is the caller's
  error for an \<open>io::Error\<close> (the \<open>From\<close> conversion the \<open>?\<close> operator applies).

  The lemmas about \<open>write_then_rename\<close> state what the write-to-temporary, then rename
  pattern of the source promises: the target is at every moment the old or the new content.
\<close>

datatype fs_op =
    CreateDirAll
  | WriteFile string
  | RenameFile string string
  | ReadFile string

record 't fs_env =
  op_fails :: "fs_op \<Rightarrow> bool"
  torn :: "string \<Rightarrow> 't option"

type_synonym 't disk = "string \<rightharpoonup> 't"

definition fs_create_dir_all :: "'e \<Rightarrow> 't fs_env \<Rightarrow> 't disk \<Rightarrow> ('e + unit) \<times> 't disk" where
  "fs_create_dir_all err env d = (if op_fails env CreateDirAll then (Inl err, d) else (Inr (), d))"

definition fs_write :: "'e \<Rightarrow> 't fs_env \<Rightarrow> string \<Rightarrow> 't \<Rightarrow> 't disk \<Rightarrow> ('e + unit) \<times> 't disk" where
  "fs_write err env p x d =
     (if op_fails env (WriteFile p) then (Inl err, d(p := torn env p)) else (Inr (), d(p \<mapsto> x)))"

definition fs_rename :: "'e \<Rightarrow> 't fs_env \<Rightarrow> string \<Rightarrow> string \<Rightarrow> 't disk \<Rightarrow> ('e + unit) \<times> 't disk" where
  "fs_rename err env p q d =
     (if op_fails env (RenameFile p q) then (Inl err, d)
      else case d p of
             None \<Rightarrow> (Inl err, d)
           | Some x \<Rightarrow> (Inr (), (d(p := None))(q \<mapsto> x)))"

definition fs_read :: "'e \<Rightarrow> 't fs_env \<Rightarrow> string \<Rightarrow> 't disk \<Rightarrow> 'e + 't" where
  "fs_read err env p d =
     (if op_fails env (ReadFile p) then Inl err
      else case d p of None \<Rightarrow> Inl err | Some x \<Rightarrow> Inr x)"

definition fs_exists :: "string \<Rightarrow> 't disk \<Rightarrow> bool" where
  "fs_exists p d \<longleftrightarrow> d p \<noteq> None"

definition healthy :: "'t fs_env \<Rightarrow> bool" where
  "healthy env \<longleftrightarrow> (\<forall>p. \<not> op_fails env p)"

definition write_then_rename ::
  "'e \<Rightarrow> 't fs_env \<Rightarrow> string \<Rightarrow> string \<Rightarrow> 't \<Rightarrow> 't disk \<Rightarrow> ('e + unit) \<times> 't disk" where
  "write_then_rename err env tmp path x d =
     and_then (fs_write err env tmp x d) (\<lambda>_ d. fs_rename err env tmp path d)"

lemma write_then_rename_ok:
  assumes "write_then_rename err env tmp path x d = (Inr u, d')"
  shows "d' path = Some x"
  using assms
  by (auto simp: write_then_rename_def fs_write_def fs_rename_def split: if_splits)

lemma write_then_rename_old_or_new:
  assumes "write_then_rename err env tmp path x d = (r, d')" and "tmp \<noteq> path"
  shows "d' path = d path \<or> d' path = Some x"
  using assms
  by (auto simp: write_then_rename_def fs_write_def fs_rename_def split: if_splits)

lemma write_then_rename_frame:
  assumes "write_then_rename err env tmp path x d = (r, d')" and "p \<noteq> tmp" and "p \<noteq> path"
  shows "d' p = d p"
  using assms
  by (auto simp: write_then_rename_def fs_write_def fs_rename_def split: if_splits)

lemma write_then_rename_files:
  assumes "write_then_rename err env tmp path x d = (r, d')" and "tmp \<noteq> path"
  shows "(d' path = Some x \<or> r = Inl err \<and> d' path = d path) \<and>
    (\<forall>p. p \<noteq> tmp \<longrightarrow> p \<noteq> path \<longrightarrow> d' p = d p)"
  using assms
  by (auto simp: write_then_rename_def fs_write_def fs_rename_def split: if_splits option.splits)

lemma write_then_rename_error:
  assumes "write_then_rename err env tmp path x d = (Inl e, d')" and "tmp \<noteq> path"
  shows "e = err \<and> d' path = d path"
  using assms
  by (auto simp: write_then_rename_def fs_write_def fs_rename_def split: if_splits)

lemma write_then_rename_healthy:
  assumes "healthy env" and "tmp \<noteq> path"
  shows "write_then_rename err env tmp path x d = (Inr (), d(tmp := None, path \<mapsto> x))"
  using assms
  by (simp add: write_then_rename_def fs_write_def fs_rename_def healthy_def)

lemma fs_read_healthy: "healthy env \<Longrightarrow> d p = Some x \<Longrightarrow> fs_read err env p d = Inr x"
  by (simp add: fs_read_def healthy_def)

end
