(* ===== verification/Catalog_Store.thy ===== *)
theory Catalog_Store
  imports Catalog_Model Endpoint_Alloc Disk
begin

text \<open>
  \<open>CatalogStore\<close> of \<open>bridge/src/catalog/store.rs\<close>: the export catalog in memory and its
  two files. Every operation takes the store and the disk, and returns them in the success and in
  the error case. The text format (serde) is the parameter \<open>codec\<close>; a new UUID
  (\<open>Uuid::new_v4\<close>) is an argument.
\<close>

section \<open>State and errors\<close>

datatype catalog_error =
    NotFound uuid
  | Invalid string
  | EndpointExhausted
  | Io
  | Json

record create_export =
  cr_export_id :: "uuid option"
  cr_name :: string
  cr_type :: device_type
  cr_primary_entity_id :: string
  cr_linked :: "(string, string) btree"
  cr_area_id :: "string option"
  cr_enabled :: bool

record patch_export =
  pa_name :: "string option"
  pa_type :: "device_type option"
  pa_primary_entity_id :: "string option"
  pa_linked :: "(string, string) btree option"
  pa_area_id :: "string option option"
  pa_enabled :: "bool option"

record persisted_config =
  pc_bridge_name :: string
  pc_next_endpoint :: u16

record persisted_exports =
  pe_exports :: "export list"

record catalog_store =
  data_dir :: string
  bridge_name :: string
  by_id :: "(uuid, export) btree"
  next_endpoint :: u16

text \<open>The library's text format: \<open>None\<close> where \<open>to_string_pretty\<close> or \<open>from_str\<close> fails.\<close>

record 't codec =
  ser_config :: "persisted_config \<Rightarrow> 't option"
  de_config :: "'t \<Rightarrow> persisted_config option"
  ser_exports :: "persisted_exports \<Rightarrow> 't option"
  de_exports :: "'t \<Rightarrow> persisted_exports option"

definition codec_round_trips :: "'t codec \<Rightarrow> bool" where
  "codec_round_trips c \<longleftrightarrow>
     (\<forall>x. \<exists>t. ser_config c x = Some t \<and> de_config c t = Some x) \<and>
     (\<forall>x. \<exists>t. ser_exports c x = Some t \<and> de_exports c t = Some x)"

definition exports_file :: string where "exports_file = ''exports.json''"
definition config_file :: string where "config_file = ''bridge_config.json''"
definition exports_tmp :: string where "exports_tmp = exports_file @ ''.tmp''"
definition config_tmp :: string where "config_tmp = config_file @ ''.tmp''"

lemmas file_names = exports_file_def config_file_def exports_tmp_def config_tmp_def

section \<open>Operations\<close>

definition catalog_new :: "string \<Rightarrow> string \<Rightarrow> catalog_store" where
  "catalog_new dir bname =
     \<lparr>data_dir = dir, bridge_name = bname, by_id = [], next_endpoint = first_endpoint_id\<rparr>"

definition catalog_list :: "catalog_store \<Rightarrow> export list" where
  "catalog_list st = bt_values (by_id st)"

definition snapshot :: "catalog_store \<Rightarrow> catalog_snapshot" where
  "snapshot st = \<lparr>snap_bridge_name = bridge_name st, snap_exports = catalog_list st\<rparr>"

definition catalog_get :: "catalog_store \<Rightarrow> uuid \<Rightarrow> export option" where
  "catalog_get st i = bt_get (by_id st) i"

definition export_count :: "catalog_store \<Rightarrow> nat" where
  "export_count st = length (by_id st)"

definition enabled_export_count :: "catalog_store \<Rightarrow> nat" where
  "enabled_export_count st = length (filter enabled (catalog_list st))"

definition used_endpoints :: "catalog_store \<Rightarrow> u16 set" where
  "used_endpoints st = set (List.map_filter endpoint_id (catalog_list st))"

definition alloc_endpoint :: "catalog_store \<Rightarrow> (catalog_error + u16) \<times> catalog_store" where
  "alloc_endpoint st =
     (let used = used_endpoints st
      in if card used \<ge> 65535 then (Inl EndpointExhausted, st)
         else let (candidate, next) = the (alloc_loop used (next_endpoint st))
              in (Inr candidate, st\<lparr>next_endpoint := next\<rparr>))"

definition persist :: "'t codec \<Rightarrow> 't fs_env \<Rightarrow> catalog_store \<Rightarrow> 't disk \<Rightarrow> (catalog_error + unit) \<times> 't disk" where
  "persist c env st d =
     and_then (fs_create_dir_all Io env d) (\<lambda>_ d.
       case ser_config c \<lparr>pc_bridge_name = bridge_name st, pc_next_endpoint = next_endpoint st\<rparr> of
         None \<Rightarrow> (Inl Json, d)
       | Some cfg \<Rightarrow>
           and_then (write_then_rename Io env config_tmp config_file cfg d) (\<lambda>_ d.
             case ser_exports c \<lparr>pe_exports = catalog_list st\<rparr> of
               None \<Rightarrow> (Inl Json, d)
             | Some ex \<Rightarrow> write_then_rename Io env exports_tmp exports_file ex d))"

text \<open>\<open>self.persist()?\<close> at the end of an operation, then its result.\<close>

definition persist_then ::
  "'t codec \<Rightarrow> 't fs_env \<Rightarrow> 'a \<Rightarrow> catalog_store \<Rightarrow> 't disk \<Rightarrow> (catalog_error + 'a) \<times> catalog_store \<times> 't disk" where
  "persist_then c env out st d =
     (case persist c env st d of (Inl e, d') \<Rightarrow> (Inl e, st, d') | (Inr _, d') \<Rightarrow> (Inr out, st, d'))"

definition set_bridge_name ::
  "'t codec \<Rightarrow> 't fs_env \<Rightarrow> string \<Rightarrow> catalog_store \<times> 't disk \<Rightarrow> (catalog_error + unit) \<times> catalog_store \<times> 't disk" where
  "set_bridge_name c env name = (\<lambda>(st, d).
     if name = [] \<or> length name > 32
     then (Inl (Invalid ''bridge_name must be 1..=32 characters''), st, d)
     else persist_then c env () (st\<lparr>bridge_name := name\<rparr>) d)"

definition validate_export_fields :: "string \<Rightarrow> string \<Rightarrow> catalog_error + unit" where
  "validate_export_fields name primary =
     (if name = [] \<or> length name > 64 then Inl (Invalid ''name must be 1..=64 characters'')
      else if primary = [] then Inl (Invalid ''primary_entity_id must be non-empty'')
      else Inr ())"

definition create ::
  "'t codec \<Rightarrow> 't fs_env \<Rightarrow> uuid \<Rightarrow> create_export \<Rightarrow> catalog_store \<times> 't disk \<Rightarrow>
     (catalog_error + export) \<times> catalog_store \<times> 't disk" where
  "create c env new_v4 body = (\<lambda>(st, d).
     case validate_export_fields (cr_name body) (cr_primary_entity_id body) of
       Inl e \<Rightarrow> (Inl e, st, d)
     | Inr _ \<Rightarrow>
         let i = (case cr_export_id body of None \<Rightarrow> new_v4 | Some i \<Rightarrow> i)
         in if bt_get (by_id st) i \<noteq> None
            then (Inl (Invalid (''export_id already exists: '' @ uuid_hyphenated i)), st, d)
            else case alloc_endpoint st of
                (Inl e, st') \<Rightarrow> (Inl e, st', d)
              | (Inr ep, st') \<Rightarrow>
                  let ex = \<lparr>export_id = i, ex_name = cr_name body, ex_type = cr_type body,
                     primary_entity_id = cr_primary_entity_id body, linked = cr_linked body,
                     area_id = cr_area_id body, enabled = cr_enabled body, endpoint_id = Some ep\<rparr>
                  in persist_then c env ex (st'\<lparr>by_id := bt_insert i ex (by_id st')\<rparr>) d)"

text \<open>\<open>if let Some(v) = ... { exp.field = v }\<close>: write a field when the body carries it.\<close>

definition write_some :: "('v \<Rightarrow> 'e \<Rightarrow> 'e) \<Rightarrow> 'v option \<Rightarrow> 'e \<Rightarrow> 'e" where
  "write_some w x e = (case x of None \<Rightarrow> e | Some v \<Rightarrow> w v e)"

text \<open>
  The field updates of \<open>patch\<close> on the borrowed export: they stop at the first invalid field and
  keep what was already written.
\<close>

definition patch_fields :: "patch_export \<Rightarrow> u16 option \<Rightarrow> export \<Rightarrow> (catalog_error + unit) \<times> export" where
  "patch_fields body new_endpoint e0 =
     and_then (case pa_name body of
         None \<Rightarrow> (Inr (), e0)
       | Some n \<Rightarrow> if n = [] \<or> length n > 64 then (Inl (Invalid ''name must be 1..=64 characters''), e0)
                   else (Inr (), e0\<lparr>ex_name := n\<rparr>)) (\<lambda>_ e.
     let e = write_some (\<lambda>v e. e\<lparr>ex_type := v\<rparr>) (pa_type body) e in
     and_then (case pa_primary_entity_id body of
         None \<Rightarrow> (Inr (), e)
       | Some p \<Rightarrow> if p = [] then (Inl (Invalid ''primary_entity_id must be non-empty''), e)
                   else (Inr (), e\<lparr>primary_entity_id := p\<rparr>)) (\<lambda>_ e.
     let e = write_some (\<lambda>v e. e\<lparr>linked := v\<rparr>) (pa_linked body) e;
         e = write_some (\<lambda>v e. e\<lparr>area_id := v\<rparr>) (pa_area_id body) e;
         e = write_some (\<lambda>v e. e\<lparr>enabled := v\<rparr>) (pa_enabled body) e;
         e = (if endpoint_id e = None then e\<lparr>endpoint_id := new_endpoint\<rparr> else e)
     in (Inr (), e)))"

definition patch ::
  "'t codec \<Rightarrow> 't fs_env \<Rightarrow> uuid \<Rightarrow> patch_export \<Rightarrow> catalog_store \<times> 't disk \<Rightarrow>
     (catalog_error + export) \<times> catalog_store \<times> 't disk" where
  "patch c env i body = (\<lambda>(st, d).
     case bt_get (by_id st) i of
       None \<Rightarrow> (Inl (NotFound i), st, d)
     | Some cur \<Rightarrow>
         (case (if endpoint_id cur = None then
                  (case alloc_endpoint st of (Inl e, s) \<Rightarrow> (Inl e, s) | (Inr ep, s) \<Rightarrow> (Inr (Some ep), s))
                else (Inr None, st)) of
            (Inl e, st') \<Rightarrow> (Inl e, st', d)
          | (Inr new_endpoint, st') \<Rightarrow>
              (case patch_fields body new_endpoint cur of
                 (Inl e, e') \<Rightarrow> (Inl e, st'\<lparr>by_id := bt_modify i (\<lambda>_. e') (by_id st')\<rparr>, d)
               | (Inr _, e') \<Rightarrow>
                   persist_then c env e' (st'\<lparr>by_id := bt_modify i (\<lambda>_. e') (by_id st')\<rparr>) d)))"

definition delete ::
  "'t codec \<Rightarrow> 't fs_env \<Rightarrow> uuid \<Rightarrow> catalog_store \<times> 't disk \<Rightarrow>
     (catalog_error + export) \<times> catalog_store \<times> 't disk" where
  "delete c env i = (\<lambda>(st, d).
     case bt_get (by_id st) i of
       None \<Rightarrow> (Inl (NotFound i), st, d)
     | Some e \<Rightarrow> persist_then c env e (st\<lparr>by_id := bt_remove i (by_id st)\<rparr>) d)"

fun replace_loop ::
  "export list \<Rightarrow> (uuid, export) btree \<Rightarrow> catalog_store \<Rightarrow> (catalog_error + (uuid, export) btree) \<times> catalog_store" where
  "replace_loop [] next st = (Inr next, st)"
| "replace_loop (ex # rest) next st =
     (case validate_export_fields (ex_name ex) (primary_entity_id ex) of
        Inl e \<Rightarrow> (Inl e, st)
      | Inr _ \<Rightarrow>
          let ex = (case bt_get (by_id st) (export_id ex) of
                       None \<Rightarrow> ex
                     | Some prev \<Rightarrow> ex\<lparr>endpoint_id :=
                         (case endpoint_id prev of Some ep \<Rightarrow> Some ep | None \<Rightarrow> endpoint_id ex)\<rparr>)
          in if endpoint_id ex = None
             then and_then (alloc_endpoint st) (\<lambda>ep st.
                    replace_loop rest (bt_insert (export_id ex) (ex\<lparr>endpoint_id := Some ep\<rparr>) next) st)
             else replace_loop rest (bt_insert (export_id ex) ex next) st)"

definition replace ::
  "'t codec \<Rightarrow> 't fs_env \<Rightarrow> catalog_snapshot \<Rightarrow> catalog_store \<times> 't disk \<Rightarrow>
     (catalog_error + catalog_snapshot) \<times> catalog_store \<times> 't disk" where
  "replace c env incoming = (\<lambda>(st, d).
     if snap_bridge_name incoming = [] \<or> length (snap_bridge_name incoming) > 32
     then (Inl (Invalid ''bridge_name must be 1..=32 characters''), st, d)
     else case replace_loop (snap_exports incoming) [] (st\<lparr>bridge_name := snap_bridge_name incoming\<rparr>) of
         (Inl e, st') \<Rightarrow> (Inl e, st', d)
       | (Inr next, st') \<Rightarrow>
           let st'' = st'\<lparr>by_id := next\<rparr> in persist_then c env (snapshot st'') st'' d)"

subsection \<open>Loading\<close>

fun load_insert_loop :: "export list \<Rightarrow> uuid list \<Rightarrow> catalog_store \<Rightarrow> uuid list \<times> catalog_store" where
  "load_insert_loop [] missing st = (missing, st)"
| "load_insert_loop (ex # rest) missing st =
     (let (missing', st') = (case endpoint_id ex of
            Some ep \<Rightarrow> (missing, st\<lparr>next_endpoint := max (next_endpoint st) (saturating_add ep 1)\<rparr>)
          | None \<Rightarrow> (missing @ [export_id ex], st))
      in load_insert_loop rest missing' (st'\<lparr>by_id := bt_insert (export_id ex) ex (by_id st')\<rparr>))"

fun load_missing_loop :: "uuid list \<Rightarrow> catalog_store \<Rightarrow> (catalog_error + unit) \<times> catalog_store" where
  "load_missing_loop [] st = (Inr (), st)"
| "load_missing_loop (i # rest) st =
     and_then (alloc_endpoint st) (\<lambda>ep st.
       load_missing_loop rest (st\<lparr>by_id := bt_modify i (\<lambda>e. e\<lparr>endpoint_id := Some ep\<rparr>) (by_id st)\<rparr>))"

definition load_config :: "'t codec \<Rightarrow> 't fs_env \<Rightarrow> 't disk \<Rightarrow> catalog_store \<Rightarrow> catalog_error + catalog_store" where
  "load_config c env d st =
     (if fs_exists config_file d then
        (case fs_read Io env config_file d of
           Inl e \<Rightarrow> Inl e
         | Inr raw \<Rightarrow> (case de_config c raw of
             None \<Rightarrow> Inl Json
           | Some cfg \<Rightarrow> Inr (st\<lparr>bridge_name := pc_bridge_name cfg,
                             next_endpoint := max (pc_next_endpoint cfg) first_endpoint_id\<rparr>)))
      else Inr st)"

definition load_exports :: "'t codec \<Rightarrow> 't fs_env \<Rightarrow> 't disk \<Rightarrow> catalog_store \<Rightarrow> catalog_error + catalog_store" where
  "load_exports c env d st =
     (if fs_exists exports_file d then
        (case fs_read Io env exports_file d of
           Inl e \<Rightarrow> Inl e
         | Inr raw \<Rightarrow> (case de_exports c raw of
             None \<Rightarrow> Inl Json
           | Some file \<Rightarrow>
               (let (missing, st') = load_insert_loop (pe_exports file) [] st
                in case load_missing_loop missing st' of
                     (Inl e, _) \<Rightarrow> Inl e
                   | (Inr _, st'') \<Rightarrow> Inr st'')))
      else Inr st)"

definition load_or_new ::
  "'t codec \<Rightarrow> 't fs_env \<Rightarrow> string \<Rightarrow> string \<Rightarrow> 't disk \<Rightarrow> (catalog_error + catalog_store) \<times> 't disk" where
  "load_or_new c env dir default_name d =
     and_then (fs_create_dir_all Io env d) (\<lambda>_ d.
       case load_config c env d (catalog_new dir default_name) of
         Inl e \<Rightarrow> (Inl e, d)
       | Inr st \<Rightarrow> (load_exports c env d st, d))"

end
