(* ===== verification/Catalog_Invariant.thy ===== *)
theory Catalog_Invariant
  imports Catalog_Store
begin

text \<open>
  What the catalog keeps true: entries are keyed by their \<open>export_id\<close>, their names and
  entities are valid, each has a non-zero endpoint id, and no two share one. The lemmas show that
  every operation keeps it, whatever fails on the disk, and that the files only ever hold catalogs
  with the property, so that a restart keeps it too.
\<close>

definition export_valid :: "export \<Rightarrow> bool" where
  "export_valid e \<longleftrightarrow> ex_name e \<noteq> [] \<and> length (ex_name e) \<le> 64 \<and> primary_entity_id e \<noteq> []"

definition export_ok :: "uuid \<Rightarrow> export \<Rightarrow> bool" where
  "export_ok i e \<longleftrightarrow> export_id e = i \<and> export_valid e \<and> (\<exists>ep. endpoint_id e = Some ep \<and> ep \<noteq> 0)"

definition exports_inv :: "(uuid, export) btree \<Rightarrow> bool" where
  "exports_inv m \<longleftrightarrow>
     bt_sorted m \<and> (\<forall>i e. bt_get m i = Some e \<longrightarrow> export_ok i e) \<and>
     (\<forall>i j e f. bt_get m i = Some e \<longrightarrow> bt_get m j = Some f \<longrightarrow> endpoint_id e = endpoint_id f \<longrightarrow> i = j)"

definition catalog_inv :: "catalog_store \<Rightarrow> bool" where
  "catalog_inv st \<longleftrightarrow> exports_inv (by_id st)"

section \<open>Allocation\<close>

lemma used_endpoints_iff:
  assumes "bt_sorted (by_id st)"
  shows "ep \<in> used_endpoints st \<longleftrightarrow> (\<exists>i e. bt_get (by_id st) i = Some e \<and> endpoint_id e = Some ep)"
proof -
  have "ep \<in> used_endpoints st \<longleftrightarrow> (\<exists>e \<in> set (bt_values (by_id st)). endpoint_id e = Some ep)"
    by (force simp: used_endpoints_def catalog_list_def List.map_filter_def)
  then show ?thesis by (auto simp: bt_values_ran [OF assms] ran_def)
qed

lemma alloc_endpoint_cases:
  obtains (exhausted) "alloc_endpoint st = (Inl EndpointExhausted, st)" "card (used_endpoints st) \<ge> 65535"
  | (fresh) ep where "alloc_endpoint st = (Inr ep, st\<lparr>next_endpoint := ep + 1\<rparr>)"
      "card (used_endpoints st) < 65535" "ep \<noteq> 0" "ep \<notin> used_endpoints st"
      "next_endpoint st \<noteq> 0 \<Longrightarrow> next_endpoint st \<notin> used_endpoints st \<Longrightarrow> ep = next_endpoint st"
proof (cases "card (used_endpoints st) < 65535")
  case True
  then obtain c where "alloc_loop (used_endpoints st) (next_endpoint st) = Some (c, c + 1)" "c \<noteq> 0"
    "c \<notin> used_endpoints st"
    "next_endpoint st \<noteq> 0 \<Longrightarrow> next_endpoint st \<notin> used_endpoints st \<Longrightarrow> c = next_endpoint st"
    using alloc_loop_fresh [of "used_endpoints st" "next_endpoint st"] by metis
  with True show ?thesis by (intro fresh [of c]) (auto simp: alloc_endpoint_def Let_def)
next
  case False
  then show ?thesis by (intro exhausted) (auto simp: alloc_endpoint_def)
qed

section \<open>Operations\<close>

lemma persist_then_store: "persist_then c env out st d = (r, st', d') \<Longrightarrow> st' = st"
  by (auto simp: persist_then_def split: prod.splits sum.splits)

lemma persist_then_result:
  "persist_then c env out st d = (r, st', d') \<Longrightarrow>
     (r = Inr out \<and> persist c env st d = (Inr (), d')) \<or>
     (\<exists>e. r = Inl e \<and> persist c env st d = (Inl e, d'))"
  by (auto simp: persist_then_def split: prod.splits sum.splits)

lemma exports_inv_empty: "exports_inv []"
  by (simp add: exports_inv_def bt.get_empty)

lemma exports_inv_insert:
  assumes "exports_inv m" "bt_get m i = None" "export_ok i e"
    and "\<forall>j f. bt_get m j = Some f \<longrightarrow> endpoint_id f \<noteq> endpoint_id e"
  shows "exports_inv (bt_insert i e m)"
  using assms unfolding exports_inv_def
  by (auto simp: bt_get_insert bt_insert_sorted) blast+

lemma exports_inv_remove: "exports_inv m \<Longrightarrow> exports_inv (bt_remove i m)"
  unfolding exports_inv_def by (auto simp: bt_get_remove bt_remove_sorted split: if_splits)

lemma exports_inv_modify:
  assumes "exports_inv m" "bt_get m i = Some e" "export_ok i e'" "endpoint_id e' = endpoint_id e"
  shows "exports_inv (bt_modify i (\<lambda>_. e') m)"
  using assms unfolding exports_inv_def
  by (auto simp: bt_get_modify bt_modify_sorted split: if_splits)

lemma exports_inv_get: "exports_inv m \<Longrightarrow> bt_get m i = Some e \<Longrightarrow> export_ok i e"
  by (simp add: exports_inv_def)

lemma validate_export_fields_ok:
  "validate_export_fields n p = Inr u \<longleftrightarrow> n \<noteq> [] \<and> length n \<le> 64 \<and> p \<noteq> []"
  by (auto simp: validate_export_fields_def)

lemma create_store:
  assumes "create c env v4 body (st, d) = (r, st', d')"
  obtains (unchanged) x where "st' = st" "d' = d" "r = Inl x"
  | (inserted) e ep where "st' = st\<lparr>next_endpoint := ep + 1, by_id := bt_insert (export_id e) e (by_id st)\<rparr>"
      "bt_get (by_id st) (export_id e) = None" "export_valid e" "endpoint_id e = Some ep" "ep \<noteq> 0"
      "ep \<notin> used_endpoints st"
      "next_endpoint st \<noteq> 0 \<Longrightarrow> next_endpoint st \<notin> used_endpoints st \<Longrightarrow> ep = next_endpoint st"
      "persist_then c env e st' d = (r, st', d')"
proof (cases "validate_export_fields (cr_name body) (cr_primary_entity_id body)")
  case (Inl e)
  with assms show ?thesis by (intro unchanged) (auto simp: create_def)
next
  case (Inr u)
  define i where "i = (case cr_export_id body of None \<Rightarrow> v4 | Some i \<Rightarrow> i)"
  show ?thesis
  proof (cases "bt_get (by_id st) i = None")
    case False
    with assms Inr show ?thesis by (intro unchanged) (auto simp: create_def i_def Let_def)
  next
    case None: True
    show ?thesis
    proof (cases rule: alloc_endpoint_cases [of st])
      case exhausted
      with assms Inr None show ?thesis by (intro unchanged) (auto simp: create_def i_def Let_def)
    next
      case (fresh ep)
      define e where "e = \<lparr>export_id = i, ex_name = cr_name body, ex_type = cr_type body,
         primary_entity_id = cr_primary_entity_id body, linked = cr_linked body,
         area_id = cr_area_id body, enabled = cr_enabled body, endpoint_id = Some ep\<rparr>"
      have p: "persist_then c env e (st\<lparr>next_endpoint := ep + 1, by_id := bt_insert i e (by_id st)\<rparr>) d = (r, st', d')"
        using assms Inr None fresh(1)
        by (simp add: create_def i_def [symmetric] e_def [symmetric] Let_def)
      then have st': "st' = st\<lparr>next_endpoint := ep + 1, by_id := bt_insert (export_id e) e (by_id st)\<rparr>"
        by (auto simp: e_def dest: persist_then_store)
      show ?thesis
      proof (rule inserted [OF st'])
        show "persist_then c env e st' d = (r, st', d')" using p st' by (simp add: e_def)
      qed (use None fresh Inr in \<open>auto simp: e_def export_valid_def validate_export_fields_ok\<close>)
    qed
  qed
qed

lemma create_inv:
  assumes "catalog_inv st" and "create c env v4 body (st, d) = (r, st', d')"
  shows "catalog_inv st'"
  using assms(2)
proof (cases rule: create_store)
  case unchanged
  with assms(1) show ?thesis by (simp add: catalog_inv_def)
next
  case (inserted e ep)
  have "bt_sorted (by_id st)" using assms(1) by (simp add: catalog_inv_def exports_inv_def)
  then have "endpoint_id f \<noteq> Some ep" if "bt_get (by_id st) j = Some f" for j f
    using inserted(6) that used_endpoints_iff by blast
  with assms(1) inserted(2-5) show ?thesis
    by (auto simp: catalog_inv_def inserted(1) export_ok_def intro!: exports_inv_insert)
qed

text \<open>An optional field write leaves the other fields alone.\<close>

lemma write_some_frame:
  "export_id (write_some (\<lambda>v e. e\<lparr>ex_type := v\<rparr>) x e) = export_id e"
  "export_id (write_some (\<lambda>v e. e\<lparr>linked := v\<rparr>) y e) = export_id e"
  "export_id (write_some (\<lambda>v e. e\<lparr>area_id := v\<rparr>) z e) = export_id e"
  "export_id (write_some (\<lambda>v e. e\<lparr>enabled := v\<rparr>) b e) = export_id e"
  "endpoint_id (write_some (\<lambda>v e. e\<lparr>ex_type := v\<rparr>) x e) = endpoint_id e"
  "endpoint_id (write_some (\<lambda>v e. e\<lparr>linked := v\<rparr>) y e) = endpoint_id e"
  "endpoint_id (write_some (\<lambda>v e. e\<lparr>area_id := v\<rparr>) z e) = endpoint_id e"
  "endpoint_id (write_some (\<lambda>v e. e\<lparr>enabled := v\<rparr>) b e) = endpoint_id e"
  "ex_name (write_some (\<lambda>v e. e\<lparr>ex_type := v\<rparr>) x e) = ex_name e"
  "ex_name (write_some (\<lambda>v e. e\<lparr>linked := v\<rparr>) y e) = ex_name e"
  "ex_name (write_some (\<lambda>v e. e\<lparr>area_id := v\<rparr>) z e) = ex_name e"
  "ex_name (write_some (\<lambda>v e. e\<lparr>enabled := v\<rparr>) b e) = ex_name e"
  "primary_entity_id (write_some (\<lambda>v e. e\<lparr>ex_type := v\<rparr>) x e) = primary_entity_id e"
  "primary_entity_id (write_some (\<lambda>v e. e\<lparr>linked := v\<rparr>) y e) = primary_entity_id e"
  "primary_entity_id (write_some (\<lambda>v e. e\<lparr>area_id := v\<rparr>) z e) = primary_entity_id e"
  "primary_entity_id (write_some (\<lambda>v e. e\<lparr>enabled := v\<rparr>) b e) = primary_entity_id e"
  by (simp_all add: write_some_def split: option.splits)

lemma patch_fields_keeps:
  assumes "patch_fields body n e = (r, e')" and "endpoint_id e = Some ep"
  shows "export_id e' = export_id e \<and> endpoint_id e' = Some ep \<and> (export_valid e \<longrightarrow> export_valid e')"
  using assms
  by (cases "pa_name body"; cases "pa_primary_entity_id body")
    (auto simp: patch_fields_def Let_def export_valid_def write_some_frame split: if_splits)

lemma patch_store:
  assumes "patch c env i body (st, d) = (r, st', d')"
    and assigned: "\<forall>e. bt_get (by_id st) i = Some e \<longrightarrow> endpoint_id e \<noteq> None"
  obtains (missing) "bt_get (by_id st) i = None" "st' = st" "d' = d" "r = Inl (NotFound i)"
  | (patched) e e' q where "bt_get (by_id st) i = Some e" "patch_fields body None e = (q, e')"
      "st' = st\<lparr>by_id := bt_modify i (\<lambda>_. e') (by_id st)\<rparr>"
      "case q of Inl err \<Rightarrow> r = Inl err \<and> d' = d | Inr _ \<Rightarrow> (r, st', d') = persist_then c env e' st' d"
proof (cases "bt_get (by_id st) i")
  case None
  with assms(1) show ?thesis by (intro missing) (auto simp: patch_def)
next
  case (Some e)
  obtain q e' where q: "patch_fields body None e = (q, e')" by (cases "patch_fields body None e")
  define st1 where "st1 = st\<lparr>by_id := bt_modify i (\<lambda>_. e') (by_id st)\<rparr>"
  have eq: "patch c env i body (st, d) =
    (case q of Inl err \<Rightarrow> (Inl err, st1, d) | Inr _ \<Rightarrow> persist_then c env e' st1 d)"
    using Some q assigned by (auto simp: patch_def st1_def split: sum.splits)
  have "st' = st1"
    using eq assms(1) by (auto split: sum.splits dest: persist_then_store persist_then_store [OF sym])
  then show ?thesis using Some q eq assms(1) by (intro patched) (auto simp: st1_def split: sum.splits)
qed

lemma catalog_inv_endpoint:
  "catalog_inv st \<Longrightarrow> \<forall>e. bt_get (by_id st) i = Some e \<longrightarrow> endpoint_id e \<noteq> None"
  by (auto simp: catalog_inv_def dest!: exports_inv_get simp: export_ok_def)

lemma patch_inv:
  assumes "catalog_inv st" and "patch c env i body (st, d) = (r, st', d')"
  shows "catalog_inv st'"
proof (cases rule: patch_store [OF assms(2) catalog_inv_endpoint [OF assms(1)],
    case_names missing patched])
  case missing
  with assms(1) show ?thesis by simp
next
  case (patched e e' q)
  have ok: "export_ok i e" using assms(1) patched(1) by (simp add: catalog_inv_def exports_inv_get)
  then obtain ep where ep: "endpoint_id e = Some ep" by (auto simp: export_ok_def)
  from patch_fields_keeps [OF patched(2) ep] ok ep assms(1) patched(1,3) show ?thesis
    unfolding catalog_inv_def by (auto simp: export_ok_def intro!: exports_inv_modify [of _ _ e])
qed

lemma delete_inv:
  assumes "catalog_inv st" and "delete c env i (st, d) = (r, st', d')"
  shows "catalog_inv st'"
  using assms
  by (auto simp: delete_def catalog_inv_def exports_inv_remove split: option.splits dest!: persist_then_store)

lemma set_bridge_name_inv:
  assumes "catalog_inv st" and "set_bridge_name c env n (st, d) = (r, st', d')"
  shows "catalog_inv st'"
  using assms by (auto simp: set_bridge_name_def catalog_inv_def split: if_splits dest!: persist_then_store)

end
