(* ===== verification/Catalog_Bulk.thy ===== *)
theory Catalog_Bulk
  imports Catalog_Invariant
begin

text \<open>
  The operations of \<open>CatalogStore\<close> that build the whole map anew: \<open>replace\<close> and the loading of the
  exports file. Neither checks the endpoint ids it is given against each other, so each keeps the invariant
  of the catalog under a condition on its input, stated here: \<open>snapshot_fits\<close> and \<open>file_ok\<close>.
\<close>

lemma used_endpoints_inv:
  "catalog_inv st \<Longrightarrow>
     ep \<in> used_endpoints st \<longleftrightarrow> (\<exists>i e. bt_get (by_id st) i = Some e \<and> endpoint_id e = Some ep)"
  by (simp add: catalog_inv_def exports_inv_def used_endpoints_iff)

lemma exports_inv_put:
  assumes "exports_inv m" "export_ok i e"
    and "\<And>j f. j \<noteq> i \<Longrightarrow> bt_get m j = Some f \<Longrightarrow> endpoint_id f \<noteq> endpoint_id e"
  shows "exports_inv (bt_insert i e m)"
proof -
  have s: "bt_sorted m" using assms(1) by (simp add: exports_inv_def)
  have "j = l" if "bt_get (bt_insert i e m) j = Some f" "bt_get (bt_insert i e m) l = Some g" "endpoint_id f = endpoint_id g"
    for j l f g
    using that assms(3) assms(1) unfolding bt_get_insert [OF s] exports_inv_def
    by (auto split: if_splits)
  moreover have "export_ok j f" if "bt_get (bt_insert i e m) j = Some f" for j f
    using that assms(1,2) unfolding bt_get_insert [OF s] exports_inv_def by (auto split: if_splits)
  ultimately show ?thesis unfolding exports_inv_def using bt_insert_sorted [OF s] by blast
qed

section \<open>Replacing the catalog\<close>

text \<open>
  A snapshot that gives its new exports no endpoint ids of their own, and for which enough ids are free. The ids
  of the exports the catalog has already are kept, whatever the snapshot says.
\<close>

definition snapshot_fits :: "catalog_store \<Rightarrow> catalog_snapshot \<Rightarrow> bool" where
  "snapshot_fits st incoming \<longleftrightarrow>
     (\<forall>e \<in> set (snap_exports incoming). catalog_get st (export_id e) = None \<longrightarrow> endpoint_id e = None) \<and>
     card (used_endpoints st) + length (filter (\<lambda>e. catalog_get st (export_id e) = None) (snap_exports incoming)) \<le> 65535"

text \<open>The new map so far: old exports at their old endpoints, new ones at ids of \<open>A\<close>.\<close>

definition drawn :: "(uuid, export) btree \<Rightarrow> u16 set \<Rightarrow> (uuid, export) btree \<Rightarrow> bool" where
  "drawn old A m \<longleftrightarrow> exports_inv m \<and>
     (\<forall>i e. bt_get m i = Some e \<longrightarrow>
        (case bt_get old i of Some p \<Rightarrow> endpoint_id e = endpoint_id p | None \<Rightarrow> endpoint_id e \<in> Some ` A))"

lemma drawnD:
  assumes "drawn old A m" and "bt_get m i = Some e"
  shows "bt_get old i = None \<Longrightarrow> \<exists>a \<in> A. endpoint_id e = Some a"
    and "bt_get old i = Some p \<Longrightarrow> endpoint_id e = endpoint_id p"
proof -
  have "case bt_get old i of Some p \<Rightarrow> endpoint_id e = endpoint_id p | None \<Rightarrow> endpoint_id e \<in> Some ` A"
    using assms unfolding drawn_def by blast
  then show "bt_get old i = None \<Longrightarrow> \<exists>a \<in> A. endpoint_id e = Some a"
    "bt_get old i = Some p \<Longrightarrow> endpoint_id e = endpoint_id p" by auto
qed

lemma drawn_old:
  assumes "catalog_inv st" and "drawn (by_id st) A m" and "A \<inter> used_endpoints st = {}"
    and "bt_get (by_id st) i = Some p" and "export_ok i e" and "endpoint_id e = endpoint_id p"
  shows "drawn (by_id st) A (bt_insert i e m)"
proof -
  have inv: "exports_inv m" using assms(2) by (simp add: drawn_def)
  then have s: "bt_sorted m" by (simp add: exports_inv_def)
  obtain ep where ep: "endpoint_id p = Some ep" "ep \<in> used_endpoints st"
    using assms(1,4-6) by (auto simp: export_ok_def used_endpoints_inv)
  have "endpoint_id f \<noteq> endpoint_id e" if "j \<noteq> i" "bt_get m j = Some f" for j f
  proof (cases "bt_get (by_id st) j")
    case None
    with drawnD(1) [OF assms(2) that(2)] assms(3,6) ep show ?thesis by auto
  next
    case (Some q)
    then have "endpoint_id f = endpoint_id q" using drawnD(2) [OF assms(2)] that by blast
    with Some that(1) assms(1,4,6) show ?thesis by (auto simp: catalog_inv_def exports_inv_def)
  qed
  with exports_inv_put [OF inv assms(5)] assms(2,4,6) show ?thesis
    by (simp add: drawn_def bt_get_insert [OF s])
qed

lemma drawn_new:
  assumes "catalog_inv st" and "drawn (by_id st) A m" and "c \<notin> A" and "c \<notin> used_endpoints st"
    and "bt_get (by_id st) i = None" and "export_ok i e" and "endpoint_id e = Some c"
  shows "drawn (by_id st) (insert c A) (bt_insert i e m)"
proof -
  have inv: "exports_inv m" using assms(2) by (simp add: drawn_def)
  then have s: "bt_sorted m" by (simp add: exports_inv_def)
  have "endpoint_id f \<noteq> endpoint_id e" if "bt_get m j = Some f" for j f
  proof (cases "bt_get (by_id st) j")
    case None
    with drawnD(1) [OF assms(2) that] assms(3,7) show ?thesis by auto
  next
    case (Some q)
    then have "endpoint_id f = endpoint_id q" using drawnD(2) [OF assms(2)] that by blast
    with Some assms(1,4,7) show ?thesis by (auto simp: used_endpoints_inv)
  qed
  then have "exports_inv (bt_insert i e m)" using exports_inv_put [OF inv assms(6)] by blast
  then show ?thesis
    using drawnD [OF assms(2)] assms(5,7) by (fastforce simp: drawn_def bt_get_insert [OF s] split: option.splits)
qed

lemma alloc_endpoint_by_id: "by_id (snd (alloc_endpoint st)) = by_id st"
  by (cases rule: alloc_endpoint_cases [of st]) simp_all

lemma replace_loop_by_id: "by_id (snd (replace_loop exs m st)) = by_id st"
proof (induction exs m st rule: replace_loop.induct)
  case (2 ex rest m st)
  obtain q st1 where a: "alloc_endpoint st = (q, st1)" by fastforce
  with alloc_endpoint_by_id [of st] have "by_id st1 = by_id st" by simp
  with "2.IH" a show ?case by (auto simp: and_then_def Let_def split: sum.splits)
qed simp

lemma used_endpoints_cursor [simp]: "used_endpoints (st\<lparr>next_endpoint := n\<rparr>) = used_endpoints st"
  by (simp add: used_endpoints_def catalog_list_def)

lemma alloc_endpoint_run:
  assumes "\<And>j. cyclic_id (next_endpoint st) j = cyclic_id n (k + j)"
    and "card (used_endpoints st \<union> free_until (used_endpoints st) n k) < 65535"
  obtains c k' where "alloc_endpoint st = (Inr c, st\<lparr>next_endpoint := c + 1\<rparr>)" "c \<noteq> 0" "c \<notin> used_endpoints st"
    "c \<notin> free_until (used_endpoints st) n k"
    "free_until (used_endpoints st) n k' = insert c (free_until (used_endpoints st) n k)"
    "\<And>j. cyclic_id (c + 1) j = cyclic_id n (k' + j)"
proof -
  obtain c k' where c: "alloc_loop (used_endpoints st) (next_endpoint st) = Some (c, c + 1)" "c \<noteq> 0" "c \<notin> used_endpoints st"
    "c \<notin> free_until (used_endpoints st) n k"
    "free_until (used_endpoints st) n k' = insert c (free_until (used_endpoints st) n k)"
    "\<And>j. cyclic_id (c + 1) j = cyclic_id n (k' + j)"
    by (rule alloc_loop_run [OF assms]) blast
  have "card (used_endpoints st) < 65535" by (rule order_le_less_trans [OF card_mono assms(2)]) auto
  then have "alloc_endpoint st = (Inr c, st\<lparr>next_endpoint := c + 1\<rparr>)"
    using c(1) by (simp add: alloc_endpoint_def Let_def)
  then show ?thesis using that [of c k'] c(2-6) by blast
qed

lemma replace_loop_inv:
  assumes "replace_loop exs m st = (Inr m', st')" and "catalog_inv st"
    and "\<And>j. cyclic_id (next_endpoint st) j = cyclic_id n (k + j)"
    and "drawn (by_id st) (free_until (used_endpoints st) n k) m"
    and "\<forall>e \<in> set exs. bt_get (by_id st) (export_id e) = None \<longrightarrow> endpoint_id e = None"
    and "card (used_endpoints st \<union> free_until (used_endpoints st) n k) +
      length (filter (\<lambda>e. bt_get (by_id st) (export_id e) = None) exs) \<le> 65535"
  shows "exports_inv m'"
  using assms
proof (induction exs m st arbitrary: k m' st' rule: replace_loop.induct)
  case (1 m st)
  then show ?case by (simp add: drawn_def)
next
  case (2 ex rest m st)
  define ex' where "ex' = (case bt_get (by_id st) (export_id ex) of None \<Rightarrow> ex
     | Some prev \<Rightarrow> ex\<lparr>endpoint_id := (case endpoint_id prev of Some ep \<Rightarrow> Some ep | None \<Rightarrow> endpoint_id ex)\<rparr>)"
  let ?U = "used_endpoints st"
  obtain u where v: "validate_export_fields (ex_name ex) (primary_entity_id ex) = Inr u"
    using "2.prems"(1) by (cases "validate_export_fields (ex_name ex) (primary_entity_id ex)") auto
  have i: "export_id ex' = export_id ex" by (simp add: ex'_def split: option.splits)
  have valid: "export_valid (ex'\<lparr>endpoint_id := x\<rparr>)" for x
    using v by (simp add: validate_export_fields_ok export_valid_def ex'_def split: option.splits)
  show ?case
  proof (cases "bt_get (by_id st) (export_id ex)")
    case None
    then have e: "ex' = ex" "endpoint_id ex' = None" using "2.prems"(5) by (simp_all add: ex'_def)
    have "card (?U \<union> free_until ?U n k) < 65535" using "2.prems"(6) None by simp
    from alloc_endpoint_run [OF "2.prems"(3) this] obtain c k' where
      c: "alloc_endpoint st = (Inr c, st\<lparr>next_endpoint := c + 1\<rparr>)" "c \<noteq> 0" "c \<notin> ?U" "c \<notin> free_until ?U n k"
      and k': "free_until ?U n k' = insert c (free_until ?U n k)" "\<And>j. cyclic_id (c + 1) j = cyclic_id n (k' + j)"
      by metis
    let ?m = "bt_insert (export_id ex') (ex'\<lparr>endpoint_id := Some c\<rparr>) m" and ?st = "st\<lparr>next_endpoint := c + 1\<rparr>"
    have "replace_loop rest ?m ?st = (Inr m', st')"
      using "2.prems"(1) v e c(1) by (simp add: ex'_def [symmetric] and_then_def Let_def)
    note l = this
    have "export_ok (export_id ex') (ex'\<lparr>endpoint_id := Some c\<rparr>)"
      using valid c(2) by (simp add: export_ok_def)
    then have "drawn (by_id st) (free_until ?U n k') ?m"
      unfolding k'(1) using None i c(3,4) "2.prems"(2,4) by (intro drawn_new) simp_all
    moreover have "catalog_inv ?st" using "2.prems"(2) by (simp add: catalog_inv_def)
    moreover have "card (?U \<union> free_until ?U n k') \<le> Suc (card (?U \<union> free_until ?U n k))"
      unfolding k'(1) by (simp add: card_insert_if)
    ultimately show ?thesis
      using "2.IH"(1) [OF v ex'_def e(2) l, of k'] "2.prems"(5,6) k'(2) None by simp
  next
    case (Some p)
    then obtain ep where ep: "endpoint_id p = Some ep" "ep \<noteq> 0"
      using "2.prems"(2) by (auto simp: catalog_inv_def dest!: exports_inv_get simp: export_ok_def)
    then have e: "endpoint_id ex' = Some ep" using Some by (simp add: ex'_def)
    let ?m = "bt_insert (export_id ex') ex' m"
    have l: "replace_loop rest ?m st = (Inr m', st')"
      using "2.prems"(1) v e by (simp add: ex'_def [symmetric] Let_def)
    have "export_ok (export_id ex') ex'"
      using valid [of "Some ep"] e ep(2) by (simp add: export_ok_def export_valid_def)
    then have "drawn (by_id st) (free_until ?U n k) ?m"
      using Some i e ep "2.prems"(2,4) by (intro drawn_old) (auto simp: free_until_def)
    then show ?thesis
      using "2.IH"(2) [OF v ex'_def _ l "2.prems"(2,3)] e "2.prems"(5,6) Some by simp
  qed
qed

lemma replace_inv:
  assumes "catalog_inv st" and "snapshot_fits st incoming" and "replace c env incoming (st, d) = (r, st', d')"
  shows "catalog_inv st'"
proof -
  let ?st = "st\<lparr>bridge_name := snap_bridge_name incoming\<rparr>"
  obtain q st1 where l: "replace_loop (snap_exports incoming) [] ?st = (q, st1)" by fastforce
  have u: "used_endpoints ?st = used_endpoints st" by (simp add: used_endpoints_def catalog_list_def)
  have "by_id st1 = by_id st" using l replace_loop_by_id [of "snap_exports incoming" "[]" ?st] by simp
  moreover have "exports_inv m" if "q = Inr m" for m
  proof (rule replace_loop_inv [OF l [unfolded that], of "next_endpoint st" 0])
    show "drawn (by_id ?st) (free_until (used_endpoints ?st) (next_endpoint st) 0) []"
      by (simp add: drawn_def exports_inv_empty bt.get_empty)
  qed (use assms(1,2) u in \<open>auto simp: snapshot_fits_def catalog_get_def catalog_inv_def free_until_def\<close>)
  ultimately show ?thesis
    using assms(1,3) l by (auto simp: replace_def Let_def catalog_inv_def split: if_splits sum.splits dest!: persist_then_store)
qed

section \<open>Loading the exports file\<close>

text \<open>
  A file as a careful writer leaves it: no export id and no endpoint id twice, none of them the root endpoint,
  valid names and entities. Endpoint ids may be missing; loading allocates them. \<open>load_or_new\<close> checks none of
  this.
\<close>

definition file_ok :: "export list \<Rightarrow> bool" where
  "file_ok exs \<longleftrightarrow>
     distinct (map export_id exs) \<and> list_all (\<lambda>e. export_valid e \<and> endpoint_id e \<noteq> Some 0) exs \<and>
     distinct (List.map_filter endpoint_id exs)"

definition exports_part :: "(uuid, export) btree \<Rightarrow> bool" where
  "exports_part m \<longleftrightarrow>
     bt_sorted m \<and> (\<forall>i e. bt_get m i = Some e \<longrightarrow> export_id e = i \<and> export_valid e \<and> endpoint_id e \<noteq> Some 0) \<and>
     (\<forall>i j e f ep. bt_get m i = Some e \<longrightarrow> bt_get m j = Some f \<longrightarrow>
        endpoint_id e = Some ep \<longrightarrow> endpoint_id f = Some ep \<longrightarrow> i = j)"

definition unassigned :: "(uuid, export) btree \<Rightarrow> uuid set" where
  "unassigned m = {i. \<exists>e. bt_get m i = Some e \<and> endpoint_id e = None}"

lemma exports_part_inv: "exports_inv m \<longleftrightarrow> exports_part m \<and> unassigned m = {}"
  unfolding exports_inv_def exports_part_def unassigned_def export_ok_def by fastforce

lemma exports_part_insert:
  assumes "exports_part m" and "export_id e = i" and "export_valid e" and "endpoint_id e \<noteq> Some 0"
    and "\<And>j f ep. j \<noteq> i \<Longrightarrow> bt_get m j = Some f \<Longrightarrow> endpoint_id f = Some ep \<Longrightarrow> endpoint_id e \<noteq> Some ep"
  shows "exports_part (bt_insert i e m)"
proof -
  have s: "bt_sorted m" using assms(1) by (simp add: exports_part_def)
  show ?thesis
    using assms bt_insert_sorted [OF s] unfolding exports_part_def bt_get_insert [OF s]
    by (auto split: if_splits)
qed

lemma exports_part_assign:
  assumes "exports_part m" and "ep \<noteq> 0"
    and "\<And>j f. bt_get m j = Some f \<Longrightarrow> endpoint_id f \<noteq> Some ep"
  shows "exports_part (bt_modify i (\<lambda>e. e\<lparr>endpoint_id := Some ep\<rparr>) m)"
    and "unassigned (bt_modify i (\<lambda>e. e\<lparr>endpoint_id := Some ep\<rparr>) m) = unassigned m - {i}"
proof -
  show "exports_part (bt_modify i (\<lambda>e. e\<lparr>endpoint_id := Some ep\<rparr>) m)"
    using assms bt_modify_sorted [of m] unfolding exports_part_def bt_get_modify
    by (auto simp: export_valid_def split: if_splits)
  show "unassigned (bt_modify i (\<lambda>e. e\<lparr>endpoint_id := Some ep\<rparr>) m) = unassigned m - {i}"
    unfolding unassigned_def bt_get_modify by (auto split: if_splits)
qed

lemma load_insert_loop_part:
  assumes "load_insert_loop exs ms st = (ms', st')" and "file_ok exs" and "exports_part (by_id st)"
    and "\<forall>e \<in> set exs. bt_get (by_id st) (export_id e) = None" and "set ms = unassigned (by_id st)"
    and "\<And>i f ep. bt_get (by_id st) i = Some f \<Longrightarrow> endpoint_id f = Some ep \<Longrightarrow> ep \<notin> set (List.map_filter endpoint_id exs)"
  shows "exports_part (by_id st') \<and> set ms' = unassigned (by_id st')"
  using assms
proof (induction exs arbitrary: ms st)
  case Nil
  then show ?case by simp
next
  case (Cons e exs)
  let ?m = "bt_insert (export_id e) e (by_id st)"
  have s: "bt_sorted (by_id st)" using Cons.prems(3) by (simp add: exports_part_def)
  have new: "bt_get (by_id st) (export_id e) = None" using Cons.prems(4) by simp
  obtain ms1 st1 where l: "load_insert_loop exs ms1 st1 = (ms', st')" "by_id st1 = ?m"
    "ms1 = (if endpoint_id e = None then ms @ [export_id e] else ms)"
    using Cons.prems(1) by (cases "endpoint_id e") auto
  have "exports_part ?m"
    using Cons.prems(2,3,6) new
    by (intro exports_part_insert) (auto simp: file_ok_def List.map_filter_simps split: option.splits)
  moreover have "set ms1 = unassigned ?m"
    using Cons.prems(5) new by (auto simp: l(3) unassigned_def bt_get_insert [OF s] split: if_splits)
  moreover have "export_id x \<noteq> export_id e" if "x \<in> set exs" for x
    using Cons.prems(2) imageI [OF that, of export_id] by (auto simp: file_ok_def)
  then have "\<forall>x \<in> set exs. bt_get ?m (export_id x) = None"
    using Cons.prems(4) by (simp add: bt_get_insert [OF s])
  moreover have "ep \<notin> set (List.map_filter endpoint_id exs)" if "bt_get ?m i = Some f" "endpoint_id f = Some ep" for i f ep
    using that Cons.prems(2) Cons.prems(6) [of i f ep]
    by (auto simp: bt_get_insert [OF s] file_ok_def List.map_filter_simps split: if_splits option.splits)
  moreover have "file_ok exs"
    using Cons.prems(2) by (auto simp: file_ok_def List.map_filter_simps split: option.splits)
  ultimately show ?case using Cons.IH [OF l(1)] l(2) by simp
qed

lemma load_missing_loop_part:
  assumes "load_missing_loop ids st = (Inr u, st')" and "exports_part (by_id st)"
  shows "exports_part (by_id st') \<and> unassigned (by_id st') = unassigned (by_id st) - set ids"
  using assms
proof (induction ids st rule: load_missing_loop.induct)
  case (1 st)
  then show ?case by simp
next
  case (2 i rest st)
  show ?case
  proof (cases rule: alloc_endpoint_cases [of st])
    case exhausted
    with "2.prems"(1) show ?thesis by (simp add: and_then_def)
  next
    case (fresh ep)
    let ?st = "st\<lparr>next_endpoint := ep + 1\<rparr>"
    let ?m = "bt_modify i (\<lambda>e. e\<lparr>endpoint_id := Some ep\<rparr>) (by_id st)"
    have "bt_sorted (by_id st)" using "2.prems"(2) by (simp add: exports_part_def)
    with fresh(4) have "endpoint_id f \<noteq> Some ep" if "bt_get (by_id st) j = Some f" for j f
      using that by (auto simp: used_endpoints_iff)
    then have p: "exports_part ?m" "unassigned ?m = unassigned (by_id st) - {i}"
      using exports_part_assign [OF "2.prems"(2) fresh(3)] by blast+
    have "load_missing_loop rest (?st\<lparr>by_id := ?m\<rparr>) = (Inr u, st')"
      using "2.prems"(1) fresh(1) by (simp add: and_then_def)
    with "2.IH" [of ep ?st] fresh(1) p show ?thesis by (auto simp: and_then_def)
  qed
qed

lemma load_exports_file_ok:
  assumes "load_exports c env d st = Inr st'" and "by_id st = []"
    and "\<And>t f. d exports_file = Some t \<Longrightarrow> de_exports c t = Some f \<Longrightarrow> file_ok (pe_exports f)"
  shows "exports_inv (by_id st')"
proof (cases "fs_exists exports_file d")
  case False
  with assms(1,2) show ?thesis by (simp add: load_exports_def exports_inv_empty)
next
  case True
  then obtain t f where t: "d exports_file = Some t" "de_exports c t = Some f" "fs_read Io env exports_file d = Inr t"
    using assms(1) by (auto simp: load_exports_def fs_read_def split: if_splits sum.splits option.splits)
  obtain ms st1 where l: "load_insert_loop (pe_exports f) [] st = (ms, st1)" by fastforce
  obtain u where m: "load_missing_loop ms st1 = (Inr u, st')"
    using assms(1) True t l by (auto simp: load_exports_def split: sum.splits prod.splits)
  have "exports_part (by_id st1) \<and> set ms = unassigned (by_id st1)"
    using assms(2,3) t by (intro load_insert_loop_part [OF l]) (simp_all add: bt.get_empty exports_part_def unassigned_def)
  with load_missing_loop_part [OF m] show ?thesis by (simp add: exports_part_inv)
qed

text \<open>Every catalog with the invariant is such a file.\<close>

lemma file_ok_values:
  assumes "exports_inv m"
  shows "file_ok (bt_values m)"
proof -
  have s: "bt_sorted m" using assms by (simp add: exports_inv_def)
  have get: "bt_get m (fst x) = Some (snd x)" if "x \<in> set m" for x
    using that s by (simp add: bt_get_entries)
  have ok: "export_ok (fst x) (snd x)" if "x \<in> set m" for x using exports_inv_get [OF assms get [OF that]] .
  have "map export_id (bt_values m) = map fst m" using ok by (auto simp: bt_values_def export_ok_def)
  then have "distinct (map export_id (bt_values m))" using bt_sorted_distinct [OF s] by simp
  moreover have "list_all (\<lambda>e. export_valid e \<and> endpoint_id e \<noteq> Some 0) (bt_values m)"
    using ok by (fastforce simp: bt_values_def list_all_iff export_ok_def)
  moreover have "List.map_filter endpoint_id (bt_values m) = map (\<lambda>x. the (endpoint_id (snd x))) m"
    using ok by (induction m) (auto simp: bt_values_def List.map_filter_simps export_ok_def split: option.splits)
  moreover have "inj_on (\<lambda>x. the (endpoint_id (snd x))) (set m)"
  proof (rule inj_onI)
    fix x y assume xy: "x \<in> set m" "y \<in> set m" "the (endpoint_id (snd x)) = the (endpoint_id (snd y))"
    then have "endpoint_id (snd x) = endpoint_id (snd y)"
      using ok [OF xy(1)] ok [OF xy(2)] by (auto simp: export_ok_def)
    then have "fst x = fst y" using assms get xy(1,2) unfolding exports_inv_def by blast
    with get [OF xy(1)] get [OF xy(2)] show "x = y" by (simp add: prod_eq_iff)
  qed
  ultimately show ?thesis
    using bt_sorted_distinct [OF s] by (simp add: file_ok_def distinct_map)
qed

end
