(* ===== verification/Catalog_History.thy ===== *)
theory Catalog_History
  imports Catalog_Bulk
begin

text \<open>
  The catalog over time: the mutations the control plane runs, the files they leave behind, and
  restarts. A fault of the disk at any step is part of the environment of that step, so a sequence
  of steps also covers every crash between two disk operations.
\<close>

section \<open>Steps\<close>

datatype catalog_op =
    OpSetBridgeName string
  | OpCreate uuid create_export
  | OpPatch uuid patch_export
  | OpDelete uuid

text \<open>One mutation: the export it returns, if it returns one.\<close>

definition out_export ::
  "(catalog_error + export) \<times> catalog_store \<times> 't disk \<Rightarrow> (catalog_error + export option) \<times> catalog_store \<times> 't disk" where
  "out_export r = (case r of (Inl e, s) \<Rightarrow> (Inl e, s) | (Inr x, s) \<Rightarrow> (Inr (Some x), s))"

definition catalog_step ::
  "'t codec \<Rightarrow> 't fs_env \<Rightarrow> catalog_op \<Rightarrow> catalog_store \<times> 't disk \<Rightarrow>
     (catalog_error + export option) \<times> catalog_store \<times> 't disk" where
  "catalog_step c env cop s =
     (case cop of
        OpSetBridgeName n \<Rightarrow>
          (case set_bridge_name c env n s of (Inl e, s') \<Rightarrow> (Inl e, s') | (Inr _, s') \<Rightarrow> (Inr None, s'))
      | OpCreate v4 body \<Rightarrow> out_export (create c env v4 body s)
      | OpPatch i body \<Rightarrow> out_export (patch c env i body s)
      | OpDelete i \<Rightarrow> out_export (delete c env i s))"

lemma out_export_state: "out_export r = (q, s) \<longleftrightarrow> (\<exists>p. r = (p, s) \<and> q = map_sum id Some p)"
  by (auto simp: out_export_def split: prod.splits sum.splits)

lemma catalog_step_inv:
  assumes "catalog_inv st" and "catalog_step c env cop (st, d) = (r, st', d')"
  shows "catalog_inv st'"
  using assms
  by (cases cop)
    (auto simp: catalog_step_def out_export_state split: prod.splits sum.splits
      dest: set_bridge_name_inv create_inv patch_inv delete_inv)

section \<open>What is on the disk\<close>

text \<open>An exports file, when it can be read, has no id twice and valid fields (\<open>file_ok\<close>).\<close>

definition disk_inv :: "'t codec \<Rightarrow> 't disk \<Rightarrow> bool" where
  "disk_inv c d \<longleftrightarrow>
     (\<forall>t f. d exports_file = Some t \<longrightarrow> de_exports c t = Some f \<longrightarrow> file_ok (pe_exports f))"

definition ser_faithful :: "'t codec \<Rightarrow> bool" where
  "ser_faithful c \<longleftrightarrow>
     (\<forall>x t. ser_config c x = Some t \<longrightarrow> de_config c t = Some x) \<and>
     (\<forall>x t. ser_exports c x = Some t \<longrightarrow> de_exports c t = Some x)"

lemma codec_round_trips_faithful: "codec_round_trips c \<Longrightarrow> ser_faithful c"
  unfolding codec_round_trips_def ser_faithful_def by (metis option.sel)

text \<open>The files after \<open>persist\<close>, whatever failed: each holds its old or its new content.\<close>

lemma file_names_differ:
  "config_tmp \<noteq> config_file" "exports_tmp \<noteq> exports_file" "exports_file \<noteq> config_file"
  "config_file \<noteq> exports_file" "exports_file \<noteq> config_tmp" "config_file \<noteq> exports_tmp"
  by (simp_all add: file_names)

definition config_of :: "catalog_store \<Rightarrow> persisted_config" where
  "config_of st = \<lparr>pc_bridge_name = bridge_name st, pc_next_endpoint = next_endpoint st\<rparr>"

lemma persist_files:
  assumes "persist c env st d = (r, d')"
  obtains (neither) "d' config_file = d config_file" "d' exports_file = d exports_file" "\<exists>e. r = Inl e"
  | (config) t where "ser_config c (config_of st) = Some t" "d' config_file = Some t"
      "d' exports_file = d exports_file" "\<exists>e. r = Inl e"
  | (both) t u where "ser_config c (config_of st) = Some t" "d' config_file = Some t"
      "ser_exports c \<lparr>pe_exports = catalog_list st\<rparr> = Some u" "d' exports_file = Some u"
proof (cases "ser_config c (config_of st)")
  case None
  with assms have "d' = d" "\<exists>e. r = Inl e"
    by (auto simp: persist_def config_of_def fs_create_dir_all_def split: if_splits)
  then show ?thesis using neither by simp
next
  case (Some t)
  show ?thesis
  proof (cases "op_fails env CreateDirAll")
    case True
    with assms have "d' = d" "\<exists>e. r = Inl e" by (auto simp: persist_def fs_create_dir_all_def)
    then show ?thesis using neither by simp
  next
    case False
    obtain r1 d1 where w1: "write_then_rename Io env config_tmp config_file t d = (r1, d1)" by fastforce
    note f1 = write_then_rename_files [OF w1 file_names_differ(1)]
    show ?thesis
    proof (cases r1)
      case (Inl e)
      with assms Some False w1 have "r = Inl e \<and> d' = d1"
        by (simp add: persist_def config_of_def fs_create_dir_all_def)
      with f1 Some show ?thesis using neither config [of t] file_names_differ by auto
    next
      case (Inr u)
      with assms Some False w1 have eq: "(r, d') =
        (case ser_exports c \<lparr>pe_exports = catalog_list st\<rparr> of None \<Rightarrow> (Inl Json, d1)
         | Some ex \<Rightarrow> write_then_rename Io env exports_tmp exports_file ex d1)"
        by (simp add: persist_def config_of_def fs_create_dir_all_def)
      show ?thesis
      proof (cases "ser_exports c \<lparr>pe_exports = catalog_list st\<rparr>")
        case None
        with eq f1 Some Inr show ?thesis using config [of t] file_names_differ by auto
      next
        case ex: (Some x)
        with eq have "write_then_rename Io env exports_tmp exports_file x d1 = (r, d')" by simp
        from write_then_rename_files [OF this file_names_differ(2)] f1 Some Inr ex show ?thesis
          using config [of t] both [of t x] file_names_differ by auto
      qed
    qed
  qed
qed

lemma persist_healthy:
  assumes "healthy env" and "ser_config c (config_of st) = Some t"
    and "ser_exports c \<lparr>pe_exports = catalog_list st\<rparr> = Some u"
  shows "persist c env st d =
    (Inr (), d(config_tmp := None, config_file \<mapsto> t, exports_tmp := None, exports_file \<mapsto> u))"
  using assms file_names_differ
  by (simp add: persist_def config_of_def write_then_rename_healthy fs_create_dir_all_def healthy_def)

text \<open>A mutation leaves the disk alone or persists the store it returns.\<close>

lemma persist_then_disk:
  "persist_then c env out st d = (r, st', d') \<Longrightarrow> \<exists>q. st' = st \<and> persist c env st' d = (q, d')"
  by (auto simp: persist_then_def split: prod.splits sum.splits)

lemma catalog_step_disk:
  assumes "catalog_step c env cop (st, d) = (r, st', d')"
  shows "d' = d \<or> (\<exists>q. persist c env st' d = (q, d'))"
proof (cases cop)
  case (OpSetBridgeName n)
  with assms show ?thesis
    by (auto simp: catalog_step_def set_bridge_name_def split: prod.splits sum.splits if_splits
        dest!: persist_then_disk)
next
  case (OpCreate v4 body)
  with assms show ?thesis
    by (auto simp: catalog_step_def out_export_state create_def Let_def
        split: prod.splits sum.splits if_splits option.splits dest!: persist_then_disk)
next
  case (OpPatch i body)
  with assms show ?thesis
    by (auto simp: catalog_step_def out_export_state patch_def
        split: prod.splits sum.splits if_splits option.splits dest!: persist_then_disk)
next
  case (OpDelete i)
  with assms show ?thesis
    by (auto simp: catalog_step_def out_export_state delete_def
        split: prod.splits sum.splits if_splits option.splits dest!: persist_then_disk)
qed

lemma replace_disk:
  assumes "replace c env incoming (st, d) = (r, st', d')"
  shows "d' = d \<or> (\<exists>q. persist c env st' d = (q, d'))"
  using assms
  by (auto simp: replace_def Let_def split: if_splits prod.splits sum.splits dest!: persist_then_disk)

lemma disk_inv_persist:
  assumes "ser_faithful c" and "disk_inv c d" and "catalog_inv st" and "persist c env st d = (r, d')"
  shows "disk_inv c d'"
  using assms(4)
proof (cases rule: persist_files)
  case neither
  with assms(2) show ?thesis by (simp add: disk_inv_def)
next
  case (config t)
  with assms(2) show ?thesis by (simp add: disk_inv_def)
next
  case (both t u)
  then have "de_exports c u = Some \<lparr>pe_exports = catalog_list st\<rparr>"
    using assms(1) by (simp add: ser_faithful_def)
  with both(4) assms(3) show ?thesis
    by (auto simp: disk_inv_def catalog_list_def catalog_inv_def file_ok_values)
qed

lemma catalog_step_disk_inv:
  assumes "ser_faithful c" and "disk_inv c d" and "catalog_inv st"
    and "catalog_step c env cop (st, d) = (r, st', d')"
  shows "disk_inv c d'"
  using catalog_step_disk [OF assms(4)] assms catalog_step_inv [OF assms(3,4)] disk_inv_persist
  by blast

section \<open>Loading\<close>

text \<open>
  A catalog with the invariant is loaded entry by entry: nothing is missing an endpoint id, the
  entries come back, and the cursor moves past every id in use.
\<close>

definition cursor_after :: "export list \<Rightarrow> u16 \<Rightarrow> u16" where
  "cursor_after exs n =
     fold (\<lambda>e n. case endpoint_id e of Some ep \<Rightarrow> max n (saturating_add ep 1) | None \<Rightarrow> n) exs n"

lemma load_insert_loop_assigned:
  assumes "\<forall>e \<in> set exs. endpoint_id e \<noteq> None"
  shows "load_insert_loop exs ms st =
    (ms, st\<lparr>next_endpoint := cursor_after exs (next_endpoint st),
            by_id := fold (\<lambda>(k, v). bt_insert k v) (map (\<lambda>e. (export_id e, e)) exs) (by_id st)\<rparr>)"
  using assms
  by (induction exs arbitrary: st) (auto simp: cursor_after_def)

lemma exports_inv_entries:
  assumes "exports_inv m"
  shows "map (\<lambda>e. (export_id e, e)) (bt_values m) = m"
proof -
  have "export_id (snd x) = fst x" if "x \<in> set m" for x
  proof -
    have "bt_get m (fst x) = Some (snd x)"
      using assms that by (simp add: exports_inv_def bt_get_entries)
    then show ?thesis using exports_inv_get [OF assms] by (auto simp: export_ok_def)
  qed
  then show ?thesis by (simp add: bt_values_def map_idI)
qed

lemma exports_inv_values:
  assumes "exports_inv m" "e \<in> set (bt_values m)"
  shows "export_ok (export_id e) e"
  using assms bt_values_ran [of m] exports_inv_get [OF assms(1)]
  by (auto simp: exports_inv_def ran_def export_ok_def)

lemma load_insert_loop_values:
  assumes "exports_inv m" and "by_id st = []"
  shows "load_insert_loop (bt_values m) [] st =
    ([], st\<lparr>next_endpoint := cursor_after (bt_values m) (next_endpoint st), by_id := m\<rparr>)"
proof -
  have "bt_sorted m" using assms(1) by (simp add: exports_inv_def)
  moreover have "\<forall>e \<in> set (bt_values m). endpoint_id e \<noteq> None"
    using exports_inv_values [OF assms(1)] by (auto simp: export_ok_def)
  ultimately show ?thesis
    using assms by (simp add: load_insert_loop_assigned exports_inv_entries bt_rebuild)
qed

lemma load_exports_values:
  assumes "healthy env" "d exports_file = Some t" "de_exports c t = Some f"
    and "pe_exports f = bt_values m" "exports_inv m" "by_id st = []"
  shows "load_exports c env d st =
    Inr (st\<lparr>next_endpoint := cursor_after (bt_values m) (next_endpoint st), by_id := m\<rparr>)"
  using assms by (simp add: load_exports_def fs_exists_def fs_read_healthy load_insert_loop_values)

lemma load_config_frame: "load_config c env d st = Inr st' \<Longrightarrow> by_id st' = by_id st"
  by (auto simp: load_config_def split: if_splits sum.splits option.splits)

text \<open>
  Whatever can be loaded from such a disk is a catalog with the invariant, whether the file has all endpoint ids
  or loading allocates some.
\<close>

lemma load_or_new_inv:
  assumes "disk_inv c d" and "load_or_new c env dir n d = (Inr st, d')"
  shows "catalog_inv st \<and> d' = d"
proof -
  obtain st0 where st0: "load_config c env d (catalog_new dir n) = Inr st0" "d' = d"
    "load_exports c env d st0 = Inr st"
    using assms(2)
    by (auto simp: load_or_new_def fs_create_dir_all_def split: if_splits sum.splits)
  have "by_id st0 = []" using load_config_frame [OF st0(1)] by (simp add: catalog_new_def)
  with load_exports_file_ok [OF st0(3)] st0(2) assms(1) show ?thesis
    by (auto simp: catalog_inv_def disk_inv_def)
qed

section \<open>Reachable catalogs\<close>

text \<open>
  The service starts on a data directory without an exports file or with one that has no id twice, mutates the
  catalog, replaces it by snapshots that fit, and is restarted at any time. Each step has its own environment of
  faults.
\<close>

inductive catalog_reachable :: "'t codec \<Rightarrow> catalog_store \<Rightarrow> 't disk \<Rightarrow> bool" for c where
  first_boot: "disk_inv c d \<Longrightarrow> load_or_new c env dir n d = (Inr st, d') \<Longrightarrow> catalog_reachable c st d'"
| mutation: "catalog_reachable c st d \<Longrightarrow> catalog_step c env cop (st, d) = (r, st', d') \<Longrightarrow>
    catalog_reachable c st' d'"
| replacement: "catalog_reachable c st d \<Longrightarrow> snapshot_fits st incoming \<Longrightarrow>
    replace c env incoming (st, d) = (r, st', d') \<Longrightarrow> catalog_reachable c st' d'"
| restart: "catalog_reachable c st d \<Longrightarrow> load_or_new c env dir n d = (Inr st', d') \<Longrightarrow>
    catalog_reachable c st' d'"

lemma catalog_reachable_invs:
  assumes "ser_faithful c" and "catalog_reachable c st d"
  shows "catalog_inv st \<and> disk_inv c d"
  using assms(2)
proof (induction rule: catalog_reachable.induct)
  case (first_boot d env dir n st d')
  with load_or_new_inv show ?case by blast
next
  case (mutation st d env cop r st' d')
  then show ?case using catalog_step_inv catalog_step_disk_inv [OF assms(1)] by blast
next
  case (replacement st d incoming env r st' d')
  then have "catalog_inv st'" using replace_inv by blast
  moreover have "disk_inv c d'"
    using replace_disk [OF replacement.hyps(3)] replacement.IH disk_inv_persist [OF assms(1) _ \<open>catalog_inv st'\<close>] by blast
  ultimately show ?case by blast
next
  case (restart st d env dir n st' d')
  then show ?case using load_or_new_inv by blast
qed

section \<open>Endpoint ids over time\<close>

text \<open>The ids that successful creations of a run return, in order.\<close>

definition handed_out :: "catalog_op \<Rightarrow> catalog_error + export option \<Rightarrow> u16 list" where
  "handed_out cop r =
     (case (cop, r) of
        (OpCreate _ _, Inr (Some e)) \<Rightarrow> (case endpoint_id e of Some ep \<Rightarrow> [ep] | None \<Rightarrow> [])
      | _ \<Rightarrow> [])"

fun assigned :: "'t codec \<Rightarrow> ('t fs_env \<times> catalog_op) list \<Rightarrow> catalog_store \<times> 't disk \<Rightarrow> u16 list" where
  "assigned c [] s = []"
| "assigned c ((env, cop) # ops) s =
     (case catalog_step c env cop s of (r, s') \<Rightarrow> handed_out cop r @ assigned c ops s')"

text \<open>
  The cursor has not run past 65535 before any operation of the run: after the id 65535 it wraps to 0.
\<close>

fun cursor_in_range :: "'t codec \<Rightarrow> ('t fs_env \<times> catalog_op) list \<Rightarrow> catalog_store \<times> 't disk \<Rightarrow> bool" where
  "cursor_in_range c [] s \<longleftrightarrow> True"
| "cursor_in_range c ((env, cop) # ops) s \<longleftrightarrow>
     next_endpoint (fst s) \<noteq> 0 \<and> cursor_in_range c ops (snd (catalog_step c env cop s))"

definition cursor_ahead :: "catalog_store \<Rightarrow> bool" where
  "cursor_ahead st \<longleftrightarrow> 0 < next_endpoint st \<and> (\<forall>ep \<in> used_endpoints st. ep < next_endpoint st)"

lemma used_endpoints_mono:
  assumes "catalog_inv st" "catalog_inv st'"
    and "\<And>i e. bt_get (by_id st') i = Some e \<Longrightarrow>
      endpoint_id e \<in> insert x (Some ` used_endpoints st)"
  shows "used_endpoints st' \<subseteq> set_option x \<union> used_endpoints st"
proof
  fix ep assume "ep \<in> used_endpoints st'"
  then obtain i e where "bt_get (by_id st') i = Some e" "endpoint_id e = Some ep"
    using used_endpoints_inv [OF assms(2)] by blast
  with assms(3) [of i e] show "ep \<in> set_option x \<union> used_endpoints st" by auto
qed

text \<open>What an operation does to the cursor and to the ids in use, per operation.\<close>

lemma stored_endpoint_used:
  assumes "catalog_inv st" and "bt_get (by_id st) i = Some e"
  shows "endpoint_id e \<in> Some ` used_endpoints st"
proof -
  obtain ep where "endpoint_id e = Some ep" using catalog_inv_endpoint [OF assms(1)] assms(2) by blast
  with assms used_endpoints_inv [OF assms(1)] show ?thesis by blast
qed

lemma create_cursor:
  assumes inv: "catalog_inv st" and ahead: "cursor_ahead st" and p: "create c env v4 body (st, d) = (r, st', d')"
  shows "(next_endpoint st' = next_endpoint st \<and> used_endpoints st' \<subseteq> used_endpoints st \<and> (\<forall>e. r \<noteq> Inr e)) \<or>
    (next_endpoint st' = next_endpoint st + 1 \<and> used_endpoints st' \<subseteq> insert (next_endpoint st) (used_endpoints st) \<and>
     (\<forall>e. r = Inr e \<longrightarrow> endpoint_id e = Some (next_endpoint st)))"
  using p
proof (cases rule: create_store)
  case (unchanged x)
  then show ?thesis by simp
next
  case (inserted e ep)
  have ep: "ep = next_endpoint st" using inserted(7) ahead by (auto simp: cursor_ahead_def)
  have "bt_get (by_id st') = (bt_get (by_id st))(export_id e \<mapsto> e)"
    using inv inserted(1) by (simp add: bt_get_insert catalog_inv_def exports_inv_def)
  then have "used_endpoints st' \<subseteq> set_option (Some ep) \<union> used_endpoints st"
    using stored_endpoint_used [OF inv] inserted(4)
    by (intro used_endpoints_mono [OF inv create_inv [OF inv p]]) (auto split: if_splits)
  then have "used_endpoints st' \<subseteq> insert ep (used_endpoints st)" by simp
  moreover have "endpoint_id e' = Some ep" if "r = Inr e'" for e'
    using persist_then_result [OF inserted(8)] that inserted(4) by auto
  moreover have "next_endpoint st' = ep + 1" by (subst inserted(1)) simp
  ultimately show ?thesis by (simp add: ep)
qed

lemma patch_cursor:
  assumes inv: "catalog_inv st" and p: "patch c env i body (st, d) = (r, st', d')"
  shows "next_endpoint st' = next_endpoint st \<and> used_endpoints st' \<subseteq> used_endpoints st"
proof (cases rule: patch_store [OF p catalog_inv_endpoint [OF inv], case_names missing patched])
  case missing
  then show ?thesis by simp
next
  case (patched e e' q)
  obtain ep where ep: "endpoint_id e = Some ep" using catalog_inv_endpoint [OF inv] patched(1) by blast
  have "bt_get (by_id st') = (bt_get (by_id st))(i \<mapsto> e')"
    using patched(1,3) by (simp add: bt_get_modify)
  moreover have "endpoint_id e' = endpoint_id e" using patch_fields_keeps [OF patched(2) ep] ep by simp
  ultimately have "used_endpoints st' \<subseteq> set_option None \<union> used_endpoints st"
    using stored_endpoint_used [OF inv patched(1)] stored_endpoint_used [OF inv]
    by (intro used_endpoints_mono [OF inv patch_inv [OF inv p]]) (auto split: if_splits)
  with patched(3) show ?thesis by simp
qed

lemma delete_cursor:
  assumes inv: "catalog_inv st" and p: "delete c env i (st, d) = (r, st', d')"
  shows "next_endpoint st' = next_endpoint st \<and> used_endpoints st' \<subseteq> used_endpoints st"
proof -
  have n: "next_endpoint st' = next_endpoint st \<and> (st' = st \<or> by_id st' = bt_remove i (by_id st))"
    using p by (auto simp: delete_def split: option.splits dest!: persist_then_store)
  then have "used_endpoints st' \<subseteq> set_option None \<union> used_endpoints st"
    using stored_endpoint_used [OF inv]
    by (intro used_endpoints_mono [OF inv delete_inv [OF inv p]]) (auto simp: bt_get_remove split: if_splits)
  with n show ?thesis by simp
qed

lemma catalog_step_cursor:
  assumes inv: "catalog_inv st" and ahead: "cursor_ahead st"
    and step: "catalog_step c env cop (st, d) = (r, st', d')"
  shows "(next_endpoint st' = next_endpoint st \<and> used_endpoints st' \<subseteq> used_endpoints st \<and> handed_out cop r = []) \<or>
    (next_endpoint st' = next_endpoint st + 1 \<and>
     used_endpoints st' \<subseteq> insert (next_endpoint st) (used_endpoints st) \<and>
     handed_out cop r \<in> {[], [next_endpoint st]})"
proof (cases cop)
  case (OpSetBridgeName n)
  then have "by_id st' = by_id st" "next_endpoint st' = next_endpoint st" "handed_out cop r = []"
    using step by (auto simp: catalog_step_def set_bridge_name_def handed_out_def
        split: prod.splits sum.splits if_splits dest!: persist_then_store)
  then show ?thesis by (simp add: used_endpoints_def catalog_list_def)
next
  case (OpCreate v4 body)
  then obtain p where p: "create c env v4 body (st, d) = (p, st', d')" "r = map_sum id Some p"
    using step by (auto simp: catalog_step_def out_export_state)
  from create_cursor [OF inv ahead p(1)] show ?thesis
    using OpCreate p(2) by (cases p) (auto simp: handed_out_def)
next
  case (OpPatch i body)
  then obtain p where "patch c env i body (st, d) = (p, st', d')"
    using step by (auto simp: catalog_step_def out_export_state)
  from patch_cursor [OF inv this] show ?thesis using OpPatch by (simp add: handed_out_def)
next
  case (OpDelete i)
  then obtain p where "delete c env i (st, d) = (p, st', d')"
    using step by (auto simp: catalog_step_def out_export_state)
  from delete_cursor [OF inv this] show ?thesis using OpDelete by (simp add: handed_out_def)
qed

lemma assigned_sorted:
  assumes "catalog_inv st" "cursor_ahead st" "cursor_in_range c ops (st, d)"
  shows "sorted_wrt (<) (assigned c ops (st, d)) \<and> (\<forall>ep \<in> set (assigned c ops (st, d)). next_endpoint st \<le> ep)"
  using assms
proof (induction ops arbitrary: st d)
  case Nil
  then show ?case by simp
next
  case (Cons x ops)
  obtain env cop where x: "x = (env, cop)" by fastforce
  obtain r st' d' where step: "catalog_step c env cop (st, d) = (r, st', d')" by (metis surj_pair)
  have range: "cursor_in_range c ops (st', d')" using Cons.prems(3) by (simp add: x step)
  note inv' = catalog_step_inv [OF Cons.prems(1) step]
  show ?case
    using catalog_step_cursor [OF Cons.prems(1,2) step]
  proof (elim disjE conjE)
    assume "next_endpoint st' = next_endpoint st" "used_endpoints st' \<subseteq> used_endpoints st" "handed_out cop r = []"
    moreover from this Cons.prems(2) have "cursor_ahead st'" by (auto simp: cursor_ahead_def)
    ultimately show ?thesis using Cons.IH [OF inv' _ range] by (simp add: x step)
  next
    assume n: "next_endpoint st' = next_endpoint st + 1"
      and u: "used_endpoints st' \<subseteq> insert (next_endpoint st) (used_endpoints st)"
      and h: "handed_out cop r \<in> {[], [next_endpoint st]}"
    show ?thesis
    proof (cases "next_endpoint st + 1 = 0")
      case True
      with n range have "ops = []" by (cases ops) auto
      with h show ?thesis by (auto simp: x step)
    next
      case False
      then have lt: "next_endpoint st < next_endpoint st + 1"
        using next_id_less by blast
      have "ep < next_endpoint st + 1" if "ep \<in> used_endpoints st'" for ep
        using that u Cons.prems(2) lt by (auto simp: cursor_ahead_def intro: less_trans)
      moreover have "0 < next_endpoint st + 1" using False by (simp add: word_gt_0)
      ultimately have "cursor_ahead st'" using n by (simp add: cursor_ahead_def)
      note IH = Cons.IH [OF inv' this range]
      have "next_endpoint st < y" if "y \<in> set (assigned c ops (st', d'))" for y
        using IH that n lt by (auto intro: order_less_le_trans)
      with IH h show ?thesis by (auto simp: x step intro: less_imp_le)
    qed
  qed
qed

section \<open>Reading back what was written\<close>

lemma fold_max_ge: "n \<le> cursor_after exs (n :: u16)"
proof (induction exs arbitrary: n)
  case Nil
  then show ?case by (simp add: cursor_after_def)
next
  case (Cons e exs)
  have "n \<le> max n x" for x by simp
  moreover have "max n x \<le> cursor_after exs (max n x)" for x by (rule Cons.IH)
  ultimately have "n \<le> cursor_after exs (max n x)" for x by (rule order_trans)
  with Cons.IH [of n] show ?case by (auto simp: cursor_after_def split: option.splits)
qed

lemma cursor_after_id:
  assumes "\<forall>e \<in> set exs. \<forall>ep. endpoint_id e = Some ep \<longrightarrow> ep < n"
  shows "cursor_after exs n = n"
  using assms
proof (induction exs)
  case Nil
  then show ?case by (simp add: cursor_after_def)
next
  case (Cons e exs)
  have "saturating_add ep 1 \<le> n" if "endpoint_id e = Some ep" for ep
  proof -
    have "unat ep < unat n" using Cons.prems that by (simp add: word_less_nat_alt)
    then show ?thesis by (simp add: word_le_nat_alt unat_saturating_add)
  qed
  then have "(case endpoint_id e of Some ep \<Rightarrow> max n (saturating_add ep 1) | None \<Rightarrow> n) = n"
    by (auto simp: max_def split: option.splits)
  with Cons show ?case by (simp add: cursor_after_def)
qed

lemma load_or_new_files:
  assumes "healthy env" "d config_file = Some t" "de_config c t = Some cfg"
    and "d exports_file = Some u" "de_exports c u = Some f" "pe_exports f = bt_values m" "exports_inv m"
  shows "load_or_new c env dir n d =
    (Inr \<lparr>data_dir = dir, bridge_name = pc_bridge_name cfg, by_id = m,
          next_endpoint = cursor_after (bt_values m) (max (pc_next_endpoint cfg) first_endpoint_id)\<rparr>, d)"
proof -
  have "load_config c env d (catalog_new dir n) = Inr \<lparr>data_dir = dir, bridge_name = pc_bridge_name cfg,
      by_id = [], next_endpoint = max (pc_next_endpoint cfg) first_endpoint_id\<rparr>"
    using assms(1-3) by (simp add: load_config_def fs_exists_def fs_read_healthy catalog_new_def)
  with assms show ?thesis
    by (simp add: load_or_new_def fs_create_dir_all_def healthy_def
        load_exports_values [where d = d, OF assms(1,4-7)])
qed

lemma persist_total:
  assumes "codec_round_trips c" and "healthy env"
  shows "\<exists>d' u. persist c env st d = (Inr (), d') \<and> d' exports_file = Some u \<and>
    de_exports c u = Some \<lparr>pe_exports = catalog_list st\<rparr>"
proof -
  obtain t u where "ser_config c (config_of st) = Some t"
    "ser_exports c \<lparr>pe_exports = catalog_list st\<rparr> = Some u"
    "de_exports c u = Some \<lparr>pe_exports = catalog_list st\<rparr>"
    using assms(1) unfolding codec_round_trips_def by metis
  with persist_healthy [OF assms(2)] show ?thesis by fastforce
qed

lemma persist_then_total:
  assumes "codec_round_trips c" and "healthy env"
  shows "\<exists>d' u. persist_then c env out st d = (Inr out, st, d') \<and> d' exports_file = Some u \<and>
    de_exports c u = Some \<lparr>pe_exports = catalog_list st\<rparr>"
  using persist_total [OF assms, of st d] by (auto simp: persist_then_def)

text \<open>The two files hold exactly this catalog.\<close>

definition durable :: "'t codec \<Rightarrow> catalog_store \<Rightarrow> 't disk \<Rightarrow> bool" where
  "durable c st d \<longleftrightarrow>
     (\<exists>t u. d config_file = Some t \<and> de_config c t = Some (config_of st) \<and>
        d exports_file = Some u \<and> de_exports c u = Some \<lparr>pe_exports = catalog_list st\<rparr>)"

lemma persist_durable:
  assumes "ser_faithful c" and "persist c env st d = (Inr (), d')"
  shows "durable c st d'"
  using assms(1) persist_files [OF assms(2)] unfolding durable_def ser_faithful_def by (metis sum.distinct(1))

lemma load_durable:
  assumes "durable c st d" and "catalog_inv st" and "healthy env"
  shows "\<exists>n'. load_or_new c env (data_dir st) dflt d = (Inr (st\<lparr>next_endpoint := n'\<rparr>), d) \<and>
    next_endpoint st \<le> n' \<and> (cursor_ahead st \<longrightarrow> n' = next_endpoint st)"
proof -
  obtain t u where t: "d config_file = Some t" "de_config c t = Some (config_of st)"
    "d exports_file = Some u" "de_exports c u = Some \<lparr>pe_exports = catalog_list st\<rparr>"
    using assms(1) unfolding durable_def by blast
  define n' where "n' = cursor_after (bt_values (by_id st)) (max (next_endpoint st) first_endpoint_id)"
  have "load_or_new c env (data_dir st) dflt d = (Inr (st\<lparr>next_endpoint := n'\<rparr>), d)"
    using load_or_new_files [where d = d and m = "by_id st", OF assms(3) t] assms(2)
    by (simp add: config_of_def catalog_list_def catalog_inv_def n'_def)
  moreover have "next_endpoint st \<le> n'"
    unfolding n'_def by (rule order_trans [OF max.cobounded1 fold_max_ge])
  moreover have "n' = next_endpoint st" if "cursor_ahead st"
  proof -
    have "max (next_endpoint st) first_endpoint_id = next_endpoint st"
      using that
      by (intro max_absorb1) (simp add: cursor_ahead_def first_endpoint_id_def word_le_nat_alt word_less_nat_alt)
    moreover have "\<forall>e \<in> set (bt_values (by_id st)). \<forall>ep. endpoint_id e = Some ep \<longrightarrow> ep < next_endpoint st"
      using that by (force simp: cursor_ahead_def used_endpoints_def catalog_list_def List.map_filter_def)
    ultimately show ?thesis unfolding n'_def using cursor_after_id by simp
  qed
  ultimately show ?thesis by blast
qed

section \<open>Replacing the catalog\<close>

definition keeps_endpoints :: "(uuid, export) btree \<Rightarrow> (uuid, export) btree \<Rightarrow> bool" where
  "keeps_endpoints old m \<longleftrightarrow>
     (\<forall>i p ep e. bt_get old i = Some p \<longrightarrow> endpoint_id p = Some ep \<longrightarrow> bt_get m i = Some e \<longrightarrow> endpoint_id e = Some ep)"

lemma keeps_endpoints_insert:
  assumes "keeps_endpoints old m" "bt_sorted m"
    and "\<And>p ep. bt_get old i = Some p \<Longrightarrow> endpoint_id p = Some ep \<Longrightarrow> endpoint_id e = Some ep"
  shows "keeps_endpoints old (bt_insert i e m) \<and> bt_sorted (bt_insert i e m)"
proof -
  have "endpoint_id f = Some ep"
    if "bt_get old j = Some p" "endpoint_id p = Some ep" "bt_get (bt_insert i e m) j = Some f" for j p ep f
  proof (cases "j = i")
    case True
    with that assms show ?thesis by (simp add: bt_get_insert)
  next
    case False
    with that(3) assms(2) have "bt_get m j = Some f" by (simp add: bt_get_insert)
    with that(1,2) assms(1) show ?thesis unfolding keeps_endpoints_def by blast
  qed
  then show ?thesis unfolding keeps_endpoints_def using bt_insert_sorted [OF assms(2)] by blast
qed

lemma dom_bt_insert: "bt_sorted m \<Longrightarrow> dom (bt_get (bt_insert k v m)) = insert k (dom (bt_get m))"
  by (simp only: bt_get_insert dom_fun_upd option.simps if_False)

lemma replace_loop_keeps:
  assumes "replace_loop exs m st = (Inr m', st')" and "keeps_endpoints (by_id st) m" and "bt_sorted m"
  shows "keeps_endpoints (by_id st) m' \<and> bt_sorted m' \<and> by_id st' = by_id st \<and>
    dom (bt_get m') = dom (bt_get m) \<union> export_id ` set exs"
  using assms
proof (induction exs m st arbitrary: m' st' rule: replace_loop.induct)
  case (1 m st)
  then show ?case by simp
next
  case (2 ex rest m st)
  define ex' where "ex' = (case bt_get (by_id st) (export_id ex) of None \<Rightarrow> ex
     | Some prev \<Rightarrow> ex\<lparr>endpoint_id := (case endpoint_id prev of Some ep \<Rightarrow> Some ep | None \<Rightarrow> endpoint_id ex)\<rparr>)"
  obtain u where v: "validate_export_fields (ex_name ex) (primary_entity_id ex) = Inr u"
    using "2.prems"(1) by (cases "validate_export_fields (ex_name ex) (primary_entity_id ex)") auto
  have i: "export_id ex' = export_id ex" by (simp add: ex'_def split: option.splits)
  have prev: "endpoint_id ex' = Some ep" if "bt_get (by_id st) (export_id ex) = Some p" "endpoint_id p = Some ep" for p ep
    using that by (simp add: ex'_def)
  show ?case
  proof (cases "endpoint_id ex' = None")
    case True
    obtain ep st1 where a: "alloc_endpoint st = (Inr ep, st1)"
      "replace_loop rest (bt_insert (export_id ex') (ex'\<lparr>endpoint_id := Some ep\<rparr>) m) st1 = (Inr m', st')"
      using "2.prems"(1) v True by (auto simp: ex'_def [symmetric] and_then_eq_Inr Let_def)
    have "by_id st1 = by_id st" using alloc_endpoint_by_id [of st] a(1) by simp
    moreover have "keeps_endpoints (by_id st) (bt_insert (export_id ex') (ex'\<lparr>endpoint_id := Some ep\<rparr>) m) \<and>
      bt_sorted (bt_insert (export_id ex') (ex'\<lparr>endpoint_id := Some ep\<rparr>) m)"
      using "2.prems"(2,3) prev True i by (intro keeps_endpoints_insert) auto
    ultimately show ?thesis
      using "2.IH"(1) [OF v ex'_def True, of ep st1 m' st'] a(2) "2.prems"(3) i by (simp add: dom_bt_insert)
  next
    case False
    then have l: "replace_loop rest (bt_insert (export_id ex') ex' m) st = (Inr m', st')"
      using "2.prems"(1) by (simp only: replace_loop.simps v sum.case ex'_def [symmetric] Let_def if_False)
    have "keeps_endpoints (by_id st) (bt_insert (export_id ex') ex' m) \<and> bt_sorted (bt_insert (export_id ex') ex' m)"
      using "2.prems"(2,3) prev i by (intro keeps_endpoints_insert) auto
    with "2.IH"(2) [OF v ex'_def False l] "2.prems"(3) i show ?thesis by (simp add: dom_bt_insert)
  qed
qed

end
