(* ===== verification/Lan_Netif.thy ===== *)
theory Lan_Netif
  imports Byte_Strings
begin

text \<open>
  \<open>matter/lan_netif.rs\<close>: the choice of the one network interface the Matter stack sees. The
  inventory of the host (\<open>UnixNetifs::get\<close>) is an argument, an error text when it fails; an interface
  is the record of its fields the source reads. \<open>pick\<close> is a scan that keeps the best score, and the
  lemmas relate it to the set of candidates; \<open>validate_for_start\<close> is the check before the stack
  claims to be ready.
\<close>

section \<open>Addresses\<close>

type_synonym ipv4_addr = u32
type_synonym ipv6_addr = "128 word"

definition v4_first_octet :: "ipv4_addr \<Rightarrow> u32" where
  "v4_first_octet a = drop_bit 24 a"

definition v4_is_loopback :: "ipv4_addr \<Rightarrow> bool" where
  "v4_is_loopback a \<longleftrightarrow> v4_first_octet a = 127"

definition v4_is_link_local :: "ipv4_addr \<Rightarrow> bool" where
  "v4_is_link_local a \<longleftrightarrow> drop_bit 16 a = 0xA9FE"

definition v4_is_multicast :: "ipv4_addr \<Rightarrow> bool" where
  "v4_is_multicast a \<longleftrightarrow> 224 \<le> v4_first_octet a \<and> v4_first_octet a \<le> 239"

definition v6_is_multicast :: "ipv6_addr \<Rightarrow> bool" where
  "v6_is_multicast a \<longleftrightarrow> drop_bit 120 a = 0xFF"

definition v6_is_unicast_link_local :: "ipv6_addr \<Rightarrow> bool" where
  "v6_is_unicast_link_local a \<longleftrightarrow> (drop_bit 112 a) AND 0xFFC0 = 0xFE80"

definition usable_ipv4 :: "ipv4_addr \<Rightarrow> bool" where
  "usable_ipv4 a \<longleftrightarrow> a \<noteq> 0 \<and> \<not> v4_is_loopback a \<and> \<not> v4_is_link_local a \<and> \<not> v4_is_multicast a \<and> a \<noteq> - 1"

definition usable_ipv6 :: "ipv6_addr \<Rightarrow> bool" where
  "usable_ipv6 a \<longleftrightarrow> a \<noteq> 0 \<and> a \<noteq> 1 \<and> \<not> v6_is_multicast a \<and> \<not> v6_is_unicast_link_local a"

definition matter_ipv6 :: "ipv6_addr \<Rightarrow> bool" where
  "matter_ipv6 a \<longleftrightarrow> a \<noteq> 0 \<and> a \<noteq> 1 \<and> \<not> v6_is_multicast a"

lemma usable_is_matter: "usable_ipv6 a \<Longrightarrow> matter_ipv6 a"
  by (simp add: usable_ipv6_def matter_ipv6_def)

section \<open>Interfaces\<close>

record unix_netif =
  if_name :: string
  hw_addr :: "u8 list"
  ipv4addrs :: "ipv4_addr list"
  ipv6addrs :: "ipv6_addr list"
  operational :: bool

definition VIRTUAL_EXACT :: "string list" where
  "VIRTUAL_EXACT = [''lo'', ''cni0'', ''docker0'']"

definition VIRTUAL_PREFIXES :: "string list" where
  "VIRTUAL_PREFIXES =
     [''docker'', ''veth'', ''br-'', ''hassio'', ''flannel'', ''cni'', ''cali'', ''weave'', ''virbr'', ''vboxnet'',
      ''zt'', ''tailscale'', ''wg'', ''tun'', ''tap'', ''dummy'', ''sit'', ''ip6tnl'', ''kube'', ''podman'']"

definition is_loopback_name :: "string \<Rightarrow> bool" where
  "is_loopback_name n \<longleftrightarrow>
     n = ''lo'' \<or> (starts_with n ''lo'' \<and> length n > 2 \<and> list_all is_ascii_digit (drop 2 n))"

definition is_virtual_name :: "string \<Rightarrow> bool" where
  "is_virtual_name n \<longleftrightarrow>
     (if is_loopback_name n then True
      else if n \<in> set VIRTUAL_EXACT then True
      else list_ex (starts_with n) VIRTUAL_PREFIXES)"

definition has_real_mac :: "u8 list \<Rightarrow> bool" where
  "has_real_mac a \<longleftrightarrow> list_ex (\<lambda>b. b \<noteq> 0) (take 6 a)"

definition has_matter_ipv6 :: "unix_netif \<Rightarrow> bool" where
  "has_matter_ipv6 i \<longleftrightarrow> list_ex matter_ipv6 (ipv6addrs i)"

definition score_iface :: "unix_netif \<Rightarrow> int" where
  "score_iface i =
     (if operational i then 1000 else 0) + (if has_real_mac (hw_addr i) then 100 else 0) +
     (if list_ex usable_ipv4 (ipv4addrs i) then 50 else 0) + (if has_matter_ipv6 i then 200 else 0) +
     (if list_ex usable_ipv6 (ipv6addrs i) then 20 else 0)"

text \<open>The score fits its 32-bit integer.\<close>

lemma score_iface_bounds: "0 \<le> score_iface i" "score_iface i \<le> 1370"
  by (simp_all add: score_iface_def)

definition format_mac :: "u8 list \<Rightarrow> string" where
  "format_mac a =
     (let h = (\<lambda>i. hex_digits 2 (unat (a ! i)))
      in h 0 @ '':'' @ h 1 @ '':'' @ h 2 @ '':'' @ h 3 @ '':'' @ h 4 @ '':'' @ h 5)"

fun join_names :: "string list \<Rightarrow> string" where
  "join_names [] = []"
| "join_names [n] = n"
| "join_names (n # ns) = n @ '', '' @ join_names ns"

definition available_iface_names :: "unix_netif list \<Rightarrow> string" where
  "available_iface_names ifs = (if ifs = [] then ''(none)'' else join_names (map if_name ifs))"

section \<open>The selector\<close>

text \<open>\<open>LanNetifs::new\<close>: an empty pin is no pin.\<close>

definition lan_new :: "string option \<Rightarrow> string option" where
  "lan_new pin = (case map_option trim pin of Some p \<Rightarrow> if p = [] then None else Some p | None \<Rightarrow> None)"

text \<open>The two scans of \<open>pick\<close>: skip what \<open>ok\<close> rejects, keep the first of the best score.\<close>

fun best_loop :: "(unix_netif \<Rightarrow> bool) \<Rightarrow> unix_netif list \<Rightarrow> (int \<times> unix_netif) option \<Rightarrow> (int \<times> unix_netif) option" where
  "best_loop ok [] best = best"
| "best_loop ok (i # ifs) best =
     (if \<not> ok i then best_loop ok ifs best
      else let s = score_iface i
           in case best of
                Some (bs, b) \<Rightarrow> if bs \<ge> s then best_loop ok ifs best else best_loop ok ifs (Some (s, i))
              | None \<Rightarrow> best_loop ok ifs (Some (s, i)))"

definition real_candidate :: "unix_netif \<Rightarrow> bool" where
  "real_candidate i \<longleftrightarrow>
     \<not> (is_loopback_name (if_name i) \<or> is_virtual_name (if_name i)) \<and> \<not> (\<not> operational i \<or> \<not> has_matter_ipv6 i)"

definition fallback_candidate :: "unix_netif \<Rightarrow> bool" where
  "fallback_candidate i \<longleftrightarrow> \<not> (is_loopback_name (if_name i) \<or> \<not> operational i \<or> \<not> has_matter_ipv6 i)"

definition pick :: "string option \<Rightarrow> unix_netif list \<Rightarrow> unix_netif option" where
  "pick pin ifs =
     (case pin of
        Some p \<Rightarrow>
          (case List.find (\<lambda>n. if_name n = p) ifs of
             Some i \<Rightarrow> if \<not> has_matter_ipv6 i then None else Some i
           | None \<Rightarrow> None)
      | None \<Rightarrow>
          (case best_loop real_candidate ifs None of
             Some (_, i) \<Rightarrow> Some i
           | None \<Rightarrow> (case best_loop fallback_candidate ifs None of Some (_, i) \<Rightarrow> Some i | None \<Rightarrow> None)))"

text \<open>What the stack enumerates (\<open>NetifDiag::netifs\<close>): the callback's arguments, at most one.\<close>

definition netifs :: "string option \<Rightarrow> string + unix_netif list \<Rightarrow> string + unix_netif list" where
  "netifs pin host =
     (case host of Inl e \<Rightarrow> Inl e
      | Inr ifs \<Rightarrow> Inr (case pick pin ifs of Some i \<Rightarrow> [i] | None \<Rightarrow> []))"

definition validate_for_start :: "string option \<Rightarrow> string + unix_netif list \<Rightarrow> string + unit" where
  "validate_for_start pin host =
     (case host of
        Inl e \<Rightarrow> Inl (''failed to enumerate network interfaces: '' @ e)
      | Inr ifs \<Rightarrow>
          (case pin of
             Some p \<Rightarrow>
               (case List.find (\<lambda>n. if_name n = p) ifs of
                  None \<Rightarrow> Inl (''mdns_interface pin `'' @ p @ ''` not found among host interfaces. Available: ['' @
                    available_iface_names ifs @ '']. Clear the option for auto-select or set a valid name.'')
                | Some i \<Rightarrow>
                    if \<not> has_matter_ipv6 i
                    then Inl (''pinned interface `'' @ p @ ''` has no IPv6 address; Matter requires IPv6 on the LAN face (link-local fe80:: is enough). Enable IPv6 or pick another interface.'')
                    else if \<not> operational i
                    then Inl (''pinned interface `'' @ p @ ''` is down (not operational). Bring the link up or clear the LAN interface option for auto-select.'')
                    else Inr ())
           | None \<Rightarrow>
               if list_ex (\<lambda>i. \<not> is_loopback_name (if_name i) \<and> \<not> is_virtual_name (if_name i) \<and> operational i \<and>
                     has_matter_ipv6 i) ifs
               then Inr ()
               else Inl (''no operational IPv6-capable non-virtual LAN interface for Matter (link-local fe80:: is enough). Host interfaces: ['' @
                    available_iface_names ifs @ '']. Enable IPv6 on eth0/wlan0 or set mdns_interface to a face that has IPv6.'')))"

section \<open>The inventory\<close>

text \<open>\<open>log_inventory\<close>: the lines it logs, one per interface, and the verdict; a mismatch is the branch marked unexpected.\<close>

record inventory_row =
  row_name :: string
  row_operational :: bool
  row_mac :: string
  row_has_ipv6 :: bool
  row_score :: int
  row_virtual :: bool
  row_selected :: bool

datatype inventory_verdict =
    EnumerationFailed string
  | PinSelected string
  | PinMismatch string string
  | AutoSelected string
  | PinUnusable string
  | NothingUsable

definition inventory_row_of :: "string option \<Rightarrow> unix_netif \<Rightarrow> inventory_row" where
  "inventory_row_of selected i =
     \<lparr>row_name = if_name i, row_operational = operational i, row_mac = format_mac (hw_addr i),
      row_has_ipv6 = has_matter_ipv6 i, row_score = score_iface i, row_virtual = is_virtual_name (if_name i),
      row_selected = (selected = Some (if_name i))\<rparr>"

definition log_inventory :: "string option \<Rightarrow> string + unix_netif list \<Rightarrow> inventory_row list \<times> inventory_verdict" where
  "log_inventory pin host =
     (case host of
        Inl e \<Rightarrow> ([], EnumerationFailed e)
      | Inr ifs \<Rightarrow>
          let selected = map_option if_name (pick pin ifs)
          in (map (inventory_row_of selected) ifs,
              case selected of
                Some n \<Rightarrow> (case pin of Some p \<Rightarrow> if p = n then PinSelected n else PinMismatch n p | None \<Rightarrow> AutoSelected n)
              | None \<Rightarrow> (case pin of Some p \<Rightarrow> PinUnusable p | None \<Rightarrow> NothingUsable)))"

section \<open>The scan finds the first best candidate\<close>

text \<open>The reference: the first element of a list whose score no later or earlier one exceeds.\<close>

definition first_best :: "unix_netif list \<Rightarrow> unix_netif option" where
  "first_best cs = List.find (\<lambda>i. list_all (\<lambda>j. score_iface j \<le> score_iface i) cs) cs"

lemma first_best_step:
  "first_best (b # i # cs) = (if score_iface i \<le> score_iface b then first_best (b # cs) else first_best (i # cs))"
proof (cases "score_iface i \<le> score_iface b")
  case True
  then have "(\<lambda>x. list_all (\<lambda>j. score_iface j \<le> score_iface x) (b # i # cs)) =
      (\<lambda>x. list_all (\<lambda>j. score_iface j \<le> score_iface x) (b # cs))" by auto
  with True show ?thesis by (auto simp: first_best_def)
next
  case False
  then have "(\<lambda>x. list_all (\<lambda>j. score_iface j \<le> score_iface x) (b # i # cs)) =
      (\<lambda>x. list_all (\<lambda>j. score_iface j \<le> score_iface x) (i # cs))" by auto
  with False show ?thesis by (simp add: first_best_def)
qed

lemma best_loop_Some:
  "best_loop ok ifs (Some (score_iface b, b)) =
     map_option (\<lambda>i. (score_iface i, i)) (first_best (b # filter ok ifs))"
proof (induction ifs arbitrary: b)
  case Nil
  then show ?case by (simp add: first_best_def)
next
  case (Cons i ifs)
  show ?case
  proof (cases "ok i")
    case False
    then show ?thesis by (simp add: Cons.IH)
  next
    case True
    show ?thesis
    proof (cases "score_iface i \<le> score_iface b")
      case le: True
      then show ?thesis using True by (simp add: Cons.IH first_best_step)
    next
      case False
      then show ?thesis using True by (simp add: Cons.IH first_best_step)
    qed
  qed
qed

lemma best_loop_first_best:
  "best_loop ok ifs None = map_option (\<lambda>i. (score_iface i, i)) (first_best (filter ok ifs))"
proof (induction ifs)
  case Nil
  then show ?case by (simp add: first_best_def)
next
  case (Cons i ifs)
  then show ?case by (simp add: best_loop_Some)
qed

lemma first_best_Some: "first_best cs = Some i \<Longrightarrow> i \<in> set cs \<and> (\<forall>j \<in> set cs. score_iface j \<le> score_iface i)"
  by (auto simp: first_best_def find_Some_iff list_all_iff)

lemma first_best_None: "first_best cs = None \<longleftrightarrow> cs = []"
proof
  assume none: "first_best cs = None"
  show "cs = []"
  proof (rule ccontr)
    assume ne: "cs \<noteq> []"
    define m where "m = Max (score_iface ` set cs)"
    have "m \<in> score_iface ` set cs" unfolding m_def using ne by (intro Max_in) auto
    then obtain i where i: "i \<in> set cs" "score_iface i = m" by auto
    then have "list_all (\<lambda>j. score_iface j \<le> score_iface i) cs" by (auto simp: list_all_iff m_def)
    with i none show False by (auto simp: first_best_def find_None_iff)
  qed
next
  assume "cs = []"
  then show "first_best cs = None" by (simp add: first_best_def)
qed

lemma find_name: "List.find (\<lambda>n. if_name n = p) ifs = Some i \<Longrightarrow> i \<in> set ifs \<and> if_name i = p"
  by (auto simp: find_Some_iff)

section \<open>Properties\<close>

text \<open>C39: The automatic choice is the first interface of the highest score among the real LAN candidates (operational,
  with a Matter-usable IPv6 address, neither loopback nor virtual by name), and only when there is none, the
  first of the highest score among the operational non-loopback interfaces with IPv6; a pin that is missing or
  has no IPv6 selects nothing, whatever else the host has.\<close>

theorem pick_is_first_best:
  "pick None ifs =
     (if \<exists>i \<in> set ifs. real_candidate i then first_best (filter real_candidate ifs)
      else first_best (filter fallback_candidate ifs)) \<and>
   (pick None ifs = None \<longleftrightarrow> \<not> (\<exists>i \<in> set ifs. fallback_candidate i)) \<and>
   pick (Some p) ifs = (case List.find (\<lambda>i. if_name i = p) ifs of
       None \<Rightarrow> None | Some i \<Rightarrow> if has_matter_ipv6 i then Some i else None)"
proof -
  have some: "first_best cs = None \<longleftrightarrow> cs = []" for cs by (rule first_best_None)
  have real: "real_candidate i \<Longrightarrow> fallback_candidate i" for i
    by (simp add: real_candidate_def fallback_candidate_def)
  have eq: "pick None ifs = (case first_best (filter real_candidate ifs) of Some i \<Rightarrow> Some i
      | None \<Rightarrow> first_best (filter fallback_candidate ifs))"
    by (simp add: pick_def best_loop_first_best option.case_eq_if option.map_sel)
  have "first_best (filter real_candidate ifs) = None \<longleftrightarrow> \<not> (\<exists>i \<in> set ifs. real_candidate i)"
    "first_best (filter fallback_candidate ifs) = None \<longleftrightarrow> \<not> (\<exists>i \<in> set ifs. fallback_candidate i)"
    by (auto simp: some filter_empty_conv)
  with eq real show ?thesis by (auto simp: pick_def split: option.splits)
qed

definition demo_netif :: "string \<Rightarrow> ipv4_addr list \<Rightarrow> ipv6_addr list \<Rightarrow> unix_netif" where
  "demo_netif n v4 v6 =
     \<lparr>if_name = n, hw_addr = [2, 66, 172, 17, 0, 2, 0, 0], ipv4addrs = v4, ipv6addrs = v6, operational = True\<rparr>"

definition link_local_1 :: ipv6_addr where "link_local_1 = push_bit 112 0xFE80 + 1"

definition demo_host :: "unix_netif list" where
  "demo_host = [demo_netif ''docker0'' [0xAC110001] [link_local_1], demo_netif ''eth1'' [0xC0A8010B] [],
     demo_netif ''enp1s0'' [0xC0A8010A] [link_local_1]]"

lemma validate_auto_iff: "validate_for_start None (Inr ifs) = Inr () \<longleftrightarrow> (\<exists>i \<in> set ifs. real_candidate i)"
  by (auto simp: validate_for_start_def list_ex_iff real_candidate_def)

lemma validated_selects_one:
  assumes "validate_for_start pin (Inr ifs) = Inr ()"
  shows "(\<exists>i. netifs pin (Inr ifs) = Inr [i] \<and> i \<in> set ifs \<and> operational i \<and> has_matter_ipv6 i \<and>
    (case pin of
       Some p \<Rightarrow> if_name i = p
     | None \<Rightarrow> \<not> is_virtual_name (if_name i) \<and> (\<forall>j \<in> set ifs. real_candidate j \<longrightarrow> score_iface j \<le> score_iface i))) \<and>
    (validate_for_start None (Inr ifs') = Inr () \<longleftrightarrow> (\<exists>i \<in> set ifs'. real_candidate i))"
proof (rule conjI [OF _ validate_auto_iff])
  show "\<exists>i. netifs pin (Inr ifs) = Inr [i] \<and> i \<in> set ifs \<and> operational i \<and> has_matter_ipv6 i \<and>
    (case pin of
       Some p \<Rightarrow> if_name i = p
     | None \<Rightarrow> \<not> is_virtual_name (if_name i) \<and> (\<forall>j \<in> set ifs. real_candidate j \<longrightarrow> score_iface j \<le> score_iface i))"
  proof (cases pin)
    case None
    then have ex: "\<exists>i \<in> set ifs. real_candidate i" using assms validate_auto_iff by simp
    then obtain i where i: "first_best (filter real_candidate ifs) = Some i"
      using first_best_None [of "filter real_candidate ifs"] by (auto simp: filter_empty_conv)
    moreover have "real_candidate i" "i \<in> set ifs" "\<forall>j \<in> set ifs. real_candidate j \<longrightarrow> score_iface j \<le> score_iface i"
      using first_best_Some [OF i] by auto
    ultimately show ?thesis
      using None by (intro exI [of _ i]) (simp add: netifs_def pick_def best_loop_first_best real_candidate_def)
  next
    case (Some p)
    with assms obtain i where i: "List.find (\<lambda>n. if_name n = p) ifs = Some i" "has_matter_ipv6 i" "operational i"
      by (auto simp: validate_for_start_def split: option.splits if_splits)
    with Some find_name [OF i(1)] show ?thesis by (intro exI [of _ i]) (simp add: netifs_def pick_def)
  qed
qed

text \<open>What the check before readiness promises the stack: when it accepts, the selector exposes exactly one
  interface, which is operational and has IPv6, is the pinned one if there is a pin and otherwise a
  non-virtual one that no other real candidate outscores; without a pin it accepts exactly the hosts with a
  real candidate, so a stack never starts on a virtual fallback.\<close>

lemma validated_start_selects:
  assumes "validate_for_start pin (Inr ifs) = Inr ()"
  shows "(\<exists>i. netifs pin (Inr ifs) = Inr [i] \<and> i \<in> set ifs \<and> operational i \<and> has_matter_ipv6 i \<and>
    (case pin of
       Some p \<Rightarrow> if_name i = p
     | None \<Rightarrow> \<not> is_virtual_name (if_name i) \<and> (\<forall>j \<in> set ifs. real_candidate j \<longrightarrow> score_iface j \<le> score_iface i))) \<and>
    (validate_for_start None (Inr ifs') = Inr () \<longleftrightarrow> (\<exists>i \<in> set ifs'. real_candidate i))"
  using assms by (rule validated_selects_one)

lemma demo_host_valid: "validate_for_start (Some ''enp1s0'') (Inr demo_host) = Inr ()"
  by (simp add: validate_for_start_def demo_host_def demo_netif_def has_matter_ipv6_def matter_ipv6_def
      v6_is_multicast_def link_local_1_def)

lemma validated_start_selects_witness:
  "\<exists>i. netifs (Some ''enp1s0'') (Inr demo_host) = Inr [i] \<and> if_name i = ''enp1s0'' \<and> operational i"
  using validated_start_selects [OF demo_host_valid] by auto

lemma pick_member:
  assumes "pick pin ifs = Some i"
  shows "i \<in> set ifs" "has_matter_ipv6 i" "\<forall>p. pin = Some p \<longrightarrow> if_name i = p"
proof -
  have best: "first_best (filter ok ifs) = Some i \<Longrightarrow> i \<in> set ifs \<and> ok i" for ok
    using first_best_Some [of "filter ok ifs" i] by auto
  have "i \<in> set ifs \<and> has_matter_ipv6 i \<and> (\<forall>p. pin = Some p \<longrightarrow> if_name i = p)"
  proof (cases pin)
    case None
    with assms have "first_best (filter real_candidate ifs) = Some i \<or> first_best (filter fallback_candidate ifs) = Some i"
      by (auto simp: pick_def best_loop_first_best split: option.splits)
    then have "i \<in> set ifs \<and> (real_candidate i \<or> fallback_candidate i)"
      using best [of real_candidate] best [of fallback_candidate] by blast
    with None show ?thesis by (auto simp: real_candidate_def fallback_candidate_def)
  next
    case (Some p)
    with assms have "List.find (\<lambda>n. if_name n = p) ifs = Some i" "has_matter_ipv6 i"
      by (auto simp: pick_def split: option.splits if_splits)
    with find_name [OF this(1)] Some show ?thesis by simp
  qed
  then show "i \<in> set ifs" "has_matter_ipv6 i" "\<forall>p. pin = Some p \<longrightarrow> if_name i = p" by simp_all
qed

text \<open>The log says what the stack will see: the branch for a selection that differs from the pin is never taken, the
  verdict names an interface exactly when the selector exposes it, and with distinct names exactly that row is
  flagged.\<close>

lemma log_inventory_truthful:
  assumes "log_inventory pin host = (rows, verdict)"
  shows "(\<forall>n p. verdict \<noteq> PinMismatch n p) \<and>
    (\<forall>n. (verdict = PinSelected n \<or> verdict = AutoSelected n) \<longleftrightarrow> (\<exists>i. netifs pin host = Inr [i] \<and> if_name i = n)) \<and>
    (\<forall>ifs. host = Inr ifs \<longrightarrow> distinct (map if_name ifs) \<longrightarrow>
       map row_name (filter row_selected rows) = map if_name (case netifs pin host of Inr xs \<Rightarrow> xs | Inl _ \<Rightarrow> []))"
proof (cases host)
  case (Inl e)
  with assms show ?thesis by (auto simp: log_inventory_def netifs_def)
next
  case (Inr ifs)
  show ?thesis
  proof (cases "pick pin ifs")
    case None
    then have "filter row_selected (map (inventory_row_of None) ifs) = []" by (simp add: filter_empty_conv inventory_row_of_def)
    with None Inr assms show ?thesis by (auto simp: log_inventory_def netifs_def Let_def split: option.splits)
  next
    case (Some i)
    note member = pick_member [OF Some]
    have "map row_name (filter row_selected (map (inventory_row_of (Some (if_name i))) ifs)) = filter ((=) (if_name i)) (map if_name ifs)"
      by (simp add: filter_map comp_def inventory_row_of_def)
    moreover have "filter ((=) (if_name i)) (map if_name ifs) = [if_name i]" if "distinct (map if_name ifs)"
      using that member(1) by (induction ifs) (auto simp: filter_empty_conv)
    ultimately show ?thesis
      using Some Inr assms member(3) by (auto simp: log_inventory_def netifs_def Let_def split: option.splits)
  qed
qed

end
