(* ===== verification/Bridge_Config.thy ===== *)
theory Bridge_Config
  imports Catalog_Model Lan_Netif
begin

text \<open>
  \<open>config.rs\<close>: the process configuration and the loopback check. Parsing the command line is the
  library's; the text of a socket address in the error is its \<open>Display\<close>, an argument.
\<close>

datatype backend_kind = BackendDev | BackendRsMatter

definition as_wire_str :: "backend_kind \<Rightarrow> string" where
  "as_wire_str k = (case k of BackendDev \<Rightarrow> ''dev'' | BackendRsMatter \<Rightarrow> ''rs_matter'')"

datatype ip_addr = IpV4 ipv4_addr | IpV6 ipv6_addr

definition ip_is_loopback :: "ip_addr \<Rightarrow> bool" where
  "ip_is_loopback a = (case a of IpV4 v4 \<Rightarrow> v4_is_loopback v4 | IpV6 v6 \<Rightarrow> v6 = 1)"

record socket_addr =
  sock_ip :: ip_addr
  sock_port :: u16

record config =
  listen :: socket_addr
  cfg_data_dir :: string
  cfg_bridge_name :: string
  matter_backend :: backend_kind
  allow_non_loopback :: bool
  mdns_interface :: "string option"

definition ensure_loopback :: "(socket_addr \<Rightarrow> string) \<Rightarrow> config \<Rightarrow> string + unit" where
  "ensure_loopback display cfg =
     (if allow_non_loopback cfg then Inr ()
      else if \<not> ip_is_loopback (sock_ip (listen cfg))
      then Inl (''--listen must be a loopback address (or pass --allow-non-loopback), got '' @ display (listen cfg))
      else Inr ())"

lemma ensure_loopback_Inr:
  "ensure_loopback display cfg = Inr u \<longleftrightarrow> allow_non_loopback cfg \<or> ip_is_loopback (sock_ip (listen cfg))"
  by (simp add: ensure_loopback_def)

lemma as_wire_str_inj: "as_wire_str k = as_wire_str l \<longleftrightarrow> k = l"
  by (cases k; cases l) (simp_all add: as_wire_str_def)

end
