(* ===== verification/Backend_Contract.thy ===== *)
theory Backend_Contract
  imports Bridge_Config
begin

text \<open>
  The trait \<open>MatterBackend\<close> of \<open>matter/backend.rs\<close>: the control plane only talks to a
  backend through it (\<open>Arc<dyn MatterBackend>\<close>), so it is a record of operations on the backend's
  state. \<open>backend_contract\<close> is what both implementations promise the handlers, stated over the ids
  the backend knows and the commands it has queued; \<open>good\<close> is the backend's own invariant.
\<close>

record 'b backend_ops =
  be_kind :: backend_kind
  be_start :: "'b \<Rightarrow> (string + unit) \<times> 'b"
  be_is_running :: "'b \<Rightarrow> bool"
  be_pairing_open :: "'b \<Rightarrow> bool"
  be_open_pairing_window :: "u16 \<Rightarrow> 'b \<Rightarrow> (string + unit) \<times> 'b"
  be_close_pairing_window :: "'b \<Rightarrow> (string + unit) \<times> 'b"
  be_commissioned_fabrics :: "'b \<Rightarrow> u8"
  be_set_exports :: "export list \<Rightarrow> 'b \<Rightarrow> (string + unit) \<times> 'b"
  be_apply_state :: "uuid \<Rightarrow> ha_state_value list \<Rightarrow> 'b \<Rightarrow> (string + u32) \<times> 'b"
  be_take_commands :: "'b \<Rightarrow> command_request list \<times> 'b"
  be_pairing_info :: "'b \<Rightarrow> pairing_material"
  be_status_error :: "'b \<Rightarrow> string option"

locale backend_contract =
  fixes ops :: "'b backend_ops"
    and known_ids :: "'b \<Rightarrow> uuid set"
    and queued :: "'b \<Rightarrow> command_request list"
    and good :: "'b \<Rightarrow> bool"
  assumes set_exports_ok: "fst (be_set_exports ops es b) = Inr ()"
    and set_exports_known: "known_ids (snd (be_set_exports ops es b)) = export_id ` set es"
    and set_exports_queued: "queued (snd (be_set_exports ops es b)) = queued b"
    and set_exports_inv: "good b \<Longrightarrow> distinct (map export_id es) \<Longrightarrow> good (snd (be_set_exports ops es b))"
    and apply_known: "good b \<Longrightarrow> i \<in> known_ids b \<Longrightarrow> fst (be_apply_state ops i sts b) = Inr (of_nat (length sts))"
    and apply_unknown: "good b \<Longrightarrow> i \<notin> known_ids b \<Longrightarrow> be_apply_state ops i sts b = (Inr 0, b)"
    and apply_frame: "known_ids (snd (be_apply_state ops i sts b)) = known_ids b"
      "queued (snd (be_apply_state ops i sts b)) = queued b"
    and apply_inv: "good b \<Longrightarrow> good (snd (be_apply_state ops i sts b))"
    and take_result: "fst (be_take_commands ops b) = queued b"
    and take_frame: "queued (snd (be_take_commands ops b)) = []"
      "known_ids (snd (be_take_commands ops b)) = known_ids b"
    and take_inv: "good b \<Longrightarrow> good (snd (be_take_commands ops b))"
    and open_frame: "known_ids (snd (be_open_pairing_window ops t b)) = known_ids b"
      "queued (snd (be_open_pairing_window ops t b)) = queued b"
    and open_inv: "good b \<Longrightarrow> good (snd (be_open_pairing_window ops t b))"
    and close_frame: "known_ids (snd (be_close_pairing_window ops b)) = known_ids b"
      "queued (snd (be_close_pairing_window ops b)) = queued b"
    and close_inv: "good b \<Longrightarrow> good (snd (be_close_pairing_window ops b))"
begin

text \<open>Every queued command is handed out by exactly one of two polls, in order.\<close>

lemma take_twice:
  "fst (be_take_commands ops (snd (be_take_commands ops b))) = []"
  by (simp add: take_result take_frame)

lemma apply_then_take: "fst (be_take_commands ops (snd (be_apply_state ops i sts b))) = queued b"
  by (simp add: take_result apply_frame)

text \<open>A pushed state after a rebuild counts exactly for the exports of the rebuild.\<close>

lemma apply_after_set:
  assumes "good b" and "distinct (map export_id es)"
  shows "fst (be_apply_state ops i sts (snd (be_set_exports ops es b))) =
    Inr (if i \<in> export_id ` set es then of_nat (length sts) else 0)"
  using assms
  by (cases "i \<in> export_id ` set es") (simp_all add: apply_known apply_unknown set_exports_known set_exports_inv)

end

end
