(* ===== verification/Timed_Window.thy ===== *)
theory Timed_Window
  imports Prelude
begin

text \<open>
  The contract of a commissioning window with a deadline, as the control plane relies on it: a window
  is open until its deadline, opening sets the deadline, closing clears it. Both backends provide it
  (the plane of the Matter backend and the development backend); the lemmas a client needs are proved
  here once. Times are seconds since the epoch, as in \<open>matter/backend.rs\<close>.
\<close>

definition PAIRING_TIMEOUT_DEFAULT_SECS :: u16 where "PAIRING_TIMEOUT_DEFAULT_SECS = 300"
definition PAIRING_TIMEOUT_MIN_SECS :: u16 where "PAIRING_TIMEOUT_MIN_SECS = 180"
definition PAIRING_TIMEOUT_MAX_SECS :: u16 where "PAIRING_TIMEOUT_MAX_SECS = 900"
definition STARTUP_PAIRING_TIMEOUT_SECS :: u64 where "STARTUP_PAIRING_TIMEOUT_SECS = 900"

definition clamp_pairing_timeout :: "u16 \<Rightarrow> u16" where
  "clamp_pairing_timeout t =
     (if t < PAIRING_TIMEOUT_MIN_SECS then PAIRING_TIMEOUT_MIN_SECS
      else if t > PAIRING_TIMEOUT_MAX_SECS then PAIRING_TIMEOUT_MAX_SECS else t)"

lemmas pairing_timeouts = PAIRING_TIMEOUT_DEFAULT_SECS_def PAIRING_TIMEOUT_MIN_SECS_def PAIRING_TIMEOUT_MAX_SECS_def
  STARTUP_PAIRING_TIMEOUT_SECS_def

lemma clamp_pairing_timeout_range: "180 \<le> clamp_pairing_timeout t" "clamp_pairing_timeout t \<le> 900"
  by (auto simp: clamp_pairing_timeout_def pairing_timeouts not_less)

lemma clamp_pairing_timeout_idem [simp]: "clamp_pairing_timeout (clamp_pairing_timeout t) = clamp_pairing_timeout t"
  by (auto simp: clamp_pairing_timeout_def pairing_timeouts)

text \<open>A stored deadline is open at a time before it; 0 stands for closed.\<close>

definition deadline_open :: "u64 \<Rightarrow> u64 \<Rightarrow> bool" where
  "deadline_open now deadline \<longleftrightarrow> deadline \<noteq> 0 \<and> now < deadline"

definition deadline_after :: "u64 \<Rightarrow> u64 \<Rightarrow> u64" where
  "deadline_after now secs = saturating_add now secs"

lemma deadline_open_0 [simp]: "\<not> deadline_open now 0"
  by (simp add: deadline_open_def)

lemma deadline_open_after:
  assumes "0 < unat secs" and "unat now + unat secs < 2 ^ 64"
  shows "deadline_open now' (deadline_after now secs) \<longleftrightarrow> unat now' < unat now + unat secs"
proof -
  have u: "unat (deadline_after now secs) = unat now + unat secs"
    using assms(2) by (simp add: deadline_after_def unat_saturating_add)
  then have "deadline_after now secs \<noteq> 0" using assms(1) by auto
  then show ?thesis by (simp add: deadline_open_def word_less_nat_alt u)
qed

text \<open>
  The clock of the deadlines (\<open>epoch_secs\<close>): the system clock in whole seconds since the epoch, 0 when it
  stands before it. It is the wall clock, so setting it back keeps a window open for as much longer.
\<close>

definition epoch_secs :: "int \<Rightarrow> u64" where
  "epoch_secs clock = (if clock < 0 then 0 else of_int clock)"

lemma unat_epoch_secs:
  assumes "clock < 2 ^ 64"
  shows "unat (epoch_secs clock) = nat clock"
proof (cases "clock < 0")
  case True
  then show ?thesis by (simp add: epoch_secs_def)
next
  case False
  then have "epoch_secs clock = of_nat (nat clock)" by (simp add: epoch_secs_def)
  moreover have "nat clock < 2 ^ 64" using assms False by (simp add: nat_less_iff)
  ultimately show ?thesis by (simp add: unat_of_nat)
qed

lemma window_follows_clock:
  assumes "0 \<le> t" and "0 < unat secs" and "t + int (unat secs) < 2 ^ 64" and "t' < 2 ^ 64"
  shows "deadline_open (epoch_secs t') (deadline_after (epoch_secs t) secs) \<longleftrightarrow> t' < t + int (unat secs)"
proof -
  have "t < 2 ^ 64" using assms(3) of_nat_0_le_iff [of "unat secs"] by linarith
  note t = unat_epoch_secs [OF this] unat_epoch_secs [OF assms(4)]
  have "int (unat (epoch_secs t) + unat secs) < int (2 ^ 64)" using t(1) assms(1,3) by simp
  then have "unat (epoch_secs t) + unat secs < 2 ^ 64" by (simp only: of_nat_less_iff)
  with deadline_open_after [OF assms(2) this, of "epoch_secs t'"] t assms(1,2) show ?thesis by linarith
qed

locale timed_window =
  fixes deadline :: "'s \<Rightarrow> u64"
    and is_open :: "u64 \<Rightarrow> 's \<Rightarrow> bool"
    and opened :: "u64 \<Rightarrow> u16 \<Rightarrow> 's \<Rightarrow> 's"
    and shut :: "'s \<Rightarrow> 's"
  assumes is_open_deadline: "is_open now s = deadline_open now (deadline s)"
    and deadline_opened: "deadline (opened now t s) = deadline_after now (ucast t)"
    and deadline_shut: "deadline (shut s) = 0"
begin

lemma shut_closed: "\<not> is_open now (shut s)"
  by (simp add: is_open_deadline deadline_shut)

lemma shut_idem: "deadline (shut (shut s)) = deadline (shut s)"
  by (simp add: deadline_shut)

text \<open>An opened window is open exactly until its timeout.\<close>

lemma opened_until:
  assumes "0 < unat t" and "unat now + unat t < 2 ^ 64"
  shows "is_open now' (opened now t s) \<longleftrightarrow> unat now' < unat now + unat t"
proof -
  have "unat (ucast t :: u64) = unat t"
    using unat_u16_less [of t] by (simp add: unat_ucast)
  then show ?thesis using assms deadline_open_after [of "ucast t" now] by (simp add: is_open_deadline deadline_opened)
qed

lemma opened_clamped:
  assumes "unat now + 900 < 2 ^ 64"
  shows "is_open now (opened now (clamp_pairing_timeout t) s)"
    and "unat now + 900 \<le> unat now' \<Longrightarrow> \<not> is_open now' (opened now (clamp_pairing_timeout t) s)"
proof -
  have r: "180 \<le> unat (clamp_pairing_timeout t)" "unat (clamp_pairing_timeout t) \<le> 900"
    using clamp_pairing_timeout_range [of t] by (simp_all add: word_le_nat_alt)
  with assms show "is_open now (opened now (clamp_pairing_timeout t) s)"
    by (subst opened_until) auto
  show "unat now + 900 \<le> unat now' \<Longrightarrow> \<not> is_open now' (opened now (clamp_pairing_timeout t) s)"
    using r assms by (subst opened_until) auto
qed

text \<open>A window that is closed stays closed as time passes.\<close>

lemma closed_stays: "\<not> is_open now s \<Longrightarrow> now \<le> now' \<Longrightarrow> \<not> is_open now' s"
  by (auto simp: is_open_deadline deadline_open_def)

end

end
