(* ===== verification/Ipc_Handlers.thy ===== *)
theory Ipc_Handlers
  imports Catalog_History Backend_Contract Timed_Window
begin

text \<open>
  The control plane: \<open>state.rs\<close>, \<open>ipc/types.rs\<close>, \<open>ipc/handlers.rs\<close> and the routes of
  \<open>ipc/server.rs\<close>. A handler is a function of the shared state (catalog, backend) and the disk to a
  response and the next state; HTTP status codes are numbers. The backend is reached through its trait only
  (\<open>backend_ops\<close>). Decoding of bodies is the library's: an argument that gives the decoded value or the
  error text. Extraction of path and JSON arguments by the web framework happens before a handler runs.
\<close>

section \<open>Messages\<close>

record health_response =
  hr_ok :: bool
  hr_version :: string

record bridge_status =
  bs_bridge_name :: string
  bs_running :: bool
  bs_matter_backend :: string
  bs_pairing_open :: bool
  bs_commissioned_fabrics :: u8
  bs_export_count :: u32
  bs_enabled_export_count :: u32
  bs_error :: "string option"

record open_pairing_request =
  opr_timeout_secs :: u16

record open_pairing_response =
  op_pairing_open :: bool
  op_timeout_secs :: u16

record close_pairing_response =
  cp_pairing_open :: bool

record error_body =
  eb_error :: string
  eb_message :: string

record pending_commands =
  pc_commands :: "command_request list"

definition default_open_request :: open_pairing_request where
  "default_open_request = \<lparr>opr_timeout_secs = PAIRING_TIMEOUT_DEFAULT_SECS\<rparr>"

datatype response_body =
    HealthBody health_response
  | StatusBody bridge_status
  | PairingBody pairing_material
  | OpenBody open_pairing_response
  | CloseBody close_pairing_response
  | ExportsBody "export list"
  | ExportBody export
  | PushBody state_push_result
  | CommandsBody pending_commands
  | ErrBody error_body

record response =
  resp_status :: nat
  resp_body :: response_body

definition ok_json :: "response_body \<Rightarrow> response" where
  "ok_json b = \<lparr>resp_status = 200, resp_body = b\<rparr>"

definition error_response :: "nat \<Rightarrow> string \<Rightarrow> string \<Rightarrow> response" where
  "error_response status err msg = \<lparr>resp_status = status, resp_body = ErrBody \<lparr>eb_error = err, eb_message = msg\<rparr>\<rparr>"

text \<open>The \<open>Display\<close> of a catalog error; \<open>detail\<close> is the text of the wrapped library error.\<close>

definition catalog_error_display :: "string \<Rightarrow> catalog_error \<Rightarrow> string" where
  "catalog_error_display detail e =
     (case e of
        NotFound i \<Rightarrow> ''export not found: '' @ uuid_hyphenated i
      | Invalid msg \<Rightarrow> ''invalid export: '' @ msg
      | EndpointExhausted \<Rightarrow> ''endpoint id space exhausted''
      | Io \<Rightarrow> ''io: '' @ detail
      | Json \<Rightarrow> ''json: '' @ detail)"

definition catalog_err :: "string \<Rightarrow> catalog_error \<Rightarrow> response" where
  "catalog_err detail e =
     (case e of
        NotFound i \<Rightarrow> error_response 404 ''not_found'' (''export not found: '' @ uuid_hyphenated i)
      | Invalid msg \<Rightarrow> error_response 400 ''invalid'' msg
      | other \<Rightarrow> error_response 500 ''internal'' (catalog_error_display detail other))"

definition internal :: "string \<Rightarrow> response" where
  "internal msg = error_response 500 ''internal'' msg"

section \<open>Shared state\<close>

record 'b app_state =
  app_catalog :: catalog_store
  app_backend :: 'b
  app_backend_kind :: backend_kind

definition app_new :: "'b backend_ops \<Rightarrow> catalog_store \<Rightarrow> 'b \<Rightarrow> 'b app_state" where
  "app_new ops st b = \<lparr>app_catalog = st, app_backend = b, app_backend_kind = be_kind ops\<rparr>"

text \<open>An operation of the backend on the shared state.\<close>

definition on_backend :: "('b \<Rightarrow> 'r \<times> 'b) \<Rightarrow> 'b app_state \<Rightarrow> 'r \<times> 'b app_state" where
  "on_backend f app = (case f (app_backend app) of (r, b) \<Rightarrow> (r, app\<lparr>app_backend := b\<rparr>))"

section \<open>Handlers\<close>

definition health :: "'b backend_ops \<Rightarrow> string \<Rightarrow> 'b app_state \<Rightarrow> response" where
  "health ops version app =
     ok_json (HealthBody \<lparr>hr_ok = be_is_running ops (app_backend app), hr_version = version\<rparr>)"

definition status :: "'b backend_ops \<Rightarrow> 'b app_state \<Rightarrow> response" where
  "status ops app =
     (let cat = app_catalog app; b = app_backend app
      in ok_json (StatusBody
           \<lparr>bs_bridge_name = bridge_name cat, bs_running = be_is_running ops b,
            bs_matter_backend = as_wire_str (app_backend_kind app), bs_pairing_open = be_pairing_open ops b,
            bs_commissioned_fabrics = be_commissioned_fabrics ops b,
            bs_export_count = of_nat (export_count cat), bs_enabled_export_count = of_nat (enabled_export_count cat),
            bs_error = be_status_error ops b\<rparr>))"

definition pairing :: "'b backend_ops \<Rightarrow> 'b app_state \<Rightarrow> response" where
  "pairing ops app = ok_json (PairingBody (be_pairing_info ops (app_backend app)))"

definition open_pairing ::
  "'b backend_ops \<Rightarrow> (string \<Rightarrow> string + open_pairing_request) \<Rightarrow> string \<Rightarrow> 'b app_state \<Rightarrow> response \<times> 'b app_state" where
  "open_pairing ops de body app =
     (case (if body = [] then Inr default_open_request else de body) of
        Inl err \<Rightarrow> (error_response 400 ''invalid'' (''invalid open pairing body: '' @ err), app)
      | Inr req \<Rightarrow>
          let timeout = clamp_pairing_timeout (opr_timeout_secs req)
          in (case on_backend (be_open_pairing_window ops timeout) app of
                (Inr _, app) \<Rightarrow> (ok_json (OpenBody \<lparr>op_pairing_open = True, op_timeout_secs = timeout\<rparr>), app)
              | (Inl e, app) \<Rightarrow> (internal e, app)))"

definition close_pairing :: "'b backend_ops \<Rightarrow> 'b app_state \<Rightarrow> response \<times> 'b app_state" where
  "close_pairing ops app =
     (case on_backend (be_close_pairing_window ops) app of
        (Inr _, app) \<Rightarrow> (ok_json (CloseBody \<lparr>cp_pairing_open = False\<rparr>), app)
      | (Inl e, app) \<Rightarrow> (internal e, app))"

definition list_exports :: "'b app_state \<Rightarrow> response" where
  "list_exports app = ok_json (ExportsBody (catalog_list (app_catalog app)))"

definition get_export :: "string \<Rightarrow> uuid \<Rightarrow> 'b app_state \<Rightarrow> response" where
  "get_export detail i app =
     (case catalog_get (app_catalog app) i of
        Some e \<Rightarrow> ok_json (ExportBody e)
      | None \<Rightarrow> catalog_err detail (NotFound i))"

definition sync_exports :: "'b backend_ops \<Rightarrow> 'b app_state \<Rightarrow> (string + unit) \<times> 'b app_state" where
  "sync_exports ops app = (let exports = catalog_list (app_catalog app) in on_backend (be_set_exports ops exports) app)"

definition post_export ::
  "'t codec \<Rightarrow> 't fs_env \<Rightarrow> 'b backend_ops \<Rightarrow> string \<Rightarrow> uuid \<Rightarrow> create_export \<Rightarrow> 'b app_state \<times> 't disk \<Rightarrow>
     response \<times> 'b app_state \<times> 't disk" where
  "post_export c env ops detail new_v4 body = (\<lambda>(app, d).
     case create c env new_v4 body (app_catalog app, d) of
       (Inl e, st, d) \<Rightarrow> (catalog_err detail e, app\<lparr>app_catalog := st\<rparr>, d)
     | (Inr created, st, d) \<Rightarrow>
         (case sync_exports ops (app\<lparr>app_catalog := st\<rparr>) of
            (Inl e, app) \<Rightarrow> (internal e, app, d)
          | (Inr _, app) \<Rightarrow> (\<lparr>resp_status = 201, resp_body = ExportBody created\<rparr>, app, d)))"

definition patch_export_handler ::
  "'t codec \<Rightarrow> 't fs_env \<Rightarrow> 'b backend_ops \<Rightarrow> string \<Rightarrow> uuid \<Rightarrow> patch_export \<Rightarrow> 'b app_state \<times> 't disk \<Rightarrow>
     response \<times> 'b app_state \<times> 't disk" where
  "patch_export_handler c env ops detail i body = (\<lambda>(app, d).
     case patch c env i body (app_catalog app, d) of
       (Inl e, st, d) \<Rightarrow> (catalog_err detail e, app\<lparr>app_catalog := st\<rparr>, d)
     | (Inr updated, st, d) \<Rightarrow>
         (case sync_exports ops (app\<lparr>app_catalog := st\<rparr>) of
            (Inl e, app) \<Rightarrow> (internal e, app, d)
          | (Inr _, app) \<Rightarrow> (ok_json (ExportBody updated), app, d)))"

definition delete_export ::
  "'t codec \<Rightarrow> 't fs_env \<Rightarrow> 'b backend_ops \<Rightarrow> string \<Rightarrow> uuid \<Rightarrow> 'b app_state \<times> 't disk \<Rightarrow>
     response \<times> 'b app_state \<times> 't disk" where
  "delete_export c env ops detail i = (\<lambda>(app, d).
     case delete c env i (app_catalog app, d) of
       (Inl e, st, d) \<Rightarrow> (catalog_err detail e, app\<lparr>app_catalog := st\<rparr>, d)
     | (Inr deleted, st, d) \<Rightarrow>
         (case sync_exports ops (app\<lparr>app_catalog := st\<rparr>) of
            (Inl e, app) \<Rightarrow> (internal e, app, d)
          | (Inr _, app) \<Rightarrow> (ok_json (ExportBody deleted), app, d)))"

text \<open>\<open>serde_json::from_slice\<close> at the two types a state body may have.\<close>

record state_decoders =
  de_update :: "string \<Rightarrow> ha_state_update option"
  de_value :: "string \<Rightarrow> ha_state_value option"

definition parse_state_body :: "state_decoders \<Rightarrow> string \<Rightarrow> string + ha_state_value list" where
  "parse_state_body de body =
     (if body = [] then Inl ''empty body''
      else case de_update de body of
             Some update \<Rightarrow> Inr (upd_states update)
           | None \<Rightarrow> (case de_value de body of
               Some one \<Rightarrow> Inr [one]
             | None \<Rightarrow> Inl ''body must be HaStateUpdate or HaStateValue JSON''))"

definition push_state ::
  "'b backend_ops \<Rightarrow> state_decoders \<Rightarrow> string \<Rightarrow> uuid \<Rightarrow> string \<Rightarrow> 'b app_state \<Rightarrow> response \<times> 'b app_state" where
  "push_state ops de detail i body app =
     (if catalog_get (app_catalog app) i = None then (catalog_err detail (NotFound i), app)
      else case parse_state_body de body of
             Inl msg \<Rightarrow> (error_response 400 ''invalid'' msg, app)
           | Inr states \<Rightarrow>
               (case on_backend (be_apply_state ops i states) app of
                  (Inr applied, app) \<Rightarrow> (ok_json (PushBody \<lparr>push_applied = applied\<rparr>), app)
                | (Inl e, app) \<Rightarrow> (internal e, app)))"

definition take_commands_handler :: "'b backend_ops \<Rightarrow> 'b app_state \<Rightarrow> response \<times> 'b app_state" where
  "take_commands_handler ops app =
     (case on_backend (be_take_commands ops) app of
        (cmds, app) \<Rightarrow> (ok_json (CommandsBody \<lparr>pc_commands = cmds\<rparr>), app))"

section \<open>Routes\<close>

datatype ipc_request =
    GetHealth
  | GetStatus
  | GetPairing
  | PostPairingOpen string
  | PostPairingClose
  | GetExports
  | PostExports uuid create_export
  | GetExportId uuid
  | PatchExportId uuid patch_export
  | DeleteExportId uuid
  | PostState uuid string
  | GetCommands

record 't ipc_env =
  ie_codec :: "'t codec"
  ie_fs :: "'t fs_env"
  ie_version :: string
  ie_detail :: string
  ie_de_open :: "string \<Rightarrow> string + open_pairing_request"
  ie_de_state :: state_decoders

definition keep_disk :: "'t disk \<Rightarrow> response \<times> 'b app_state \<Rightarrow> response \<times> 'b app_state \<times> 't disk" where
  "keep_disk d r = (fst r, snd r, d)"

fun route :: "'t ipc_env \<Rightarrow> 'b backend_ops \<Rightarrow> ipc_request \<Rightarrow> 'b app_state \<times> 't disk \<Rightarrow> response \<times> 'b app_state \<times> 't disk" where
  "route env ops GetHealth (app, d) = (health ops (ie_version env) app, app, d)"
| "route env ops GetStatus (app, d) = (status ops app, app, d)"
| "route env ops GetPairing (app, d) = (pairing ops app, app, d)"
| "route env ops (PostPairingOpen body) (app, d) = keep_disk d (open_pairing ops (ie_de_open env) body app)"
| "route env ops PostPairingClose (app, d) = keep_disk d (close_pairing ops app)"
| "route env ops GetExports (app, d) = (list_exports app, app, d)"
| "route env ops (PostExports v4 body) s = post_export (ie_codec env) (ie_fs env) ops (ie_detail env) v4 body s"
| "route env ops (GetExportId i) (app, d) = (get_export (ie_detail env) i app, app, d)"
| "route env ops (PatchExportId i body) s = patch_export_handler (ie_codec env) (ie_fs env) ops (ie_detail env) i body s"
| "route env ops (DeleteExportId i) s = delete_export (ie_codec env) (ie_fs env) ops (ie_detail env) i s"
| "route env ops (PostState i body) (app, d) = keep_disk d (push_state ops (ie_de_state env) (ie_detail env) i body app)"
| "route env ops GetCommands (app, d) = keep_disk d (take_commands_handler ops app)"

lemma catalog_err_status:
  "resp_status (catalog_err detail e) = 404 \<longleftrightarrow> (\<exists>i. e = NotFound i)"
  "resp_status (catalog_err detail e) = 400 \<longleftrightarrow> (\<exists>m. e = Invalid m)"
  "resp_status (catalog_err detail e) = 500 \<longleftrightarrow> e \<in> {EndpointExhausted, Io, Json}"
  "resp_status (catalog_err detail e) \<noteq> 200" "resp_status (catalog_err detail e) \<noteq> 201"
  by (cases e; simp add: catalog_err_def error_response_def)+

lemma on_backend_eq: "on_backend f app = (fst (f (app_backend app)), app\<lparr>app_backend := snd (f (app_backend app))\<rparr>)"
  by (simp add: on_backend_def case_prod_beta)

lemma on_backend_fields [simp]:
  "app_catalog (snd (on_backend f app)) = app_catalog app"
  "app_backend_kind (snd (on_backend f app)) = app_backend_kind app"
  "app_backend (snd (on_backend f app)) = snd (f (app_backend app))"
  "fst (on_backend f app) = fst (f (app_backend app))"
  by (simp_all add: on_backend_def split: prod.splits)

end
