(* ===== verification/Commissioning.thy ===== *)
theory Commissioning
  imports Disk Catalog_Model
begin

text \<open>
  \<open>matter/commissioning.rs\<close> and \<open>matter/pairing.rs\<close>: the setup passcode and discriminator of
  this install, generated once, kept in a file, and turned into pairing codes. The random numbers are
  an argument (the draws of \<open>gen_range\<close>, which lie in the asked range), the text format a codec,
  the two code encoders of the Matter library functions of the material they get.
\<close>

record commissioning_material =
  passcode :: u32
  discriminator :: u16

definition PASSCODE_MIN :: u32 where "PASSCODE_MIN = 1"
definition PASSCODE_MAX :: u32 where "PASSCODE_MAX = 99999998"
definition DISCRIMINATOR_MAX :: u16 where "DISCRIMINATOR_MAX = 4095"

definition INVALID_PASSCODES :: "u32 list" where
  "INVALID_PASSCODES =
     [0, 11111111, 22222222, 33333333, 44444444, 55555555, 66666666, 77777777, 88888888, 99999999,
      12345678, 87654321]"

definition commissioning_file :: string where "commissioning_file = ''commissioning.json''"
definition commissioning_tmp :: string where "commissioning_tmp = commissioning_file @ ''.tmp''"

lemma commissioning_files_differ: "commissioning_tmp \<noteq> commissioning_file"
  by (simp add: commissioning_tmp_def)

definition is_valid :: "commissioning_material \<Rightarrow> bool" where
  "is_valid m \<longleftrightarrow>
     (PASSCODE_MIN \<le> passcode m \<and> passcode m \<le> PASSCODE_MAX) \<and> passcode m \<notin> set INVALID_PASSCODES \<and>
     discriminator m \<le> DISCRIMINATOR_MAX"

section \<open>Generation\<close>

text \<open>The loop draws until a passcode is not forbidden: the \<open>n\<close>-th draw on.\<close>

partial_function (option) draw_passcode :: "(nat \<Rightarrow> u32) \<Rightarrow> nat \<Rightarrow> u32 option" where
  "draw_passcode rng n =
     (let candidate = rng n
      in if candidate \<notin> set INVALID_PASSCODES then Some candidate else draw_passcode rng (n + 1))"

definition generate :: "(nat \<Rightarrow> u32) \<Rightarrow> u16 \<Rightarrow> commissioning_material option" where
  "generate rng d = map_option (\<lambda>p. \<lparr>passcode = p, discriminator = d\<rparr>) (draw_passcode rng 0)"

lemma draw_passcode_first:
  "rng (n + k) \<notin> set INVALID_PASSCODES \<Longrightarrow> \<forall>i < k. rng (n + i) \<in> set INVALID_PASSCODES \<Longrightarrow>
     draw_passcode rng n = Some (rng (n + k))"
proof (induction k arbitrary: n)
  case 0
  then show ?case by (subst draw_passcode.simps) simp
next
  case (Suc k)
  have "draw_passcode rng n = draw_passcode rng (n + 1)"
    using Suc.prems(2) by (subst draw_passcode.simps) (auto simp: Let_def)
  also have "\<dots> = Some (rng (n + 1 + k))"
    using Suc.prems by (intro Suc.IH) auto
  finally show ?case by simp
qed

text \<open>Random draws of the two ranges that are not forever forbidden.\<close>

definition rng_ok :: "(nat \<Rightarrow> u32) \<Rightarrow> u16 \<Rightarrow> bool" where
  "rng_ok rng d \<longleftrightarrow> (\<forall>n. PASSCODE_MIN \<le> rng n \<and> rng n \<le> PASSCODE_MAX) \<and> d \<le> DISCRIMINATOR_MAX \<and>
     (\<exists>n. rng n \<notin> set INVALID_PASSCODES)"

lemma generate_valid:
  assumes "rng_ok rng d"
  shows "\<exists>m. generate rng d = Some m \<and> is_valid m"
proof -
  define k where "k = (LEAST n. rng n \<notin> set INVALID_PASSCODES)"
  have "\<exists>n. rng n \<notin> set INVALID_PASSCODES" using assms by (simp add: rng_ok_def)
  then have k: "rng k \<notin> set INVALID_PASSCODES" unfolding k_def by (rule LeastI_ex)
  moreover have "\<forall>i < k. rng i \<in> set INVALID_PASSCODES" unfolding k_def by (auto dest: not_less_Least)
  ultimately have "draw_passcode rng 0 = Some (rng k)" using draw_passcode_first [of rng 0 k] by simp
  with k assms show ?thesis by (simp add: generate_def is_valid_def rng_ok_def)
qed

section \<open>The file\<close>

datatype commissioning_error = CIo | CSer

record 't material_codec =
  ser_material :: "commissioning_material \<Rightarrow> 't option"
  de_material :: "'t \<Rightarrow> commissioning_material option"

definition load_material ::
  "'t material_codec \<Rightarrow> 't fs_env \<Rightarrow> 't disk \<Rightarrow> commissioning_error + commissioning_material option" where
  "load_material c env d =
     (if \<not> fs_exists commissioning_file d then Inr None
      else case fs_read CIo env commissioning_file d of
             Inl e \<Rightarrow> Inl e
           | Inr raw \<Rightarrow> (case de_material c raw of
               None \<Rightarrow> Inr None
             | Some m \<Rightarrow> if is_valid m then Inr (Some m) else Inr None))"

definition persist_material ::
  "'t material_codec \<Rightarrow> 't fs_env \<Rightarrow> commissioning_material \<Rightarrow> 't disk \<Rightarrow> (commissioning_error + unit) \<times> 't disk" where
  "persist_material c env m d =
     and_then (fs_create_dir_all CIo env d) (\<lambda>_ d.
       case ser_material c m of
         None \<Rightarrow> (Inl CSer, d)
       | Some t \<Rightarrow> write_then_rename CIo env commissioning_tmp commissioning_file t d)"

text \<open>\<open>None\<close>: the generation loop does not end, which \<open>rng_ok\<close> excludes.\<close>

definition load_or_generate ::
  "'t material_codec \<Rightarrow> 't fs_env \<Rightarrow> (nat \<Rightarrow> u32) \<Rightarrow> u16 \<Rightarrow> 't disk \<Rightarrow>
     ((commissioning_error + commissioning_material) \<times> 't disk) option" where
  "load_or_generate c env rng d_draw d =
     (case load_material c env d of
        Inl e \<Rightarrow> Some (Inl e, d)
      | Inr (Some m) \<Rightarrow> Some (Inr m, d)
      | Inr None \<Rightarrow>
          map_option (\<lambda>m. case persist_material c env m d of
             (Inl e, d') \<Rightarrow> (Inl e, d')
           | (Inr _, d') \<Rightarrow> (Inr m, d')) (generate rng d_draw))"

definition material_faithful :: "'t material_codec \<Rightarrow> bool" where
  "material_faithful c \<longleftrightarrow> (\<forall>m t. ser_material c m = Some t \<longrightarrow> de_material c t = Some m)"

section \<open>Pairing codes\<close>

record basic_comm_data =
  comm_password :: "u8 list"
  comm_discriminator :: u16

definition to_le_bytes :: "u32 \<Rightarrow> u8 list" where
  "to_le_bytes w = map (\<lambda>i. ucast (drop_bit (8 * i) w)) [0, 1, 2, 3]"

definition from_le_bytes :: "u8 list \<Rightarrow> u32" where
  "from_le_bytes bs = foldr (\<lambda>b acc. ucast b + 256 * acc) bs 0"

definition basic_comm_data :: "commissioning_material \<Rightarrow> basic_comm_data" where
  "basic_comm_data m = \<lparr>comm_password = to_le_bytes (passcode m), comm_discriminator = discriminator m\<rparr>"

definition encode_qr_payload :: "(basic_comm_data \<Rightarrow> string option) \<Rightarrow> basic_comm_data \<Rightarrow> string" where
  "encode_qr_payload qr comm = (case qr comm of Some text \<Rightarrow> text | None \<Rightarrow> [])"

definition pairing_material_for ::
  "(basic_comm_data \<Rightarrow> string) \<Rightarrow> (basic_comm_data \<Rightarrow> string option) \<Rightarrow> commissioning_material \<Rightarrow> pairing_material" where
  "pairing_material_for code qr m =
     (let comm = basic_comm_data m
      in \<lparr>setup_code = code comm, qr_payload = encode_qr_payload qr comm,
          pm_discriminator = ucast (discriminator m), pm_passcode = passcode m\<rparr>)"

lemma unat_le_byte: "unat (ucast (drop_bit k (w :: u32)) :: u8) = (unat w div 2 ^ k) mod 256"
  by (simp only: unat_ucast unat_drop_bit_eq drop_bit_eq_div [where 'a = nat]) simp

lemma le_byte_sum: "(n :: nat) < 4294967296 \<Longrightarrow>
  n mod 256 + 256 * (n div 256 mod 256 + 256 * (n div 65536 mod 256 + 256 * (n div 16777216 mod 256))) = n"
proof -
  assume n: "n < 4294967296"
  have d: "n div 65536 = n div 256 div 256" "n div 16777216 = n div 256 div 256 div 256"
    by (simp_all add: div_mult2_eq [symmetric])
  have l: "n div 256 div 256 div 256 < 256" using n by (simp add: div_mult2_eq [symmetric] less_mult_imp_div_less)
  have "n div 256 div 256 mod 256 + 256 * (n div 256 div 256 div 256 mod 256) = n div 256 div 256"
    using l by simp
  moreover have "n div 256 mod 256 + 256 * (n div 256 div 256) = n div 256" by simp
  ultimately show ?thesis unfolding d by (simp add: mod_mult_div_eq)
qed

lemma from_to_le_bytes: "from_le_bytes (to_le_bytes w) = w"
proof -
  define n where "n = unat w"
  have n: "n < 4294967296" unfolding n_def by (rule order_less_le_trans [OF unsigned_less]) simp
  have b: "ucast (ucast (drop_bit k w) :: u8) = (of_nat (n div 2 ^ k mod 256) :: u32)" for k
  proof -
    have "ucast (ucast (drop_bit k w) :: u8) = (of_nat (unat (ucast (drop_bit k w) :: u8)) :: u32)" by simp
    then show ?thesis by (simp only: unat_le_byte n_def)
  qed
  have "from_le_bytes (to_le_bytes w) = (of_nat (n mod 256 + 256 * (n div 256 mod 256 + 256 * (n div 65536 mod 256 +
      256 * (n div 16777216 mod 256)))) :: u32)"
    using b [of 0] b [of 8] b [of 16] b [of 24] by (simp add: from_le_bytes_def to_le_bytes_def)
  also have "\<dots> = of_nat n" by (simp only: le_byte_sum [OF n])
  finally show ?thesis by (simp add: n_def)
qed

section \<open>Properties\<close>

lemma load_material_valid: "load_material c env d = Inr (Some m) \<Longrightarrow> is_valid m"
  by (auto simp: load_material_def split: if_splits sum.splits option.splits)

lemma load_material_env:
  assumes "load_material c env d = Inr (Some m)" and "\<not> op_fails env' (ReadFile commissioning_file)"
  shows "load_material c env' d = Inr (Some m)"
  using assms by (auto simp: load_material_def fs_read_def split: if_splits sum.splits option.splits)

lemma persist_material_ok:
  assumes "persist_material c env m d = (Inr u, d')"
  shows "\<exists>t. ser_material c m = Some t \<and> d' commissioning_file = Some t"
  using assms
  by (auto simp: persist_material_def fs_create_dir_all_def dest: write_then_rename_ok split: if_splits option.splits)

lemma persist_material_error:
  assumes "persist_material c env m d = (Inl e, d')"
  shows "d' commissioning_file = d commissioning_file"
  using assms
  by (auto simp: persist_material_def fs_create_dir_all_def dest: write_then_rename_error [OF _ commissioning_files_differ]
      split: if_splits option.splits)

lemma load_material_persisted:
  assumes "material_faithful c" and "persist_material c env m d = (Inr u, d')" and "is_valid m"
    and "\<not> op_fails env' (ReadFile commissioning_file)"
  shows "load_material c env' d' = Inr (Some m)"
proof -
  from persist_material_ok [OF assms(2)] obtain t where "ser_material c m = Some t" "d' commissioning_file = Some t" by blast
  with assms show ?thesis by (simp add: load_material_def fs_exists_def fs_read_def material_faithful_def)
qed

text \<open>C34: The pairing code of an install is stable and within the rules of the Matter specification:
  \<open>load_or_generate\<close> always returns, what it returns on success is valid, and every later call that can read the
  data directory returns the same material and writes nothing, whatever the random numbers; a failed call leaves
  the stored file as it was.\<close>

theorem commissioning_material_stable:
  assumes "material_faithful c" and "rng_ok rng n"
  shows "\<exists>r d'. load_or_generate c env rng n d = Some (r, d') \<and>
    (case r of
       Inl _ \<Rightarrow> d' commissioning_file = d commissioning_file
     | Inr m \<Rightarrow> is_valid m \<and>
         (\<forall>env' rng' n'. \<not> op_fails env' (ReadFile commissioning_file) \<longrightarrow>
            load_or_generate c env' rng' n' d' = Some (Inr m, d')))"
proof -
  obtain g where g: "generate rng n = Some g" "is_valid g" using generate_valid [OF assms(2)] by blast
  show ?thesis
  proof (cases "load_material c env d")
    case (Inl e)
    then show ?thesis by (simp add: load_or_generate_def)
  next
    case (Inr mo)
    show ?thesis
    proof (cases mo)
      case (Some m)
      with Inr load_material_valid [of c env d m] load_material_env [of c env d m]
      show ?thesis by (simp add: load_or_generate_def)
    next
      case None
      obtain q d' where p: "persist_material c env g d = (q, d')" by fastforce
      show ?thesis
      proof (cases q)
        case e: (Inl e)
        with p have "d' commissioning_file = d commissioning_file" by (simp add: persist_material_error)
        with Inr None g p e show ?thesis by (simp add: load_or_generate_def)
      next
        case r: (Inr u)
        with p load_material_persisted [OF assms(1), of env g d u d'] g
        have "\<And>env'. \<not> op_fails env' (ReadFile commissioning_file) \<Longrightarrow> load_material c env' d' = Inr (Some g)" by simp
        with Inr None g p r show ?thesis by (simp add: load_or_generate_def)
      qed
    qed
  qed
qed

definition plain_material_codec :: "commissioning_material material_codec" where
  "plain_material_codec = \<lparr>ser_material = Some, de_material = Some\<rparr>"

definition sound_env :: "commissioning_material fs_env" where
  "sound_env = \<lparr>op_fails = (\<lambda>_. False), torn = (\<lambda>_. None)\<rparr>"

text \<open>Draws whose first is a forbidden passcode.\<close>

definition demo_rng :: "nat \<Rightarrow> u32" where
  "demo_rng n = (if n = 0 then 12345678 else 20202021)"

lemma demo_rng_ok: "rng_ok demo_rng 3840"
proof -
  have "demo_rng 1 \<notin> set INVALID_PASSCODES" by (simp add: demo_rng_def INVALID_PASSCODES_def)
  then show ?thesis
    by (auto simp: rng_ok_def demo_rng_def PASSCODE_MIN_def PASSCODE_MAX_def DISCRIMINATOR_MAX_def)
qed

theorem commissioning_material_stable_witness:
  "\<exists>r d'. load_or_generate plain_material_codec sound_env demo_rng 3840 Map.empty = Some (r, d') \<and>
    (case r of
       Inl _ \<Rightarrow> d' commissioning_file = None
     | Inr m \<Rightarrow> is_valid m \<and> load_or_generate plain_material_codec sound_env (\<lambda>_. 0) 0 d' = Some (Inr m, d'))"
proof -
  have "material_faithful plain_material_codec" by (simp add: material_faithful_def plain_material_codec_def)
  from commissioning_material_stable [OF this demo_rng_ok, of sound_env Map.empty]
  obtain r d' where l: "load_or_generate plain_material_codec sound_env demo_rng 3840 Map.empty = Some (r, d')"
    and c: "case r of Inl _ \<Rightarrow> d' commissioning_file = None
     | Inr m \<Rightarrow> is_valid m \<and> (\<forall>env' rng' n'. \<not> op_fails env' (ReadFile commissioning_file) \<longrightarrow>
            load_or_generate plain_material_codec env' rng' n' d' = Some (Inr m, d'))"
    by auto
  show ?thesis using l c by (intro exI [of _ r] exI [of _ d']) (auto simp: sound_env_def split: sum.splits)
qed

text \<open>The stack and the shown pairing code are built from the same values: the commissioning data carries the
  passcode as four little-endian bytes, from which the passcode can be read back.\<close>

lemma passcode_bytes_round_trip:
  "from_le_bytes (comm_password (basic_comm_data m)) = passcode m \<and> length (comm_password (basic_comm_data m)) = 4 \<and>
   comm_discriminator (basic_comm_data m) = discriminator m"
proof -
  have "length (to_le_bytes w) = 4" for w by (simp add: to_le_bytes_def)
  then show ?thesis by (simp add: basic_comm_data_def from_to_le_bytes)
qed

end
