(* ===== verification/On_Off_Map.thy ===== *)
theory On_Off_Map
  imports Catalog_Model
begin

text \<open>
  \<open>bridge/src/matter/on_off_map.rs\<close>: reading Home Assistant states as on/off, the command a
  controller's change becomes, which exports are published, and the service a command maps to.
\<close>

section \<open>States\<close>

definition on_words :: "string list" where
  "on_words = [''on'', ''true'', ''1'', ''open'', ''home'', ''locked'']"

definition off_words :: "string list" where
  "off_words = [''off'', ''false'', ''0'', ''closed'', ''not_home'', ''unlocked'']"

definition ha_state_is_on :: "string \<Rightarrow> bool option" where
  "ha_state_is_on s =
     (let w = to_ascii_lowercase (trim s)
      in if w \<in> set on_words then Some True
         else if w \<in> set off_words then Some False
         else None)"

definition on_off_command :: "uuid \<Rightarrow> bool \<Rightarrow> command_request" where
  "on_off_command i on =
     \<lparr>cmd_export_id = i, cmd_kind = CmdOnOff, cmd_on = Some on, cmd_level = None, cmd_position = None\<rparr>"

definition primary_state :: "export \<Rightarrow> ha_state_value list \<Rightarrow> ha_state_value option" where
  "primary_state e states = List.find (\<lambda>st. entity_id st = primary_entity_id e) states"

definition on_off_from_states :: "export \<Rightarrow> ha_state_value list \<Rightarrow> bool option" where
  "on_off_from_states e states =
     (if \<not> is_on_off_capable (ex_type e) then None
      else Option.bind (primary_state e states) (\<lambda>st. ha_state_is_on (ha_state st)))"

section \<open>Which exports are published\<close>

definition is_matter_on_off_export :: "export \<Rightarrow> bool" where
  "is_matter_on_off_export e \<longleftrightarrow> enabled e \<and> is_on_off_capable (ex_type e)"

definition is_matter_bridged_export :: "export \<Rightarrow> bool" where
  "is_matter_bridged_export e \<longleftrightarrow>
     enabled e \<and> ex_type e \<in> {Light, OnOffSwitch, OnOffPlug, Outlet, Contact, Motion, Cover, Garage}"

definition on_off_device_types :: "device_type list" where
  "on_off_device_types = [Light, OnOffSwitch, OnOffPlug, Outlet]"

section \<open>Services\<close>

definition ha_service_for_on_off :: "string \<Rightarrow> bool \<Rightarrow> string \<times> string" where
  "ha_service_for_on_off entity on =
     (let dom = split_first (CHR ''.'') entity;
          service = (if on then ''turn_on'' else ''turn_off'')
      in if dom = ''light'' then (''light'', service)
         else if dom = ''input_boolean'' then (''input_boolean'', service)
         else if dom = ''cover'' then (if on then (''cover'', ''open_cover'') else (''cover'', ''close_cover''))
         else (''switch'', service))"

section \<open>Facts\<close>

lemma is_matter_bridged_export_iff [simp]: "is_matter_bridged_export e \<longleftrightarrow> enabled e"
  by (cases "ex_type e") (simp_all add: is_matter_bridged_export_def)

lemma on_off_device_types_capable: "set on_off_device_types = {t. is_on_off_capable t}"
  by (auto simp: on_off_device_types_def is_on_off_capable_iff)

text \<open>The bytes of a word: printable ASCII, so that no white space begins or ends with one.\<close>

definition word_byte :: "char \<Rightarrow> bool" where
  "word_byte c \<longleftrightarrow> (let n = of_char c :: nat in 33 \<le> n \<and> n \<le> 126)"

lemma whitespace_no_word_byte: "\<forall>w \<in> set whitespace_codes. \<not> word_byte (hd w) \<and> \<not> word_byte (last w)"
  by code_simp

lemma lowercase_word_byte:
  "list_all word_byte (to_ascii_lowercase w) \<longleftrightarrow> list_all word_byte w"
  by (induction w) (auto simp: to_ascii_lowercase_def word_byte_def Let_def)

lemma trim_word:
  assumes "whitespace a" "whitespace b" "w \<noteq> []" "list_all word_byte (to_ascii_lowercase w)"
  shows "trim (a @ w @ b) = w"
proof -
  have "list_all word_byte w" using assms(4) by (simp add: lowercase_word_byte)
  then have "word_byte (hd w)" "word_byte (last w)"
    using assms(3) by (auto simp: list_all_iff)
  then show ?thesis
    using whitespace_no_word_byte by (intro trim_pad [OF assms(1-3)]) auto
qed

lemma state_words_word_bytes: "list_all (list_all word_byte) (on_words @ off_words)" "[] \<notin> set (on_words @ off_words)"
  by code_simp+

lemma trimmed_word_iff:
  assumes "list_all word_byte v" "v \<noteq> []"
  shows "to_ascii_lowercase (trim s) = v \<longleftrightarrow>
    (\<exists>a w b. s = a @ w @ b \<and> whitespace a \<and> whitespace b \<and> to_ascii_lowercase w = v)"
proof
  show "to_ascii_lowercase (trim s) = v \<Longrightarrow>
    \<exists>a w b. s = a @ w @ b \<and> whitespace a \<and> whitespace b \<and> to_ascii_lowercase w = v"
    using trim_decomp [of s] by blast
next
  assume "\<exists>a w b. s = a @ w @ b \<and> whitespace a \<and> whitespace b \<and> to_ascii_lowercase w = v"
  then show "to_ascii_lowercase (trim s) = v" using assms trim_word by fastforce
qed

lemma on_off_words_disjoint: "set on_words \<inter> set off_words = {}"
  by (simp add: on_words_def off_words_def)

lemma ha_state_is_on_Some:
  "ha_state_is_on s = Some b \<longleftrightarrow>
     to_ascii_lowercase (trim s) \<in> (if b then set on_words else set off_words)"
  using on_off_words_disjoint by (auto simp: ha_state_is_on_def Let_def split: if_splits)

lemma words_nonempty: "v \<in> set on_words \<or> v \<in> set off_words \<Longrightarrow> list_all word_byte v \<and> v \<noteq> []"
  using state_words_word_bytes by (auto simp: list_all_iff)

section \<open>Properties\<close>

text \<open>A Home Assistant state reads as on exactly when it is one of the on-words in any case, padded by any
  Unicode white space, as off exactly for the off-words, and every other state is neither.\<close>

lemma ha_state_is_on_words:
  "ha_state_is_on s = Some b \<longleftrightarrow>
     (\<exists>a w c. s = a @ w @ c \<and> whitespace a \<and> whitespace c \<and>
        to_ascii_lowercase w \<in> (if b then set on_words else set off_words))"
proof -
  have "to_ascii_lowercase (trim s) \<in> set ws \<longleftrightarrow>
    (\<exists>a w c. s = a @ w @ c \<and> whitespace a \<and> whitespace c \<and> to_ascii_lowercase w \<in> set ws)"
    if "ws = on_words \<or> ws = off_words" for ws
    using that words_nonempty trimmed_word_iff [of _ s] by metis
  then show ?thesis by (simp add: ha_state_is_on_Some)
qed

text \<open>Only the primary entity drives an on/off export: what other entities (battery, brightness, position)
  report before or after it never matters, and an export of another type is never driven.\<close>

lemma on_off_primary_only:
  assumes "\<forall>st \<in> set others. entity_id st \<noteq> primary_entity_id e" and "entity_id p = primary_entity_id e"
  shows "on_off_from_states e (others @ p # rest) =
      (if is_on_off_capable (ex_type e) then ha_state_is_on (ha_state p) else None) \<and>
    on_off_from_states e others = None"
proof -
  have "primary_state e (others @ p # rest) = Some p" "primary_state e others = None"
    using assms by (induction others) (auto simp: primary_state_def)
  then show ?thesis by (simp add: on_off_from_states_def)
qed

lemma on_off_primary_only_witness:
  "on_off_from_states \<lparr>export_id = 1, ex_name = ''Lamp'', ex_type = Light, primary_entity_id = ''light.a'',
       linked = [(''battery'', ''sensor.b'')], area_id = None, enabled = True, endpoint_id = Some 1\<rparr>
     [\<lparr>entity_id = ''sensor.b'', ha_state = ''0'', attributes = []\<rparr>,
      \<lparr>entity_id = ''light.a'', ha_state = ''on'', attributes = []\<rparr>] = Some True"
proof -
  let ?e = "\<lparr>export_id = 1, ex_name = ''Lamp'', ex_type = Light, primary_entity_id = ''light.a'',
       linked = [(''battery'', ''sensor.b'')], area_id = None, enabled = True, endpoint_id = Some 1\<rparr>"
  have "ha_state_is_on ''on'' = Some True" by code_simp
  with on_off_primary_only [of "[\<lparr>entity_id = ''sensor.b'', ha_state = ''0'', attributes = []\<rparr>]" ?e
      "\<lparr>entity_id = ''light.a'', ha_state = ''on'', attributes = []\<rparr>" "[]"]
  show ?thesis by (simp add: is_on_off_capable_def)
qed

end
