(* ===== verification/Dev_Backend.thy ===== *)
theory Dev_Backend
  imports Backend_Contract Commissioning On_Off_Map Timed_Window "HOL-Library.List_Lexorder" "HOL-Library.Char_ord"
begin

text \<open>
  \<open>matter/dev.rs\<close>: the offline backend. Its window is a deadline with a generation counter; every
  opening spawns a task that sleeps and then closes the window if the generation is still its own. The
  sleeping tasks are part of the state (\<open>dv_timers\<close>, the generations they carry); the last section
  takes opening, closing and such a task apart into their atomic accesses.
\<close>

section \<open>The window\<close>

record window_state =
  ws_deadline :: u64
  ws_generation :: u64

definition ws_new_open_startup :: "u64 \<Rightarrow> window_state" where
  "ws_new_open_startup now =
     \<lparr>ws_deadline = deadline_after now STARTUP_PAIRING_TIMEOUT_SECS, ws_generation = 0\<rparr>"

definition ws_is_open :: "u64 \<Rightarrow> window_state \<Rightarrow> bool" where
  "ws_is_open now w \<longleftrightarrow> (let d = ws_deadline w in d \<noteq> 0 \<and> now < d)"

definition ws_open :: "u64 \<Rightarrow> u16 \<Rightarrow> window_state \<Rightarrow> u64 \<times> window_state" where
  "ws_open now t w =
     (let g = ws_generation w + 1
      in (g, w\<lparr>ws_generation := g, ws_deadline := deadline_after now (ucast t)\<rparr>))"

definition ws_close :: "window_state \<Rightarrow> window_state" where
  "ws_close w = w\<lparr>ws_generation := ws_generation w + 1, ws_deadline := 0\<rparr>"

text \<open>The task of \<open>schedule_expiry\<close> after its sleep.\<close>

definition ws_expire :: "u64 \<Rightarrow> window_state \<Rightarrow> window_state" where
  "ws_expire g w = (if ws_generation w = g then w\<lparr>ws_deadline := 0\<rparr> else w)"

interpretation dev_window: timed_window ws_deadline ws_is_open "\<lambda>now t w. snd (ws_open now t w)" ws_close
  by unfold_locales (simp_all add: ws_is_open_def deadline_open_def ws_open_def ws_close_def Let_def)

section \<open>The backend\<close>

record dev_backend =
  dv_running :: bool
  dv_window :: window_state
  dv_timers :: "u64 list"
  dv_exports :: "export list"
  dv_entity_state :: "(string, ha_state_value) btree"
  dv_commands :: "command_request list"
  dv_error :: "string option"
  dv_pairing :: pairing_material

text \<open>\<open>DevMatterBackend::new\<close>: \<open>None\<close> when the passcode loop does not end.\<close>

definition dev_new ::
  "'t material_codec \<Rightarrow> 't fs_env \<Rightarrow> (nat \<Rightarrow> u32) \<Rightarrow> u16 \<Rightarrow> (commissioning_material \<Rightarrow> pairing_material) \<Rightarrow> u64 \<Rightarrow> 't disk \<Rightarrow>
     ((commissioning_error + dev_backend) \<times> 't disk) option" where
  "dev_new c env rng n codes now d =
     map_option (\<lambda>(r, d'). (map_sum id (\<lambda>m.
         \<lparr>dv_running = False, dv_window = ws_new_open_startup now, dv_timers = [], dv_exports = [],
          dv_entity_state = [], dv_commands = [], dv_error = None, dv_pairing = codes m\<rparr>) r, d'))
       (load_or_generate c env rng n d)"

definition schedule_expiry :: "u64 \<Rightarrow> dev_backend \<Rightarrow> dev_backend" where
  "schedule_expiry g b = b\<lparr>dv_timers := dv_timers b @ [g]\<rparr>"

definition dev_push_command :: "command_request \<Rightarrow> dev_backend \<Rightarrow> dev_backend" where
  "dev_push_command c b = b\<lparr>dv_commands := dv_commands b @ [c]\<rparr>"

definition simulate_controller_on_off :: "uuid \<Rightarrow> bool \<Rightarrow> dev_backend \<Rightarrow> dev_backend" where
  "simulate_controller_on_off i on b = dev_push_command (on_off_command i on) b"

definition dev_entity_state :: "string \<Rightarrow> dev_backend \<Rightarrow> ha_state_value option" where
  "dev_entity_state e b = bt_get (dv_entity_state b) e"

text \<open>\<open>start\<close>: \<open>dir\<close> is the outcome of \<open>create_dir_all\<close>.\<close>

definition dev_start :: "string + unit \<Rightarrow> u64 \<Rightarrow> dev_backend \<Rightarrow> (string + unit) \<times> dev_backend" where
  "dev_start dir now b =
     (case dir of
        Inl e \<Rightarrow> (Inl e, b)
      | Inr _ \<Rightarrow>
          let b = b\<lparr>dv_running := True\<rparr>
          in if \<not> ws_is_open now (dv_window b)
             then let (g, w) = ws_open now (ucast STARTUP_PAIRING_TIMEOUT_SECS) (dv_window b)
                  in (Inr (), schedule_expiry g (b\<lparr>dv_window := w\<rparr>))
             else (Inr (), b))"

definition dev_open_pairing_window :: "u64 \<Rightarrow> u16 \<Rightarrow> dev_backend \<Rightarrow> (string + unit) \<times> dev_backend" where
  "dev_open_pairing_window now t b =
     (let timeout = clamp_pairing_timeout t;
          (g, w) = ws_open now timeout (dv_window b)
      in (Inr (), schedule_expiry g (b\<lparr>dv_window := w\<rparr>)))"

definition dev_close_pairing_window :: "dev_backend \<Rightarrow> (string + unit) \<times> dev_backend" where
  "dev_close_pairing_window b = (Inr (), b\<lparr>dv_window := ws_close (dv_window b)\<rparr>)"

definition dev_set_exports :: "export list \<Rightarrow> dev_backend \<Rightarrow> (string + unit) \<times> dev_backend" where
  "dev_set_exports es b = (Inr (), b\<lparr>dv_exports := es\<rparr>)"

fun dev_apply_loop ::
  "ha_state_value list \<Rightarrow> u32 \<Rightarrow> (string, ha_state_value) btree \<Rightarrow> u32 \<times> (string, ha_state_value) btree" where
  "dev_apply_loop [] applied m = (applied, m)"
| "dev_apply_loop (st # sts) applied m = dev_apply_loop sts (applied + 1) (bt_insert (entity_id st) st m)"

definition dev_apply_state :: "uuid \<Rightarrow> ha_state_value list \<Rightarrow> dev_backend \<Rightarrow> (string + u32) \<times> dev_backend" where
  "dev_apply_state i sts b =
     (case List.find (\<lambda>e. export_id e = i) (dv_exports b) of
        None \<Rightarrow> (Inr 0, b)
      | Some e \<Rightarrow>
          let (applied, m) = dev_apply_loop sts 0 (dv_entity_state b)
          in (Inr applied, b\<lparr>dv_entity_state := m\<rparr>))"

definition dev_take_commands :: "dev_backend \<Rightarrow> command_request list \<times> dev_backend" where
  "dev_take_commands b = (dv_commands b, b\<lparr>dv_commands := []\<rparr>)"

text \<open>The implementation of the trait, at a time and an outcome of \<open>create_dir_all\<close>.\<close>

definition dev_ops :: "string + unit \<Rightarrow> u64 \<Rightarrow> dev_backend backend_ops" where
  "dev_ops dir now =
     \<lparr>be_kind = BackendDev, be_start = dev_start dir now, be_is_running = dv_running,
      be_pairing_open = (\<lambda>b. ws_is_open now (dv_window b)),
      be_open_pairing_window = dev_open_pairing_window now, be_close_pairing_window = dev_close_pairing_window,
      be_commissioned_fabrics = (\<lambda>_. 0), be_set_exports = dev_set_exports, be_apply_state = dev_apply_state,
      be_take_commands = dev_take_commands, be_pairing_info = dv_pairing, be_status_error = dv_error\<rparr>"

section \<open>The contract\<close>

lemma dev_apply_loop_count: "fst (dev_apply_loop sts n m) = n + of_nat (length sts)"
  by (induction sts arbitrary: n m) (simp_all add: algebra_simps)

lemma dev_apply_loop_map:
  "snd (dev_apply_loop sts n m) = fold (\<lambda>st. bt_insert (entity_id st) st) sts m"
  by (induction sts arbitrary: n m) simp_all

definition dev_known :: "dev_backend \<Rightarrow> uuid set" where
  "dev_known b = export_id ` set (dv_exports b)"

lemma dev_apply_known:
  "i \<in> dev_known b \<Longrightarrow> fst (dev_apply_state i sts b) = Inr (of_nat (length sts))"
  by (auto simp: dev_apply_state_def dev_known_def dev_apply_loop_count find_None_iff split: option.splits prod.splits
      dest: arg_cong [where f = fst])

lemma dev_apply_unknown: "i \<notin> dev_known b \<Longrightarrow> dev_apply_state i sts b = (Inr 0, b)"
proof -
  assume "i \<notin> dev_known b"
  then have "List.find (\<lambda>e. export_id e = i) (dv_exports b) = None" by (auto simp: find_None_iff dev_known_def)
  then show ?thesis by (simp add: dev_apply_state_def)
qed

lemma dev_apply_frame:
  "dv_exports (snd (dev_apply_state i sts b)) = dv_exports b"
  "dv_commands (snd (dev_apply_state i sts b)) = dv_commands b"
  by (simp_all add: dev_apply_state_def split: option.splits prod.splits)

interpretation dev_contract: backend_contract "dev_ops dir now" dev_known dv_commands "\<lambda>_. True" for dir now
  by unfold_locales
    (simp_all add: dev_ops_def dev_set_exports_def dev_known_def dev_apply_known [unfolded dev_known_def]
      dev_apply_unknown [unfolded dev_known_def] dev_apply_frame dev_take_commands_def dev_open_pairing_window_def
      dev_close_pairing_window_def schedule_expiry_def split: prod.splits)

section \<open>The window, access by access\<close>

text \<open>
  \<open>WindowState::open\<close> and \<open>close\<close> increment the generation and then store the deadline, and a sleeping task
  first loads the generation and compares it, then stores 0: two atomic accesses each, between which other
  threads run. \<open>entered\<close> holds the openings past their increment (generation and timeout), \<open>stored\<close> the
  generations of those past their store, whose task is not spawned yet, \<open>closing\<close> the number of closings past
  their increment, \<open>sleeping\<close> the generations of the tasks still asleep, \<open>matched\<close> those of the tasks past a
  successful comparison. The counter is taken not to wrap (it counts openings and closings in 64 bits).
\<close>

record window_sys =
  win :: window_state
  entered :: "(u64 \<times> u16) list"
  stored :: "u64 list"
  closing :: nat
  sleeping :: "u64 list"
  matched :: "u64 list"

text \<open>An opening that nothing interferes with.\<close>

definition sys_open :: "u64 \<Rightarrow> u16 \<Rightarrow> window_sys \<Rightarrow> window_sys" where
  "sys_open now t s = (let (g, w) = ws_open now t (win s) in s\<lparr>win := w, sleeping := g # sleeping s\<rparr>)"

inductive timer_step :: "window_sys \<Rightarrow> window_sys \<Rightarrow> bool" where
  stale: "g \<in> set (sleeping s) \<Longrightarrow> ws_generation (win s) \<noteq> g \<Longrightarrow> timer_step s (s\<lparr>sleeping := remove1 g (sleeping s)\<rparr>)"
| match: "g \<in> set (sleeping s) \<Longrightarrow> ws_generation (win s) = g \<Longrightarrow>
     timer_step s (s\<lparr>sleeping := remove1 g (sleeping s), matched := g # matched s\<rparr>)"
| expire: "g \<in> set (matched s) \<Longrightarrow>
     timer_step s (s\<lparr>win := (win s)\<lparr>ws_deadline := 0\<rparr>, matched := remove1 g (matched s)\<rparr>)"

inductive window_step :: "window_sys \<Rightarrow> window_sys \<Rightarrow> bool" where
  open_enter: "ws_generation (win s) \<noteq> - 1 \<Longrightarrow> g = ws_generation (win s) + 1 \<Longrightarrow>
     window_step s (s\<lparr>win := (win s)\<lparr>ws_generation := g\<rparr>, entered := (g, t) # entered s\<rparr>)"
| open_store: "(g, t) \<in> set (entered s) \<Longrightarrow>
     window_step s (s\<lparr>win := (win s)\<lparr>ws_deadline := deadline_after now (ucast t)\<rparr>,
       entered := remove1 (g, t) (entered s), stored := g # stored s\<rparr>)"
| open_schedule: "g \<in> set (stored s) \<Longrightarrow>
     window_step s (s\<lparr>stored := remove1 g (stored s), sleeping := g # sleeping s\<rparr>)"
| close_enter: "ws_generation (win s) \<noteq> - 1 \<Longrightarrow>
     window_step s (s\<lparr>win := (win s)\<lparr>ws_generation := ws_generation (win s) + 1\<rparr>, closing := Suc (closing s)\<rparr>)"
| close_store: "closing s = Suc n \<Longrightarrow> window_step s (s\<lparr>win := (win s)\<lparr>ws_deadline := 0\<rparr>, closing := n\<rparr>)"
| timer: "timer_step s s' \<Longrightarrow> window_step s s'"

inductive window_reachable :: "window_sys \<Rightarrow> bool" where
  start: "window_reachable \<lparr>win = ws_new_open_startup now, entered = [], stored = [], closing = 0, sleeping = [], matched = []\<rparr>"
| step: "window_reachable s \<Longrightarrow> window_step s s' \<Longrightarrow> window_reachable s'"

lemma sys_open_steps:
  assumes "ws_generation (win s) \<noteq> - 1"
  shows "window_step\<^sup>*\<^sup>* s (sys_open now t s)"
proof -
  define g where "g = ws_generation (win s) + 1"
  define s1 where "s1 = s\<lparr>win := (win s)\<lparr>ws_generation := g\<rparr>, entered := (g, t) # entered s\<rparr>"
  define s2 where "s2 = s1\<lparr>win := (win s1)\<lparr>ws_deadline := deadline_after now (ucast t)\<rparr>,
    entered := remove1 (g, t) (entered s1), stored := g # stored s1\<rparr>"
  have "window_step s s1" unfolding s1_def using open_enter [OF assms g_def] .
  moreover have "window_step s1 s2" unfolding s2_def by (rule open_store) (simp add: s1_def)
  moreover have "window_step s2 (s2\<lparr>stored := remove1 g (stored s2), sleeping := g # sleeping s2\<rparr>)"
    by (rule open_schedule) (simp add: s2_def)
  moreover have "s2\<lparr>stored := remove1 g (stored s2), sleeping := g # sleeping s2\<rparr> = sys_open now t s"
    by (simp add: s2_def s1_def g_def sys_open_def ws_open_def Let_def)
  ultimately show ?thesis by (metis rtranclp.simps)
qed

lemma window_reachable_steps: "window_step\<^sup>*\<^sup>* s s' \<Longrightarrow> window_reachable s \<Longrightarrow> window_reachable s'"
  by (induction rule: rtranclp_induct) (auto intro: window_reachable.step)

inductive_cases timer_stepE: "timer_step s s'"

definition generations :: "window_sys \<Rightarrow> u64 list" where
  "generations s = map fst (entered s) @ stored s @ sleeping s @ matched s"

definition timers_inv :: "window_sys \<Rightarrow> bool" where
  "timers_inv s \<longleftrightarrow> distinct (generations s) \<and> (\<forall>g \<in> set (generations s). g \<le> ws_generation (win s))"

lemma map_fst_remove1:
  "distinct (map fst xs) \<Longrightarrow> (g, t) \<in> set xs \<Longrightarrow> map fst (remove1 (g, t) xs) = remove1 g (map fst xs)"
proof (induction xs)
  case (Cons x xs)
  then show ?case by (cases "fst x = g") (auto simp: rev_image_eqI image_iff)
qed simp

lemma next_generation: "g \<noteq> - 1 \<Longrightarrow> (h :: u64) \<le> g \<Longrightarrow> h < g + 1"
proof -
  assume g: "g \<noteq> - 1" and le: "h \<le> g"
  have max: "unat (- 1 :: u64) = 2 ^ 64 - 1" by (simp add: unsigned_minus_1_eq_mask mask_eq_exp_minus_1)
  have "unat g \<noteq> 2 ^ 64 - 1"
  proof
    assume "unat g = 2 ^ 64 - 1"
    then have "unat g = unat (- 1 :: u64)" by (simp only: max)
    then have "g = - 1" by (rule word_eq_unatI)
    with g show False by contradiction
  qed
  moreover have "unat g < 2 ^ 64" by (rule order_less_le_trans [OF unsigned_less]) simp
  ultimately have "unat (g + 1) = unat g + 1" by (simp add: unat_word_ariths)
  with le show ?thesis by (simp add: word_less_nat_alt word_le_nat_alt)
qed

lemma timers_inv_bump:
  assumes "timers_inv s" and "ws_generation (win s) \<noteq> - 1"
  shows "\<forall>h \<in> set (generations s). h < ws_generation (win s) + 1"
  using assms by (auto simp: timers_inv_def intro: next_generation)

lemmas generation_simps = timers_inv_def generations_def distinct_remove1 set_remove1_eq

lemma timers_inv_step: "window_step s s' \<Longrightarrow> timers_inv s \<Longrightarrow> timers_inv s'"
proof (induction rule: window_step.induct)
  case (open_enter s g t)
  note lt = timers_inv_bump [OF open_enter.prems open_enter.hyps(1)]
  then have "g \<notin> set (generations s)" using open_enter.hyps(2) by blast
  with lt open_enter.prems show ?case by (auto simp: generation_simps open_enter.hyps(2) less_imp_le)
next
  case (open_store g t s now)
  have "distinct (map fst (entered s))" using open_store.prems by (simp add: timers_inv_def generations_def)
  note rm = map_fst_remove1 [OF this open_store.hyps]
  have "g \<in> fst ` set (entered s)" using open_store.hyps by force
  with open_store.prems show ?case
    unfolding timers_inv_def generations_def by (simp add: rm set_remove1_eq distinct_remove1) blast
next
  case (open_schedule g s)
  then show ?case by (auto simp: generation_simps)
next
  case (close_enter s)
  from timers_inv_bump [OF close_enter.prems close_enter.hyps] close_enter.prems show ?case
    by (auto simp: generation_simps less_imp_le)
next
  case (close_store s n)
  then show ?case by (simp add: timers_inv_def generations_def)
next
  case (timer s s')
  from timer(1) timer(2) show ?case
    by (induction rule: timer_step.induct) (auto simp: generation_simps)
qed

lemma window_reachable_inv: "window_reachable s \<Longrightarrow> timers_inv s"
proof (induction rule: window_reachable.induct)
  case (start now)
  show ?case by (simp add: timers_inv_def generations_def)
next
  case (step s s')
  from step.hyps(2) step.IH show ?case by (rule timers_inv_step)
qed

lemma timers_keep_open:
  assumes "timer_step\<^sup>*\<^sup>* s0 s" and "distinct (sleeping s0)" and "matched s0 = []" and "ws_generation (win s0) = g"
  shows "distinct (sleeping s) \<and> ws_generation (win s) = g \<and>
    (g \<in> set (sleeping s) \<longrightarrow> matched s = [] \<and> win s = win s0)"
  using assms(1)
proof (induction rule: rtranclp_induct)
  case base
  with assms show ?case by simp
next
  case (step s s')
  from step.hyps(2) step.IH show ?case
    by (elim timer_stepE) (auto dest: notin_set_remove1 set_remove1_subset [THEN subsetD])
qed

text \<open>C38: The generation keeps older expiry tasks away from a newer window: in every reachable state in which no
  task stands between its comparison and its store, a window that is opened, with nothing between the accesses of
  the opening, is open exactly until its timeout, whatever other tasks wake up, as long as its own task is asleep
  and nothing else opens or closes it.\<close>

theorem older_timers_keep_window:
  assumes "window_reachable s" and "matched s = []" and "ws_generation (win s) \<noteq> - 1"
    and "timer_step\<^sup>*\<^sup>* (sys_open now t s) s'" and "ws_generation (win s) + 1 \<in> set (sleeping s')"
    and "0 < unat t" and "unat now + unat t < 2 ^ 64"
  shows "ws_is_open now' (win s') \<longleftrightarrow> unat now' < unat now + unat t"
proof -
  have "timers_inv (sys_open now t s)"
    by (rule window_reachable_inv [OF window_reachable_steps [OF sys_open_steps [OF assms(3)] assms(1)]])
  then have "distinct (sleeping (sys_open now t s))" by (simp add: timers_inv_def generations_def)
  moreover have "matched (sys_open now t s) = []" "ws_generation (win (sys_open now t s)) = ws_generation (win s) + 1"
    using assms(2) by (simp_all add: sys_open_def ws_open_def Let_def)
  ultimately have "win s' = win (sys_open now t s)"
    using timers_keep_open [OF assms(4)] assms(5) by blast
  then have "win s' = snd (ws_open now t (win s))" by (simp add: sys_open_def split: prod.splits)
  with dev_window.opened_until [OF assms(6,7)] show ?thesis by simp
qed

definition startup_sys :: window_sys where
  "startup_sys = \<lparr>win = ws_new_open_startup 0, entered = [], stored = [], closing = 0, sleeping = [], matched = []\<rparr>"

definition first_opened :: window_sys where
  "first_opened = sys_open 1000 180 startup_sys"

lemma first_opened_reachable: "window_reachable first_opened"
proof -
  have "window_reachable startup_sys" unfolding startup_sys_def by (rule window_reachable.start)
  moreover have "ws_generation (win startup_sys) \<noteq> - 1" by (simp add: startup_sys_def ws_new_open_startup_def)
  ultimately show ?thesis
    unfolding first_opened_def using window_reachable_steps [OF sys_open_steps] by blast
qed

lemma first_opened_fields: "ws_generation (win first_opened) = 1" "sleeping first_opened = [1]" "matched first_opened = []"
  by (simp_all add: first_opened_def startup_sys_def sys_open_def ws_open_def ws_new_open_startup_def)

theorem older_timers_keep_window_witness:
  "\<exists>s'. timer_step (sys_open 1100 300 first_opened) s' \<and> ws_is_open 1399 (win s') \<and> \<not> ws_is_open 1400 (win s')"
proof -
  define s1 where "s1 = sys_open 1100 300 first_opened"
  define s' where "s' = s1\<lparr>sleeping := remove1 1 (sleeping s1)\<rparr>"
  have f: "sleeping s1 = [2, 1]" "ws_generation (win s1) = 2"
    by (simp_all add: s1_def sys_open_def ws_open_def first_opened_fields)
  have t: "timer_step s1 s'" unfolding s'_def by (rule stale) (simp_all add: f)
  have "timer_step\<^sup>*\<^sup>* (sys_open 1100 300 first_opened) s'" using t by (simp add: s1_def)
  moreover have "ws_generation (win first_opened) + 1 \<in> set (sleeping s')"
    by (simp add: first_opened_fields s'_def f)
  moreover have "ws_generation (win first_opened) \<noteq> - 1" by (simp add: first_opened_fields)
  ultimately have "ws_is_open n (win s') \<longleftrightarrow> unat n < 1400" for n
    using older_timers_keep_window [OF first_opened_reachable first_opened_fields(3), of 1100 300 s' n] by simp
  with t show ?thesis unfolding s1_def [symmetric] by (intro exI [of _ s']) simp
qed

text \<open>A task that has compared its generation and not yet stored is not kept away: there is a reachable state with
  a window of generation 2 open and its own task asleep in which the task of generation 1 closes it.\<close>

lemma expiry_check_then_store_race:
  "\<exists>s s'. window_reachable s \<and> timer_step s s' \<and> ws_generation (win s) = 2 \<and> 2 \<in> set (sleeping s') \<and>
     matched s = [1] \<and> ws_is_open 1200 (win s) \<and> \<not> ws_is_open 1200 (win s')"
proof -
  define s1 where "s1 = first_opened\<lparr>sleeping := remove1 1 (sleeping first_opened), matched := 1 # matched first_opened\<rparr>"
  define s2 where "s2 = sys_open 1180 300 s1"
  define s3 where "s3 = s2\<lparr>win := (win s2)\<lparr>ws_deadline := 0\<rparr>, matched := remove1 1 (matched s2)\<rparr>"
  have "timer_step first_opened s1" unfolding s1_def by (rule match) (simp_all add: first_opened_fields)
  then have "window_step first_opened s1" by (rule timer)
  with first_opened_reachable have "window_reachable s1" by (rule window_reachable.step)
  moreover have "ws_generation (win s1) \<noteq> - 1" by (simp add: s1_def first_opened_fields)
  ultimately have r: "window_reachable s2"
    unfolding s2_def using window_reachable_steps [OF sys_open_steps] by blast
  have f: "ws_generation (win s2) = 2" "sleeping s2 = [2]" "matched s2 = [1]"
    by (simp_all add: s2_def s1_def sys_open_def ws_open_def first_opened_fields)
  have "timer_step s2 s3" unfolding s3_def by (rule expire) (simp add: f)
  moreover have "win s2 = snd (ws_open 1180 300 (win s1))" by (simp add: s2_def sys_open_def split: prod.splits)
  then have "ws_is_open 1200 (win s2)" using dev_window.opened_until [of 300 1180 1200 "win s1"] by simp
  moreover have "\<not> ws_is_open 1200 (win s3)" by (simp add: s3_def ws_is_open_def)
  ultimately show ?thesis using r f by (intro exI [of _ s2] exI [of _ s3]) (simp add: s3_def)
qed

end
