(* ===== verification/Clusters.thy ===== *)
theory Clusters
  imports On_Off_Map
begin

text \<open>
  The cluster side of the bridge: \<open>matter/clusters/*.rs\<close> and \<open>matter/device_types.rs\<close>.
  Identifiers and flag values that the Matter library declares (cluster, attribute and command ids,
  feature bits) are symbols here; the bridge only compares and forwards them. The one place where
  bits matter, the operational status, takes the library's mask of known flags as an argument.
\<close>

section \<open>Identifiers\<close>

datatype cluster_id = CDesc | CBridgedInfo | COnOff | CBooleanState | COccupancy | CWindowCovering | COther u32

datatype attr_id =
    ADeviceTypeList | ANodeLabel | AUniqueId | AReachable | AOnOff | AStateValue
  | AOccupancy | AOccupancySensorType | AOccupancySensorTypeBitmap
  | AType | AConfigStatus | AOperationalStatus | AEndProductType | AMode
  | ACurrentPositionLiftPercent100ths | ATargetPositionLiftPercent100ths | AOther u32

datatype command_id =
    MOff | MOn | MToggle | MOffWithEffect | MOnWithRecallGlobalScene | MOnWithTimedOff
  | MUpOrOpen | MDownOrClose | MStopMotion | MGoToLiftPercentage | MGoToLiftValue | MGoToTiltValue
  | MGoToTiltPercentage | MKeepActive

datatype error_code =
    ConstraintError | EndpointNotFound | ClusterNotFound | AttributeNotFound | CommandNotFound

text \<open>
  A cluster as an endpoint declares it: whether the mandatory attributes are on, the optional
  attributes and the commands it adds. No events anywhere.
\<close>

record cluster =
  cl_id :: cluster_id
  cl_required :: bool
  cl_attrs :: "attr_id list"
  cl_cmds :: "command_id list"

definition desc_cluster :: cluster where
  "desc_cluster = \<lparr>cl_id = CDesc, cl_required = True, cl_attrs = [], cl_cmds = []\<rparr>"

definition bridged_info_cluster :: cluster where
  "bridged_info_cluster = \<lparr>cl_id = CBridgedInfo, cl_required = True, cl_attrs = [ANodeLabel], cl_cmds = []\<rparr>"

definition on_off_cluster :: cluster where
  "on_off_cluster = \<lparr>cl_id = COnOff, cl_required = True, cl_attrs = [], cl_cmds = [MOff, MOn, MToggle]\<rparr>"

definition boolean_state_cluster :: cluster where
  "boolean_state_cluster = \<lparr>cl_id = CBooleanState, cl_required = True, cl_attrs = [], cl_cmds = []\<rparr>"

definition occupancy_cluster :: cluster where
  "occupancy_cluster = \<lparr>cl_id = COccupancy, cl_required = True, cl_attrs = [], cl_cmds = []\<rparr>"

definition window_covering_cluster :: cluster where
  "window_covering_cluster =
     \<lparr>cl_id = CWindowCovering, cl_required = True,
      cl_attrs = [ACurrentPositionLiftPercent100ths, ATargetPositionLiftPercent100ths],
      cl_cmds = [MUpOrOpen, MDownOrClose, MStopMotion, MGoToLiftPercentage]\<rparr>"

subsection \<open>Device types\<close>

text \<open>The type number of a device: declared in the bridge, or one of the library's constants.\<close>

datatype dtype = Declared u16 | OnOffLightType | AggregatorType | BridgedNodeType

record matter_device_type =
  dev_dtype :: dtype
  dev_drev :: "u16 option"

definition dev_type_on_off_plug_in_unit :: matter_device_type where
  "dev_type_on_off_plug_in_unit = \<lparr>dev_dtype = Declared 0x010A, dev_drev = Some 3\<rparr>"

definition dev_type_contact_sensor :: matter_device_type where
  "dev_type_contact_sensor = \<lparr>dev_dtype = Declared 0x0015, dev_drev = Some 2\<rparr>"

definition dev_type_occupancy_sensor :: matter_device_type where
  "dev_type_occupancy_sensor = \<lparr>dev_dtype = Declared 0x0107, dev_drev = Some 4\<rparr>"

definition dev_type_window_covering :: matter_device_type where
  "dev_type_window_covering = \<lparr>dev_dtype = Declared 0x0202, dev_drev = Some 5\<rparr>"

definition library_device :: "dtype \<Rightarrow> matter_device_type" where
  "library_device t = \<lparr>dev_dtype = t, dev_drev = None\<rparr>"

section \<open>Window covering\<close>

definition ha_position_to_percent100ths :: "u8 \<Rightarrow> u16" where
  "ha_position_to_percent100ths p = (let ha = (ucast (min p 100) :: u16) in (100 - ha) * 100)"

definition percent100ths_to_ha_position :: "u16 \<Rightarrow> u8" where
  "percent100ths_to_ha_position x = (let p = min x 10000 in (ucast ((10000 - p) div 100) :: u8))"

definition validate_lift_percent100ths :: "u16 \<Rightarrow> error_code + u16" where
  "validate_lift_percent100ths x = (if x > 10000 then Inl ConstraintError else Inr x)"

datatype config_flag = Operational | LiftPositionAware

definition config_status :: "config_flag set" where
  "config_status = {Operational, LiftPositionAware}"

text \<open>\<open>OperationalStatus::from_bits_truncate\<close> drops the bits outside the library's flags.\<close>

definition operational_status :: "u8 \<Rightarrow> u8 \<Rightarrow> u8 \<Rightarrow> bool \<Rightarrow> u8" where
  "operational_status known_flags pos target moving =
     (if \<not> moving \<or> pos = target then 0
      else let direction = (if target > pos then 1 else 2)
           in (direction OR push_bit 2 direction) AND known_flags)"

datatype covering_type = RollerShadeType | ShutterType
datatype end_product = RollerShadeProduct | RollerShutterProduct

definition cover_type :: "bool \<Rightarrow> covering_type" where
  "cover_type is_garage = (if is_garage then ShutterType else RollerShadeType)"

definition end_product_type :: "bool \<Rightarrow> end_product" where
  "end_product_type is_garage = (if is_garage then RollerShutterProduct else RollerShadeProduct)"

definition cover_mode :: u8 where
  "cover_mode = 0"

definition accept_mode_write :: "u8 \<Rightarrow> error_code + unit" where
  "accept_mode_write bits = (if bits = 0 then Inr () else Inl ConstraintError)"

datatype cover_motion = Stopped | Opening | Closing

record cover_ha_state =
  ha_position :: "u8 option"
  ha_motion :: cover_motion

definition current_position_attr :: "ha_state_value \<Rightarrow> u64 option" where
  "current_position_attr value =
     Option.bind (bt_get (attributes value) ''current_position'') (\<lambda>v.
       case as_u64 v of
         Some n \<Rightarrow> Some n
       | None \<Rightarrow> (case map_option f64_as_u64 (as_f64 v) of
           Some n \<Rightarrow> Some n
         | None \<Rightarrow> Option.bind (as_str v) parse_u64))"

definition ha_cover_from_state :: "ha_state_value \<Rightarrow> cover_ha_state" where
  "ha_cover_from_state value =
     (let word = to_ascii_lowercase (trim (ha_state value));
          motion = (if word = ''opening'' then Opening else if word = ''closing'' then Closing else Stopped);
          pos = (case map_option (\<lambda>n. (ucast (min n 100) :: u8)) (current_position_attr value) of
                   Some p \<Rightarrow> Some p
                 | None \<Rightarrow> if word = ''open'' then Some 100 else if word = ''closed'' then Some 0 else None)
      in \<lparr>ha_position = pos, ha_motion = motion\<rparr>)"

section \<open>Boolean state and occupancy\<close>

definition state_value_from_ha_on :: "bool \<Rightarrow> bool" where
  "state_value_from_ha_on ha_on \<longleftrightarrow> \<not> ha_on"

datatype occupancy_flag = Occupied
datatype occupancy_sensor = PIR

definition occupancy_bitmap :: "bool \<Rightarrow> occupancy_flag set" where
  "occupancy_bitmap occupied = (if occupied then {Occupied} else {})"

definition sensor_type :: occupancy_sensor where
  "sensor_type = PIR"

definition sensor_type_bitmap :: "occupancy_sensor set" where
  "sensor_type_bitmap = {PIR}"

section \<open>Arithmetic of positions\<close>

lemma unat_min: "unat (min a b) = min (unat a) (unat (b :: 'a::len word))"
  by (simp add: min_def word_le_nat_alt)

lemma unat_percent: "unat (ha_position_to_percent100ths p) = (100 - min (unat p) 100) * 100"
proof -
  define h where "h = (ucast (min p 100) :: u16)"
  have h: "unat h = min (unat p) 100"
    by (simp add: h_def unat_min unat_ucast)
  then have s: "unat (100 - h) = 100 - min (unat p) 100"
    by (subst unat_sub) (simp_all add: word_le_nat_alt)
  have "unat ((100 - h) * 100) = (100 - min (unat p) 100) * 100"
    unfolding unat_word_ariths s by (simp add: mod_less)
  then show ?thesis by (simp add: ha_position_to_percent100ths_def h_def [symmetric])
qed

lemma unat_ha_position: "unat (percent100ths_to_ha_position x) = (10000 - min (unat x) 10000) div 100"
proof -
  define q where "q = min x (10000 :: u16)"
  have q: "unat q = min (unat x) 10000" by (simp add: q_def unat_min)
  then have "unat (10000 - q) = 10000 - min (unat x) 10000"
    by (subst unat_sub) (simp_all add: word_le_nat_alt)
  then have d: "unat ((10000 - q) div 100) = (10000 - min (unat x) 10000) div 100"
    by (simp add: unat_div)
  have "unat (ucast ((10000 - q) div 100) :: u8) = unat ((10000 - q) div 100) mod 256"
    by (simp add: unat_ucast)
  with d show ?thesis by (simp add: percent100ths_to_ha_position_def q_def [symmetric])
qed

lemma percent_range: "ha_position_to_percent100ths p \<le> 10000"
  by (simp add: word_le_nat_alt unat_percent)

lemma ha_position_range: "percent100ths_to_ha_position x \<le> 100"
  by (simp add: word_le_nat_alt unat_ha_position)

lemma ha_cover_position_range: "ha_position (ha_cover_from_state v) = Some p \<Longrightarrow> p \<le> 100"
proof -
  have "(ucast (min n 100) :: u8) \<le> 100" for n :: u64
  proof -
    have "unat (ucast (min n 100) :: u8) \<le> unat (min n 100)"
      by (simp add: unat_ucast)
    then show ?thesis by (simp add: word_le_nat_alt unat_min)
  qed
  then show "ha_position (ha_cover_from_state v) = Some p \<Longrightarrow> p \<le> 100"
    by (auto simp: ha_cover_from_state_def Let_def split: option.splits if_splits)
qed

lemma percent_round_up:
  assumes "m \<le> (10000 :: nat)"
  shows "(100 - min ((10000 - m) div 100) 100) * 100 = m + (10000 - m) mod 100"
proof -
  define q r where "q = (10000 - m) div 100" and "r = (10000 - m) mod 100"
  have "10000 - m = q * 100 + r" by (simp add: q_def r_def)
  moreover have "q \<le> 100" by (simp add: q_def)
  ultimately show ?thesis
    using assms unfolding q_def [symmetric] r_def [symmetric] by (simp add: diff_mult_distrib)
qed

section \<open>Properties\<close>

text \<open>Positions convert both ways: a Home Assistant position goes to percent100ths and back unchanged (clamped at
  100), a percent100ths value that a controller may send comes back rounded up to a whole percent, the
  two scales run in opposite directions, and neither conversion leaves its range.\<close>

lemma position_round_trip:
  "percent100ths_to_ha_position (ha_position_to_percent100ths p) = min p 100 \<and>
   (\<exists>r < 100. unat (ha_position_to_percent100ths (percent100ths_to_ha_position x)) = min (unat x) 10000 + r) \<and>
   (p \<le> p' \<longrightarrow> ha_position_to_percent100ths p' \<le> ha_position_to_percent100ths p) \<and>
   ha_position_to_percent100ths p \<le> 10000 \<and> percent100ths_to_ha_position x \<le> 100"
proof (intro conjI impI)
  show "percent100ths_to_ha_position (ha_position_to_percent100ths p) = min p 100"
    by (rule word_eq_unatI) (simp add: unat_ha_position unat_percent unat_min)
  show "\<exists>r < 100. unat (ha_position_to_percent100ths (percent100ths_to_ha_position x)) = min (unat x) 10000 + r"
    by (rule exI [of _ "(10000 - min (unat x) 10000) mod 100"])
      (simp only: unat_ha_position unat_percent percent_round_up [OF min.cobounded2, of "unat x"]
        mod_less_divisor zero_less_numeral simp_thms)
  show "ha_position_to_percent100ths p' \<le> ha_position_to_percent100ths p" if "p \<le> p'"
    using that by (simp add: word_le_nat_alt unat_percent)
qed (rule percent_range ha_position_range)+

text \<open>The operational status is zero exactly when the covering does not move or is at its target, and otherwise
  its lift field and its global field both say opening when the target is more open, closing when it is
  more closed.\<close>

lemma operational_status_direction:
  assumes "known_flags AND 0x0F = 0x0F"
  shows "operational_status known_flags pos target moving =
    (if moving \<and> pos < target then 0x05 else if moving \<and> target < pos then 0x0A else 0)"
proof -
  have "0x05 AND known_flags = 0x05" "0x0A AND known_flags = 0x0A"
  proof -
    have "0x05 AND (0x0F AND known_flags) = 0x05" "0x0A AND (0x0F AND known_flags) = 0x0A"
      using assms by (simp_all add: and.commute)
    then show "0x05 AND known_flags = 0x05" "0x0A AND known_flags = 0x0A"
      by (simp_all flip: and.assoc)
  qed
  then show ?thesis by (auto simp: operational_status_def Let_def)
qed

lemma position_round_trip_witness:
  "percent100ths_to_ha_position (ha_position_to_percent100ths 37) = 37 \<and>
   ha_position_to_percent100ths 50 \<le> ha_position_to_percent100ths 37"
  using position_round_trip [of 37 6350 50] by simp

lemma operational_status_direction_witness:
  "operational_status 0x3F 0 100 True = 0x05 \<and> operational_status 0x3F 60 20 True = 0x0A"
  using operational_status_direction [where known_flags = 63] by simp

text \<open>A cover state is read in the documented order: the attribute current_position (as an integer, else a float,
  else a decimal string, clamped at 100) wins over the state word, open and closed stand for 100 and 0
  when there is no such number, and the direction is in the state word alone; a position is never above 100.\<close>

lemma ha_cover_reading:
  "ha_position (ha_cover_from_state v) =
     (case current_position_attr v of
        Some n \<Rightarrow> Some (if n \<le> 100 then ucast n else 100)
      | None \<Rightarrow> if to_ascii_lowercase (trim (ha_state v)) = ''open'' then Some 100
                else if to_ascii_lowercase (trim (ha_state v)) = ''closed'' then Some 0 else None) \<and>
   (ha_motion (ha_cover_from_state v) = Opening \<longleftrightarrow>
      (\<exists>a w b. ha_state v = a @ w @ b \<and> whitespace a \<and> whitespace b \<and> to_ascii_lowercase w = ''opening'')) \<and>
   (ha_motion (ha_cover_from_state v) = Closing \<longleftrightarrow>
      (\<exists>a w b. ha_state v = a @ w @ b \<and> whitespace a \<and> whitespace b \<and> to_ascii_lowercase w = ''closing'')) \<and>
   (\<forall>p \<in> set_option (ha_position (ha_cover_from_state v)). p \<le> 100)"
proof -
  have words: "list_all word_byte ''opening''" "list_all word_byte ''closing''" by code_simp+
  show ?thesis
  proof (intro conjI)
    show "ha_motion (ha_cover_from_state v) = Opening \<longleftrightarrow>
      (\<exists>a w b. ha_state v = a @ w @ b \<and> whitespace a \<and> whitespace b \<and> to_ascii_lowercase w = ''opening'')"
      unfolding trimmed_word_iff [OF words(1), of "ha_state v", simplified, symmetric]
      by (simp add: ha_cover_from_state_def Let_def)
    show "ha_motion (ha_cover_from_state v) = Closing \<longleftrightarrow>
      (\<exists>a w b. ha_state v = a @ w @ b \<and> whitespace a \<and> whitespace b \<and> to_ascii_lowercase w = ''closing'')"
      unfolding trimmed_word_iff [OF words(2), of "ha_state v", simplified, symmetric]
      by (simp add: ha_cover_from_state_def Let_def)
    show "\<forall>p \<in> set_option (ha_position (ha_cover_from_state v)). p \<le> 100"
      using ha_cover_position_range by auto
  qed (auto simp: ha_cover_from_state_def Let_def min_def split: option.splits)
qed

definition demo_cover_state :: ha_state_value where
  "demo_cover_state = \<lparr>entity_id = ''cover.a'', ha_state = '' Opening'',
     attributes = [(''current_position'', JNumber (PosInt 42))]\<rparr>"

lemma ha_cover_reading_witness:
  "ha_position (ha_cover_from_state demo_cover_state) = Some 42 \<and>
   ha_motion (ha_cover_from_state demo_cover_state) = Opening"
proof -
  have "whitespace '' ''" unfolding whitespace_def code_run_def
    by (rule exI [of _ "['' '']"]) (simp add: whitespace_codes_def)
  moreover have "whitespace []" by (simp add: whitespace_def)
  moreover have "to_ascii_lowercase ''Opening'' = ''opening''" by code_simp
  ultimately have "\<exists>a w b. ha_state demo_cover_state = a @ w @ b \<and> whitespace a \<and> whitespace b \<and>
      to_ascii_lowercase w = ''opening''"
    by (intro exI [of _ "'' ''"] exI [of _ "''Opening''"] exI [of _ "[]"]) (simp add: demo_cover_state_def)
  moreover have "current_position_attr demo_cover_state = Some 42"
    by (simp add: current_position_attr_def bt_get_def demo_cover_state_def)
  ultimately show ?thesis
    using ha_cover_reading [of demo_cover_state] by simp
qed

end
