(* ===== verification/Export_Slot.thy ===== *)
theory Export_Slot
  imports Clusters
begin

text \<open>
  \<open>SlotKind\<close> and \<open>ExportSlot\<close> of \<open>bridge/src/matter/export_plane.rs\<close>: one bridged
  endpoint with the state controllers see, its data versions and the reports it owes. The atomics
  are record fields; an operation that stores into them returns the new slot, together with the
  flag \<open>changed\<close> where the source returns one.
\<close>

section \<open>State\<close>

datatype slot_kind =
    is_KOnOff: KOnOff (k_on: bool)
  | is_KCover: KCover (k_position: u8) (k_target: u8) (k_moving: bool)
  | is_KContact: KContact (k_closed: bool)
  | is_KMotion: KMotion (k_occupied: bool)

record export_slot =
  sl_export_id :: uuid
  matter_endpoint :: u16
  sl_name :: string
  kind :: slot_kind
  sl_export :: export
  unique_id :: string
  desc_dataver :: u32
  bridged_info_dataver :: u32
  functional_dataver :: u32
  pending_reports :: u32

definition REPORT_FUNCTIONAL :: u32 where "REPORT_FUNCTIONAL = 1"
definition REPORT_NODE_LABEL :: u32 where "REPORT_NODE_LABEL = push_bit 1 1"
definition REPORT_DESCRIPTOR :: u32 where "REPORT_DESCRIPTOR = push_bit 2 1"

lemmas report_bits = REPORT_FUNCTIONAL_def REPORT_NODE_LABEL_def REPORT_DESCRIPTOR_def

section \<open>Reading a slot\<close>

definition slot_on :: "export_slot \<Rightarrow> bool" where
  "slot_on s = (case kind s of KOnOff on \<Rightarrow> on | _ \<Rightarrow> False)"

definition contact_closed :: "export_slot \<Rightarrow> bool" where
  "contact_closed s = (case kind s of KContact c \<Rightarrow> c | _ \<Rightarrow> False)"

definition motion_occupied :: "export_slot \<Rightarrow> bool" where
  "motion_occupied s = (case kind s of KMotion occupied \<Rightarrow> occupied | _ \<Rightarrow> False)"

definition cover_position :: "export_slot \<Rightarrow> u8" where
  "cover_position s = (case kind s of KCover p _ _ \<Rightarrow> p | _ \<Rightarrow> 0)"

definition cover_target :: "export_slot \<Rightarrow> u8" where
  "cover_target s = (case kind s of KCover _ t _ \<Rightarrow> t | _ \<Rightarrow> 0)"

definition cover_moving :: "export_slot \<Rightarrow> bool" where
  "cover_moving s = (case kind s of KCover _ _ m \<Rightarrow> m | _ \<Rightarrow> False)"

lemmas slot_reads = slot_on_def contact_closed_def motion_occupied_def cover_position_def cover_target_def cover_moving_def

section \<open>Writing a slot\<close>

definition store_on :: "bool \<Rightarrow> export_slot \<Rightarrow> bool \<times> export_slot" where
  "store_on v s = (case kind s of KOnOff on \<Rightarrow> (on \<noteq> v, s\<lparr>kind := KOnOff v\<rparr>) | _ \<Rightarrow> (False, s))"

definition store_closed :: "bool \<Rightarrow> export_slot \<Rightarrow> bool \<times> export_slot" where
  "store_closed v s = (case kind s of KContact c \<Rightarrow> (c \<noteq> v, s\<lparr>kind := KContact v\<rparr>) | _ \<Rightarrow> (False, s))"

definition store_occupied :: "bool \<Rightarrow> export_slot \<Rightarrow> bool \<times> export_slot" where
  "store_occupied v s = (case kind s of KMotion m \<Rightarrow> (m \<noteq> v, s\<lparr>kind := KMotion v\<rparr>) | _ \<Rightarrow> (False, s))"

text \<open>
  \<open>apply_cover_ha\<close>: the three motions in the order of the source, each line a store and the
  update of \<open>changed\<close>; \<open>swap_opt\<close> is a position swap when the state carries a position.
\<close>

definition swap_opt :: "u8 \<Rightarrow> u8 option \<Rightarrow> u8 \<times> bool" where
  "swap_opt cur new = (case new of None \<Rightarrow> (cur, False) | Some p \<Rightarrow> (p, cur \<noteq> p))"

definition apply_cover_ha :: "cover_ha_state \<Rightarrow> export_slot \<Rightarrow> bool \<times> export_slot" where
  "apply_cover_ha ha s =
     (case kind s of
        KCover cur_pos cur_tgt cur_mov \<Rightarrow>
          (case ha_motion ha of
             Opening \<Rightarrow>
               (let aim = cur_tgt \<le> cur_pos \<and> cur_tgt \<noteq> 100;
                    tgt = (if aim then 100 else cur_tgt);
                    (pos, c) = swap_opt cur_pos (ha_position ha)
                in (\<not> cur_mov \<or> aim \<or> c, s\<lparr>kind := KCover pos tgt True\<rparr>))
           | Closing \<Rightarrow>
               (let aim = cur_tgt \<ge> cur_pos \<and> cur_tgt \<noteq> 0;
                    tgt = (if aim then 0 else cur_tgt);
                    (pos, c) = swap_opt cur_pos (ha_position ha)
                in (\<not> cur_mov \<or> aim \<or> c, s\<lparr>kind := KCover pos tgt True\<rparr>))
           | Stopped \<Rightarrow>
               (let (pos, c) = swap_opt cur_pos (ha_position ha);
                    (tgt, c') = swap_opt cur_tgt (ha_position ha)
                in (cur_mov \<or> c \<or> c', s\<lparr>kind := KCover pos tgt False\<rparr>)))
      | _ \<Rightarrow> (False, s))"

definition cover_command_open :: "export_slot \<Rightarrow> export_slot" where
  "cover_command_open s = (case kind s of KCover p _ _ \<Rightarrow> s\<lparr>kind := KCover p 100 True\<rparr> | _ \<Rightarrow> s)"

definition cover_command_close :: "export_slot \<Rightarrow> export_slot" where
  "cover_command_close s = (case kind s of KCover p _ _ \<Rightarrow> s\<lparr>kind := KCover p 0 True\<rparr> | _ \<Rightarrow> s)"

definition cover_command_stop :: "export_slot \<Rightarrow> export_slot" where
  "cover_command_stop s = (case kind s of KCover p _ _ \<Rightarrow> s\<lparr>kind := KCover p p False\<rparr> | _ \<Rightarrow> s)"

definition cover_command_position :: "u8 \<Rightarrow> export_slot \<Rightarrow> export_slot" where
  "cover_command_position x s = (case kind s of KCover p _ _ \<Rightarrow> s\<lparr>kind := KCover p (min x 100) True\<rparr> | _ \<Rightarrow> s)"

definition request_report :: "u32 \<Rightarrow> export_slot \<Rightarrow> export_slot" where
  "request_report bits s = s\<lparr>pending_reports := pending_reports s OR bits\<rparr>"

definition mark_functional_changed :: "export_slot \<Rightarrow> export_slot" where
  "mark_functional_changed s = request_report REPORT_FUNCTIONAL (s\<lparr>functional_dataver := functional_dataver s + 1\<rparr>)"

section \<open>What controllers see of a slot\<close>

definition device_types :: "export_slot \<Rightarrow> matter_device_type list" where
  "device_types s =
     (case ex_type (sl_export s) of
        Light \<Rightarrow> [library_device OnOffLightType, library_device BridgedNodeType]
      | OnOffSwitch \<Rightarrow> [dev_type_on_off_plug_in_unit, library_device BridgedNodeType]
      | OnOffPlug \<Rightarrow> [dev_type_on_off_plug_in_unit, library_device BridgedNodeType]
      | Outlet \<Rightarrow> [dev_type_on_off_plug_in_unit, library_device BridgedNodeType]
      | Contact \<Rightarrow> [dev_type_contact_sensor, library_device BridgedNodeType]
      | Motion \<Rightarrow> [dev_type_occupancy_sensor, library_device BridgedNodeType]
      | Cover \<Rightarrow> [dev_type_window_covering, library_device BridgedNodeType]
      | Garage \<Rightarrow> [dev_type_window_covering, library_device BridgedNodeType])"

definition functional_cluster :: "export_slot \<Rightarrow> cluster" where
  "functional_cluster s =
     (case kind s of
        KOnOff _ \<Rightarrow> on_off_cluster
      | KContact _ \<Rightarrow> boolean_state_cluster
      | KMotion _ \<Rightarrow> occupancy_cluster
      | KCover _ _ _ \<Rightarrow> window_covering_cluster)"

definition clusters :: "export_slot \<Rightarrow> cluster list" where
  "clusters s = [desc_cluster, bridged_info_cluster, functional_cluster s]"

definition functional_cluster_id :: "export_slot \<Rightarrow> cluster_id" where
  "functional_cluster_id s = cl_id (functional_cluster s)"

text \<open>The root endpoint is the library's; every other one has an id, device types and clusters.\<close>

datatype node_endpoint = RootEndpoint | Endpoint u16 "matter_device_type list" "cluster list"

definition endpoint_number :: "node_endpoint \<Rightarrow> u16" where
  "endpoint_number e = (case e of RootEndpoint \<Rightarrow> 0 | Endpoint i _ _ \<Rightarrow> i)"

definition slot_endpoint :: "export_slot \<Rightarrow> node_endpoint" where
  "slot_endpoint s = Endpoint (matter_endpoint s) (device_types s) (clusters s)"

definition surface :: "export_slot \<Rightarrow> u16 \<times> uuid \<times> dtype" where
  "surface s = (matter_endpoint s, sl_export_id s, dev_dtype (device_types s ! 0))"

subsection \<open>Node label\<close>

text \<open>The loop of \<open>clamp_utf8\<close> counts down to a character boundary; 0 is one.\<close>

fun boundary_before :: "string \<Rightarrow> nat \<Rightarrow> nat" where
  "boundary_before s 0 = 0"
| "boundary_before s (Suc n) = (if is_char_boundary s (Suc n) then Suc n else boundary_before s n)"

definition clamp_utf8 :: "string \<Rightarrow> nat \<Rightarrow> string" where
  "clamp_utf8 s max_bytes =
     (if length s \<le> max_bytes then s else take (boundary_before s max_bytes) s)"

definition node_label :: "export_slot \<Rightarrow> string" where
  "node_label s = clamp_utf8 (sl_name s) 32"

section \<open>Rebuilding a slot from its export\<close>

definition rebuild_kind :: "export \<Rightarrow> export_slot option \<Rightarrow> slot_kind" where
  "rebuild_kind e previous =
     (case ex_type e of
        Contact \<Rightarrow> KContact (case map_option contact_closed previous of None \<Rightarrow> True | Some c \<Rightarrow> c)
      | Motion \<Rightarrow> KMotion (case map_option motion_occupied previous of None \<Rightarrow> False | Some m \<Rightarrow> m)
      | Cover \<Rightarrow> (case map_option kind previous of Some (KCover p t m) \<Rightarrow> KCover p t m | _ \<Rightarrow> KCover 100 100 False)
      | Garage \<Rightarrow> (case map_option kind previous of Some (KCover p t m) \<Rightarrow> KCover p t m | _ \<Rightarrow> KCover 100 100 False)
      | _ \<Rightarrow> KOnOff (case map_option slot_on previous of None \<Rightarrow> False | Some on \<Rightarrow> on))"

text \<open>
  The data versions of a new slot are random: \<open>rnd\<close> gives the three numbers
  (\<open>rand::random\<close>) for descriptor, bridged information and functional cluster.
\<close>

definition rebuild :: "u32 \<times> u32 \<times> u32 \<Rightarrow> export \<Rightarrow> u16 \<Rightarrow> export_slot option \<Rightarrow> export_slot" where
  "rebuild rnd e ep previous =
     (let (r1, r2, r3) = rnd;
          s = \<lparr>sl_export_id = export_id e, matter_endpoint = ep, sl_name = ex_name e,
               kind = rebuild_kind e previous, sl_export = e, unique_id = uuid_simple (export_id e),
               desc_dataver = (case previous of None \<Rightarrow> r1 | Some p \<Rightarrow> desc_dataver p),
               bridged_info_dataver = (case previous of None \<Rightarrow> r2 | Some p \<Rightarrow> bridged_info_dataver p),
               functional_dataver = (case previous of None \<Rightarrow> r3 | Some p \<Rightarrow> functional_dataver p),
               pending_reports = (case previous of None \<Rightarrow> 0 | Some p \<Rightarrow> pending_reports p)\<rparr>;
          s = (if (case previous of None \<Rightarrow> False | Some p \<Rightarrow> node_label p \<noteq> node_label s)
               then request_report REPORT_NODE_LABEL (s\<lparr>bridged_info_dataver := bridged_info_dataver s + 1\<rparr>)
               else s);
          s = (if (case previous of None \<Rightarrow> False | Some p \<Rightarrow> surface p \<noteq> surface s)
               then request_report REPORT_DESCRIPTOR (s\<lparr>desc_dataver := desc_dataver s + 1\<rparr>)
               else s)
      in s)"

section \<open>Reading Home Assistant states\<close>

definition primary_ha_on :: "export \<Rightarrow> ha_state_value list \<Rightarrow> bool option" where
  "primary_ha_on e states = Option.bind (primary_state e states) (\<lambda>st. ha_state_is_on (ha_state st))"

definition primary_cover_state :: "export \<Rightarrow> ha_state_value list \<Rightarrow> cover_ha_state option" where
  "primary_cover_state e states = map_option ha_cover_from_state (primary_state e states)"

section \<open>The slot invariant\<close>

text \<open>The state of a slot fits the type of its export, and cover positions are percentages.\<close>

fun kind_fits :: "device_type \<Rightarrow> slot_kind \<Rightarrow> bool" where
  "kind_fits t (KOnOff _) = is_on_off_capable t"
| "kind_fits t (KCover p g _) = ((t = Cover \<or> t = Garage) \<and> p \<le> 100 \<and> g \<le> 100)"
| "kind_fits t (KContact _) = (t = Contact)"
| "kind_fits t (KMotion _) = (t = Motion)"

definition slot_ok :: "export_slot \<Rightarrow> bool" where
  "slot_ok s \<longleftrightarrow> kind_fits (ex_type (sl_export s)) (kind s) \<and> sl_export_id s = export_id (sl_export s) \<and>
     sl_name s = ex_name (sl_export s) \<and> unique_id s = uuid_simple (sl_export_id s)"

lemma kind_fits_iff:
  "kind_fits t k \<longleftrightarrow>
     (case k of KOnOff _ \<Rightarrow> is_on_off_capable t
      | KCover p g _ \<Rightarrow> (t = Cover \<or> t = Garage) \<and> p \<le> 100 \<and> g \<le> 100
      | KContact _ \<Rightarrow> t = Contact | KMotion _ \<Rightarrow> t = Motion)"
  by (cases k) simp_all

text \<open>An update of the kind and of the counters keeps the identity of a slot.\<close>

lemma slot_ok_update:
  assumes "slot_ok s" "sl_export s' = sl_export s" "sl_export_id s' = sl_export_id s" "sl_name s' = sl_name s"
    "unique_id s' = unique_id s" "kind_fits (ex_type (sl_export s)) (kind s) \<Longrightarrow> kind_fits (ex_type (sl_export s)) (kind s')"
  shows "slot_ok s'"
  using assms by (simp add: slot_ok_def)

definition same_identity :: "export_slot \<Rightarrow> export_slot \<Rightarrow> bool" where
  "same_identity s s' \<longleftrightarrow> sl_export s' = sl_export s \<and> sl_export_id s' = sl_export_id s \<and> sl_name s' = sl_name s \<and>
     unique_id s' = unique_id s \<and> matter_endpoint s' = matter_endpoint s"

lemma same_identity_refl [simp]: "same_identity s s"
  by (simp add: same_identity_def)

lemma same_identity_trans: "same_identity s s' \<Longrightarrow> same_identity s' s'' \<Longrightarrow> same_identity s s''"
  by (simp add: same_identity_def)

lemma same_identity_kind [simp]: "same_identity s (s\<lparr>kind := k\<rparr>)" "same_identity s (s\<lparr>functional_dataver := d\<rparr>)"
  by (simp_all add: same_identity_def)

lemma mark_functional_changed_fields [simp]:
  "kind (mark_functional_changed s) = kind s" "same_identity s (mark_functional_changed s)"
  "functional_dataver (mark_functional_changed s) = functional_dataver s + 1"
  "pending_reports (mark_functional_changed s) = pending_reports s OR REPORT_FUNCTIONAL"
  "desc_dataver (mark_functional_changed s) = desc_dataver s"
  "bridged_info_dataver (mark_functional_changed s) = bridged_info_dataver s"
  by (simp_all add: mark_functional_changed_def request_report_def same_identity_def)

lemma slot_ok_identity:
  "slot_ok s \<Longrightarrow> same_identity s s' \<Longrightarrow> kind_fits (ex_type (sl_export s)) (kind s') \<Longrightarrow> slot_ok s'"
  by (simp add: slot_ok_def same_identity_def)

lemma store_shape:
  "snd (store_on v s) = (if \<exists>b. kind s = KOnOff b then s\<lparr>kind := KOnOff v\<rparr> else s)"
  "snd (store_closed v s) = (if \<exists>b. kind s = KContact b then s\<lparr>kind := KContact v\<rparr> else s)"
  "snd (store_occupied v s) = (if \<exists>b. kind s = KMotion b then s\<lparr>kind := KMotion v\<rparr> else s)"
  by (simp_all add: store_on_def store_closed_def store_occupied_def split: slot_kind.splits)

lemma store_ok:
  assumes "slot_ok s"
  shows "slot_ok (snd (store_on v s))" "slot_ok (snd (store_closed v s))" "slot_ok (snd (store_occupied v s))"
  using assms by (auto simp: store_shape intro!: slot_ok_identity [OF assms] simp: slot_ok_def)

lemma apply_cover_ha_identity: "same_identity s (snd (apply_cover_ha ha s))"
  by (simp add: apply_cover_ha_def Let_def swap_opt_def same_identity_def
      split: slot_kind.splits cover_motion.splits option.splits)

lemma apply_cover_ha_ok:
  assumes "slot_ok s" and "\<forall>p \<in> set_option (ha_position ha). p \<le> 100"
  shows "slot_ok (snd (apply_cover_ha ha s))"
proof (rule slot_ok_identity [OF assms(1) apply_cover_ha_identity])
  show "kind_fits (ex_type (sl_export s)) (kind (snd (apply_cover_ha ha s)))"
    using assms
    by (cases "kind s"; cases "ha_motion ha"; cases "ha_position ha")
      (simp_all add: slot_ok_def apply_cover_ha_def Let_def swap_opt_def)
qed

lemma cover_commands_ok:
  assumes "slot_ok s"
  shows "slot_ok (cover_command_open s)" "slot_ok (cover_command_close s)" "slot_ok (cover_command_stop s)"
    "slot_ok (cover_command_position x s)"
  using assms
  by (cases "kind s"; simp add: slot_ok_def cover_command_open_def cover_command_close_def cover_command_stop_def
      cover_command_position_def)+

lemma rebuild_kind_fits:
  assumes "\<forall>p. previous = Some p \<longrightarrow> slot_ok p"
  shows "kind_fits (ex_type e) (rebuild_kind e previous)"
proof (cases previous)
  case None
  then show ?thesis by (cases "ex_type e") (simp_all add: rebuild_kind_def is_on_off_capable_def)
next
  case (Some p)
  then have "kind_fits (ex_type (sl_export p)) (kind p)" using assms by (simp add: slot_ok_def)
  with Some show ?thesis
    by (cases "ex_type e"; cases "kind p") (simp_all add: rebuild_kind_def is_on_off_capable_def)
qed

lemma rebuild_fields:
  "sl_export (rebuild rnd e ep prev) = e" "sl_export_id (rebuild rnd e ep prev) = export_id e"
  "matter_endpoint (rebuild rnd e ep prev) = ep" "sl_name (rebuild rnd e ep prev) = ex_name e"
  "unique_id (rebuild rnd e ep prev) = uuid_simple (export_id e)"
  "kind (rebuild rnd e ep prev) = rebuild_kind e prev"
  "functional_dataver (rebuild rnd e ep prev) =
     (case prev of None \<Rightarrow> snd (snd rnd) | Some p \<Rightarrow> functional_dataver p)"
  by (simp_all add: rebuild_def Let_def request_report_def split: prod.splits option.splits)

lemma rebuild_ok: "\<forall>p. previous = Some p \<longrightarrow> slot_ok p \<Longrightarrow> slot_ok (rebuild rnd e ep previous)"
  by (simp add: slot_ok_def rebuild_fields rebuild_kind_fits)

text \<open>What controllers identify a slot by depends only on its endpoint, id and export type.\<close>

lemma surface_cong:
  "matter_endpoint s = matter_endpoint s' \<Longrightarrow> sl_export_id s = sl_export_id s' \<Longrightarrow>
     ex_type (sl_export s) = ex_type (sl_export s') \<Longrightarrow> surface s = surface s'"
  by (simp add: surface_def device_types_def)

lemma surface_identity: "same_identity s s' \<Longrightarrow> surface s' = surface s"
  by (rule surface_cong) (simp_all add: same_identity_def)

lemma node_label_cong: "sl_name s = sl_name s' \<Longrightarrow> node_label s = node_label s'"
  by (simp add: node_label_def)

section \<open>Node labels\<close>

lemma boundary_before:
  "boundary_before s n \<le> n" "is_char_boundary s (boundary_before s n)"
  "boundary_before s n < i \<Longrightarrow> i \<le> n \<Longrightarrow> \<not> is_char_boundary s i"
proof -
  show "boundary_before s n \<le> n" by (induction n) auto
  show "is_char_boundary s (boundary_before s n)" by (induction n) (auto simp: is_char_boundary_def)
  show "boundary_before s n < i \<Longrightarrow> i \<le> n \<Longrightarrow> \<not> is_char_boundary s i"
    by (induction n) (auto simp: le_Suc_eq split: if_splits)
qed

lemma clamp_utf8_chars:
  assumes "list_all utf8_char cs"
  shows "\<exists>k. clamp_utf8 (concat cs) m = concat (take k cs) \<and> length (concat (take k cs)) \<le> m \<and>
    (k < length cs \<longrightarrow> m < length (concat (take (Suc k) cs)))"
proof (cases "length (concat cs) \<le> m")
  case True
  then show ?thesis by (intro exI [of _ "length cs"]) (simp add: clamp_utf8_def)
next
  case False
  define b where "b = boundary_before (concat cs) m"
  have b: "b \<le> m" "is_char_boundary (concat cs) b" "\<And>i. b < i \<Longrightarrow> i \<le> m \<Longrightarrow> \<not> is_char_boundary (concat cs) i"
    unfolding b_def by (fact boundary_before(1), fact boundary_before(2), fact boundary_before(3))
  obtain k where k: "take b (concat cs) = concat (take k cs)"
    using boundary_prefix [OF assms b(2)] b(1) False by auto
  have len: "length (concat (take k cs)) = b"
    using b(1) False by (simp flip: k)
  have "m < length (concat (take (Suc k) cs))" if "k < length cs"
  proof (rule ccontr)
    assume "\<not> m < length (concat (take (Suc k) cs))"
    moreover have "length (concat (take (Suc k) cs)) = b + length (cs ! k)"
      using that by (simp add: take_Suc_conv_app_nth len)
    moreover have "cs ! k \<noteq> []" using assms that by (auto simp: list_all_length utf8_char_def)
    ultimately show False
      using b(3) [of "length (concat (take (Suc k) cs))"] prefix_boundary [OF assms, of "Suc k"] by simp
  qed
  with k len b(1) False show ?thesis
    by (intro exI [of _ k]) (simp add: clamp_utf8_def flip: b_def)
qed

section \<open>Properties\<close>

definition demo_slot_export :: "string \<Rightarrow> device_type \<Rightarrow> export" where
  "demo_slot_export n t =
     \<lparr>export_id = 7, ex_name = n, ex_type = t, primary_entity_id = ''cover.a'', linked = [], area_id = None,
      enabled = True, endpoint_id = Some 1\<rparr>"

definition demo_slot :: "string \<Rightarrow> device_type \<Rightarrow> export_slot" where
  "demo_slot n t = rebuild (10, 20, 30) (demo_slot_export n t) 2 None"

text \<open>C35: The node label of a slot is the longest prefix of whole UTF-8 characters of its name that fits in 32
  bytes: no character is split, and one more character would not fit; a name that fits is kept.\<close>

theorem node_label_longest_prefix:
  assumes "sl_name s = concat cs" and "list_all utf8_char cs"
  shows "\<exists>k. node_label s = concat (take k cs) \<and> length (node_label s) \<le> 32 \<and>
    (k < length cs \<longrightarrow> 32 < length (concat (take (Suc k) cs)))"
  using clamp_utf8_chars [OF assms(2), of 32] by (auto simp: node_label_def assms(1))

theorem node_label_longest_prefix_witness:
  "node_label (demo_slot (concat (replicate 11 [CHR 0xE2, CHR 0x82, CHR 0xAC])) Light) =
     concat (replicate 10 [CHR 0xE2, CHR 0x82, CHR 0xAC])"
proof -
  let ?cs = "replicate 11 [CHR 0xE2, CHR 0x82, CHR 0xAC]"
  have "list_all utf8_char ?cs" by (simp add: list_all_iff utf8_char_def is_continuation_def)
  moreover have "sl_name (demo_slot (concat ?cs) Light) = concat ?cs"
    by (simp add: demo_slot_def demo_slot_export_def rebuild_fields)
  ultimately have "\<exists>k. node_label (demo_slot (concat ?cs) Light) = concat (take k ?cs) \<and>
    length (node_label (demo_slot (concat ?cs) Light)) \<le> 32 \<and>
    (k < length ?cs \<longrightarrow> 32 < length (concat (take (Suc k) ?cs)))"
    by (intro node_label_longest_prefix)
  then obtain k where k: "node_label (demo_slot (concat ?cs) Light) = concat (take k ?cs)"
    "length (concat (take k ?cs)) \<le> 32" "k < 11 \<longrightarrow> 32 < length (concat (take (Suc k) ?cs))"
    by (metis length_replicate)
  have len: "length (concat (take j ?cs)) = 3 * min j 11" for j
    by (simp add: length_concat take_replicate sum_list_replicate min.commute)
  have "k = 10" using k(2,3) unfolding len by (cases "k < 11") auto
  with k(1) show ?thesis by (simp add: take_replicate)
qed

text \<open>A Home Assistant cover state is reported as a change exactly when it changes the slot; afterwards the slot
  moves exactly when the state says so, has the reported position if there is one, has its target at
  the position when a stopped state reports one, and its position and target are still percentages.\<close>

lemma apply_cover_ha_effect:
  assumes "kind s = KCover p t m" and "apply_cover_ha ha s = (changed, s')"
  shows "(changed \<longleftrightarrow> kind s' \<noteq> kind s) \<and> same_identity s s' \<and>
    (\<exists>p' t'. kind s' = KCover p' t' (ha_motion ha \<noteq> Stopped) \<and>
       p' = (case ha_position ha of None \<Rightarrow> p | Some q \<Rightarrow> q) \<and>
       t' = (case ha_motion ha of
               Opening \<Rightarrow> if p < t then t else 100
             | Closing \<Rightarrow> if t < p then t else 0
             | Stopped \<Rightarrow> (case ha_position ha of None \<Rightarrow> t | Some q \<Rightarrow> q)))"
proof -
  have "same_identity s s'" using apply_cover_ha_identity [of s ha] assms(2) by simp
  with assms show ?thesis
    by (cases "ha_motion ha"; cases "ha_position ha")
      (auto simp: apply_cover_ha_def swap_opt_def Let_def)
qed

lemma apply_cover_ha_effect_witness:
  "\<exists>s'. apply_cover_ha \<lparr>ha_position = Some 40, ha_motion = Closing\<rparr> (demo_slot ''Blind'' Cover) = (True, s') \<and>
     kind s' = KCover 40 0 True"
proof -
  have "kind (demo_slot ''Blind'' Cover) = KCover 100 100 False"
    by (simp add: demo_slot_def rebuild_fields rebuild_kind_def demo_slot_export_def)
  moreover obtain b s' where "apply_cover_ha \<lparr>ha_position = Some 40, ha_motion = Closing\<rparr> (demo_slot ''Blind'' Cover) = (b, s')"
    by fastforce
  ultimately show ?thesis
    using apply_cover_ha_effect [of "demo_slot ''Blind'' Cover" 100 100 False
        "\<lparr>ha_position = Some 40, ha_motion = Closing\<rparr>" b s'] by auto
qed

text \<open>An opening report whose position is past a target that was still ahead leaves the target behind it, so the
  slot, although Home Assistant says opening, reads as closing to controllers.\<close>

lemma opening_report_reads_closing:
  "\<exists>s'. apply_cover_ha \<lparr>ha_position = Some 70, ha_motion = Opening\<rparr> (s\<lparr>kind := KCover 50 60 True\<rparr>) = (True, s') \<and>
     operational_status 0x3F (cover_position s') (cover_target s') (cover_moving s') = 0x0A"
  by (simp add: apply_cover_ha_def Let_def swap_opt_def operational_status_def slot_reads)

lemma rebuild_carry:
  assumes "kind_fits (ex_type e) (kind p)"
  shows "kind (rebuild rnd e ep (Some p)) = kind p \<and>
    functional_dataver (rebuild rnd e ep (Some p)) = functional_dataver p \<and>
    bridged_info_dataver (rebuild rnd e ep (Some p)) =
      bridged_info_dataver p + (if node_label (rebuild rnd e ep (Some p)) = node_label p then 0 else 1) \<and>
    desc_dataver (rebuild rnd e ep (Some p)) =
      desc_dataver p + (if surface (rebuild rnd e ep (Some p)) = surface p then 0 else 1) \<and>
    pending_reports (rebuild rnd e ep (Some p)) =
      (pending_reports p OR (if node_label (rebuild rnd e ep (Some p)) = node_label p then 0 else REPORT_NODE_LABEL))
        OR (if surface (rebuild rnd e ep (Some p)) = surface p then 0 else REPORT_DESCRIPTOR)"
proof -
  define s where "s = \<lparr>sl_export_id = export_id e, matter_endpoint = ep, sl_name = ex_name e,
    kind = rebuild_kind e (Some p), sl_export = e, unique_id = uuid_simple (export_id e),
    desc_dataver = desc_dataver p, bridged_info_dataver = bridged_info_dataver p,
    functional_dataver = functional_dataver p, pending_reports = pending_reports p\<rparr>"
  have lab: "node_label (rebuild rnd e ep (Some p)) = node_label s"
    by (rule node_label_cong) (simp add: rebuild_fields s_def)
  have sur: "surface (rebuild rnd e ep (Some p)) = surface s"
    by (rule surface_cong) (simp_all add: rebuild_fields s_def)
  have k: "rebuild_kind e (Some p) = kind p"
    using assms by (cases "ex_type e"; cases "kind p") (simp_all add: rebuild_kind_def slot_reads is_on_off_capable_def)
  define s1 where "s1 = (if node_label p \<noteq> node_label s
     then request_report REPORT_NODE_LABEL (s\<lparr>bridged_info_dataver := bridged_info_dataver s + 1\<rparr>) else s)"
  have s1: "surface s1 = surface s" by (rule surface_cong) (simp_all add: s1_def request_report_def)
  have "rebuild rnd e ep (Some p) = (if surface p \<noteq> surface s
     then request_report REPORT_DESCRIPTOR (s1\<lparr>desc_dataver := desc_dataver s1 + 1\<rparr>) else s1)"
    unfolding s1 [symmetric] by (simp add: rebuild_def s_def s1_def Let_def split: prod.splits)
  then show ?thesis
    unfolding lab sur by (auto simp: s1_def s_def request_report_def k)
qed

lemma rebuild_keeps:
  "functional_dataver (rebuild rnd e ep (Some p)) = functional_dataver p"
  "pending_reports p AND pending_reports (rebuild rnd e ep (Some p)) = pending_reports p"
proof -
  show "functional_dataver (rebuild rnd e ep (Some p)) = functional_dataver p"
    by (simp add: rebuild_def Let_def request_report_def split: prod.splits)
  show "pending_reports p AND pending_reports (rebuild rnd e ep (Some p)) = pending_reports p"
    by (simp add: rebuild_def Let_def request_report_def split: prod.splits)
      (intro conjI impI; rule bit_eqI; auto simp: bit_simps)
qed

text \<open>C29: Rebuilding a slot whose state fits the new type keeps that state; data versions only move forward: the
  functional one stays, the bridged-information one is bumped exactly when the node label changed, the
  descriptor one exactly when the surface changed, and each bump adds its report to the pending ones.\<close>

theorem rebuild_carries_over:
  assumes "kind_fits (ex_type e) (kind p)"
  shows "kind (rebuild rnd e ep (Some p)) = kind p \<and>
    functional_dataver (rebuild rnd e ep (Some p)) = functional_dataver p \<and>
    bridged_info_dataver (rebuild rnd e ep (Some p)) =
      bridged_info_dataver p + (if node_label (rebuild rnd e ep (Some p)) = node_label p then 0 else 1) \<and>
    desc_dataver (rebuild rnd e ep (Some p)) =
      desc_dataver p + (if surface (rebuild rnd e ep (Some p)) = surface p then 0 else 1) \<and>
    pending_reports (rebuild rnd e ep (Some p)) =
      (pending_reports p OR (if node_label (rebuild rnd e ep (Some p)) = node_label p then 0 else REPORT_NODE_LABEL))
        OR (if surface (rebuild rnd e ep (Some p)) = surface p then 0 else REPORT_DESCRIPTOR)"
  by (rule rebuild_carry [OF assms])

theorem rebuild_carries_over_witness:
  "kind (rebuild (1, 2, 3) (demo_slot_export ''Shutter'' Garage) 2
       (Some ((demo_slot ''Blind'' Cover)\<lparr>kind := KCover 30 80 True\<rparr>))) = KCover 30 80 True"
  using rebuild_carries_over [of "demo_slot_export ''Shutter'' Garage" "(demo_slot ''Blind'' Cover)\<lparr>kind := KCover 30 80 True\<rparr>"]
  by (simp add: demo_slot_export_def)

text \<open>A contact sensor starts closed, but an export that was something else before and becomes a contact sensor
  starts open (in alarm), whatever its previous state was.\<close>

lemma contact_after_retype_starts_open:
  assumes "ex_type e = Contact" and "\<not> kind_fits Contact (kind p)"
  shows "kind (rebuild rnd e ep (Some p)) = KContact False \<and> kind (rebuild rnd e ep None) = KContact True"
  using assms by (cases "kind p") (simp_all add: rebuild_fields rebuild_kind_def slot_reads)

lemma contact_after_retype_starts_open_witness:
  "kind (rebuild (1, 2, 3) (demo_slot_export ''Door'' Contact) 2 (Some (demo_slot ''Lamp'' Light))) = KContact False"
proof -
  have "kind (demo_slot ''Lamp'' Light) = KOnOff False"
    by (simp add: demo_slot_def rebuild_fields rebuild_kind_def demo_slot_export_def)
  then show ?thesis
    using contact_after_retype_starts_open [of "demo_slot_export ''Door'' Contact" "demo_slot ''Lamp'' Light"]
    by (simp add: demo_slot_export_def is_on_off_capable_def)
qed

end
