(* ===== verification/Export_Plane.thy ===== *)
theory Export_Plane
  imports Export_Slot "HOL-Library.Product_Lexorder"
begin

text \<open>
  \<open>PlaneState\<close> and \<open>ExportPlane\<close> of \<open>bridge/src/matter/export_plane.rs\<close>: the slot
  table the control plane rebuilds and the Matter stack serves, the queue of controller commands, the
  reports owed to subscribers and the generations of the configuration version. The lock and the
  atomics make each operation one step on the record; \<open>wake\<close> is the permit of
  \<open>Notify::notify_one\<close>. Random data versions are the argument \<open>rnd\<close>, one triple for
  each endpoint.
\<close>

section \<open>State\<close>

record plane_state =
  slots :: "export_slot list"
  endpoints :: "node_endpoint list"
  known :: "uuid set"

datatype window_op = WOpen u16 | WClose

text \<open>A pending window request: the operation and the ticket of the caller waiting for the reply.\<close>

record window_request =
  req_op :: window_op
  req_ticket :: nat

record export_plane =
  pl_state :: plane_state
  wake :: bool
  commands :: "command_request list"
  config_requested :: u64
  config_applied :: u64
  aggregator_dataver :: u32
  window_deadline :: u64
  fabric_count :: u8
  window_request :: "window_request option"

definition AGGREGATOR_ENDPOINT_ID :: u16 where
  "AGGREGATOR_ENDPOINT_ID = 1"

definition aggregator_endpoint :: node_endpoint where
  "aggregator_endpoint = Endpoint AGGREGATOR_ENDPOINT_ID [library_device AggregatorType] [desc_cluster]"

definition plane_state_new :: "export_slot list \<Rightarrow> uuid set \<Rightarrow> plane_state" where
  "plane_state_new ss k =
     \<lparr>slots = ss, endpoints = RootEndpoint # aggregator_endpoint # map slot_endpoint ss, known = k\<rparr>"

definition slot_index_at :: "plane_state \<Rightarrow> u16 \<Rightarrow> nat option" where
  "slot_index_at st ep = binary_search_by_key ep matter_endpoint (slots st)"

definition slot_at :: "plane_state \<Rightarrow> u16 \<Rightarrow> export_slot option" where
  "slot_at st ep = map_option ((!) (slots st)) (slot_index_at st ep)"

definition slot_for :: "plane_state \<Rightarrow> uuid \<Rightarrow> export_slot option" where
  "slot_for st i = List.find (\<lambda>s. sl_export_id s = i) (slots st)"

definition plane_new :: "u32 \<Rightarrow> export_plane" where
  "plane_new rnd =
     \<lparr>pl_state = plane_state_new [] {}, wake = False, commands = [], config_requested = 0, config_applied = 0,
      aggregator_dataver = rnd, window_deadline = 0, fabric_count = 0, window_request = None\<rparr>"

text \<open>A store into the slot at an index, through the read guard of \<open>with_state\<close>.\<close>

definition put_slot :: "nat \<Rightarrow> export_slot \<Rightarrow> export_plane \<Rightarrow> export_plane" where
  "put_slot k s p = p\<lparr>pl_state := (pl_state p)\<lparr>slots := (slots (pl_state p))[k := s]\<rparr>\<rparr>"

section \<open>Rebuilding the surface\<close>

definition sort_key_of :: "export \<Rightarrow> u16 \<times> uuid" where
  "sort_key_of e = ((case endpoint_id e of None \<Rightarrow> - 1 | Some i \<Rightarrow> i), export_id e)"

definition bridged_exports :: "export list \<Rightarrow> export list" where
  "bridged_exports exports = sort_key sort_key_of (filter is_matter_bridged_export exports)"

definition matter_endpoint_of :: "export \<Rightarrow> u16 option" where
  "matter_endpoint_of e = Option.bind (endpoint_id e) (\<lambda>i. checked_add i 1)"

fun slot_loop ::
  "(u16 \<Rightarrow> u32 \<times> u32 \<times> u32) \<Rightarrow> plane_state \<Rightarrow> export list \<Rightarrow> u16 set \<Rightarrow> export_slot list \<Rightarrow> export_slot list" where
  "slot_loop rnd previous [] taken ss = ss"
| "slot_loop rnd previous (e # es) taken ss =
     (case matter_endpoint_of e of
        None \<Rightarrow> slot_loop rnd previous es taken ss
      | Some ep \<Rightarrow>
          if ep \<le> AGGREGATOR_ENDPOINT_ID then slot_loop rnd previous es taken ss
          else if ep \<in> taken then slot_loop rnd previous es taken ss
          else slot_loop rnd previous es (insert ep taken)
                 (ss @ [rebuild (rnd ep) e ep (slot_for previous (export_id e))]))"

definition surfaces_differ :: "export_slot list \<Rightarrow> export_slot list \<Rightarrow> bool" where
  "surfaces_differ old new \<longleftrightarrow>
     length old \<noteq> length new \<or> list_ex (\<lambda>(o', n). surface o' \<noteq> surface n) (zip old new)"

definition set_exports :: "(u16 \<Rightarrow> u32 \<times> u32 \<times> u32) \<Rightarrow> export list \<Rightarrow> export_plane \<Rightarrow> export_plane" where
  "set_exports rnd exports p =
     (let bridged = bridged_exports exports;
          ids = set (map export_id exports);
          previous = pl_state p;
          ss = slot_loop rnd previous bridged {} [];
          surface_changed = surfaces_differ (slots previous) ss;
          next = plane_state_new ss ids;
          work_pending = list_ex (\<lambda>s. pending_reports s \<noteq> 0) (slots next);
          p = p\<lparr>pl_state := next\<rparr>;
          p = (if surface_changed
               then p\<lparr>aggregator_dataver := aggregator_dataver p + 1, config_requested := config_requested p + 1\<rparr>
               else p)
      in if surface_changed \<or> work_pending then p\<lparr>wake := True\<rparr> else p)"

section \<open>State from Home Assistant\<close>

definition slot_apply_state :: "ha_state_value list \<Rightarrow> export_slot \<Rightarrow> bool \<times> export_slot" where
  "slot_apply_state states s =
     (let mark = (\<lambda>(changed, s'). if changed then (True, mark_functional_changed s') else (False, s'))
      in case kind s of
           KOnOff _ \<Rightarrow> (case on_off_from_states (sl_export s) states of
               Some on \<Rightarrow> mark (store_on on s) | None \<Rightarrow> (False, s))
         | KContact _ \<Rightarrow> (case primary_ha_on (sl_export s) states of
               Some on \<Rightarrow> mark (store_closed (state_value_from_ha_on on) s) | None \<Rightarrow> (False, s))
         | KMotion _ \<Rightarrow> (case primary_ha_on (sl_export s) states of
               Some on \<Rightarrow> mark (store_occupied on s) | None \<Rightarrow> (False, s))
         | KCover _ _ _ \<Rightarrow> (case primary_cover_state (sl_export s) states of
               Some ha \<Rightarrow> mark (apply_cover_ha ha s) | None \<Rightarrow> (False, s)))"

definition apply_state :: "uuid \<Rightarrow> ha_state_value list \<Rightarrow> export_plane \<Rightarrow> u32 \<times> export_plane" where
  "apply_state i states p =
     (case position (\<lambda>s. sl_export_id s = i) (slots (pl_state p)) of
        None \<Rightarrow> if i \<notin> known (pl_state p) then (0, p) else (of_nat (length states), p)
      | Some k \<Rightarrow>
          let (changed, s') = slot_apply_state states (slots (pl_state p) ! k);
              p = put_slot k s' p
          in (of_nat (length states), if changed then p\<lparr>wake := True\<rparr> else p))"

section \<open>Commands from controllers\<close>

definition push_command :: "command_request \<Rightarrow> export_plane \<Rightarrow> export_plane" where
  "push_command c p = p\<lparr>commands := commands p @ [c]\<rparr>"

definition bump_functional :: "export_slot \<Rightarrow> export_slot" where
  "bump_functional s = s\<lparr>functional_dataver := functional_dataver s + 1\<rparr>"

definition apply_controller_on_off :: "u16 \<Rightarrow> bool \<Rightarrow> export_plane \<Rightarrow> bool \<times> export_plane" where
  "apply_controller_on_off ep on p =
     (case slot_index_at (pl_state p) ep of
        None \<Rightarrow> (False, p)
      | Some k \<Rightarrow>
          let s = slots (pl_state p) ! k
          in case kind s of
               KOnOff _ \<Rightarrow>
                 (let (changed, s') = store_on on s;
                      s' = (if changed then bump_functional s' else s')
                  in (True, push_command (on_off_command (sl_export_id s) on) (put_slot k s' p)))
             | _ \<Rightarrow> (False, p))"

text \<open>The state change of a cover command: \<open>None\<close> for a kind that is not one.\<close>

definition cover_command :: "command_kind \<Rightarrow> u8 option \<Rightarrow> export_slot \<Rightarrow> export_slot option" where
  "cover_command ck ha_pos s =
     (case ck of
        CoverOpen \<Rightarrow> Some (cover_command_open s)
      | CoverClose \<Rightarrow> Some (cover_command_close s)
      | CoverStop \<Rightarrow> Some (cover_command_stop s)
      | CoverPosition \<Rightarrow> Some (cover_command_position (case ha_pos of Some x \<Rightarrow> x | None \<Rightarrow> cover_target s) s)
      | _ \<Rightarrow> None)"

definition apply_controller_cover :: "u16 \<Rightarrow> command_kind \<Rightarrow> u8 option \<Rightarrow> export_plane \<Rightarrow> bool \<times> export_plane" where
  "apply_controller_cover ep ck ha_pos p =
     (case slot_index_at (pl_state p) ep of
        None \<Rightarrow> (False, p)
      | Some k \<Rightarrow>
          let s = slots (pl_state p) ! k
          in case kind s of
               KCover _ _ _ \<Rightarrow>
                 (case cover_command ck ha_pos s of
                    None \<Rightarrow> (False, p)
                  | Some s' \<Rightarrow>
                      (True, push_command
                        \<lparr>cmd_export_id = sl_export_id s, cmd_kind = ck, cmd_on = None, cmd_level = None,
                         cmd_position = (if ck = CoverPosition
                           then Some (min (case ha_pos of Some x \<Rightarrow> x | None \<Rightarrow> cover_target s') 100) else None)\<rparr>
                        (put_slot k (bump_functional s') p)))
             | _ \<Rightarrow> (False, p))"

definition take_commands :: "export_plane \<Rightarrow> command_request list \<times> export_plane" where
  "take_commands p = (commands p, p\<lparr>commands := []\<rparr>)"

section \<open>Reports to subscribers\<close>

definition functional_reports :: "export_slot \<Rightarrow> (u16 \<times> cluster_id \<times> attr_id) list" where
  "functional_reports s =
     (let ep = matter_endpoint s
      in case kind s of
           KOnOff _ \<Rightarrow> [(ep, cl_id on_off_cluster, AOnOff)]
         | KContact _ \<Rightarrow> [(ep, cl_id boolean_state_cluster, AStateValue)]
         | KMotion _ \<Rightarrow> [(ep, cl_id occupancy_cluster, AOccupancy)]
         | KCover _ _ _ \<Rightarrow>
             [(ep, cl_id window_covering_cluster, ACurrentPositionLiftPercent100ths),
              (ep, cl_id window_covering_cluster, ATargetPositionLiftPercent100ths),
              (ep, cl_id window_covering_cluster, AOperationalStatus)])"

definition slot_reports :: "export_slot \<Rightarrow> (u16 \<times> cluster_id \<times> attr_id) list" where
  "slot_reports s =
     (let bits = pending_reports s
      in (if bits AND REPORT_FUNCTIONAL \<noteq> 0 then functional_reports s else []) @
         (if bits AND REPORT_NODE_LABEL \<noteq> 0
          then [(matter_endpoint s, cl_id bridged_info_cluster, ANodeLabel)] else []) @
         (if bits AND REPORT_DESCRIPTOR \<noteq> 0
          then [(matter_endpoint s, cl_id desc_cluster, ADeviceTypeList)] else []))"

definition drain_reports :: "export_plane \<Rightarrow> (u16 \<times> cluster_id \<times> attr_id) list \<times> export_plane" where
  "drain_reports p =
     (concat (map slot_reports (slots (pl_state p))),
      p\<lparr>pl_state := (pl_state p)\<lparr>slots := map (\<lambda>s. s\<lparr>pending_reports := 0\<rparr>) (slots (pl_state p))\<rparr>\<rparr>)"

definition endpoint_ids :: "export_plane \<Rightarrow> u16 list" where
  "endpoint_ids p = map matter_endpoint (slots (pl_state p))"

text \<open>The bridge's data versions of the clusters a notification names (\<open>bump_dataver\<close>).\<close>

definition hits :: "'a option \<Rightarrow> 'a \<Rightarrow> bool" where
  "hits wanted x \<longleftrightarrow> (case wanted of None \<Rightarrow> True | Some y \<Rightarrow> y = x)"

definition slot_bump_dataver :: "u16 option \<Rightarrow> cluster_id option \<Rightarrow> export_slot \<Rightarrow> export_slot" where
  "slot_bump_dataver ep cl s =
     (if \<not> hits ep (matter_endpoint s) then s
      else let s = (if hits cl (cl_id desc_cluster) then s\<lparr>desc_dataver := desc_dataver s + 1\<rparr> else s);
               s = (if hits cl (cl_id bridged_info_cluster)
                    then s\<lparr>bridged_info_dataver := bridged_info_dataver s + 1\<rparr> else s)
           in if hits cl (functional_cluster_id s) then bump_functional s else s)"

definition bump_dataver :: "u16 option \<Rightarrow> cluster_id option \<Rightarrow> export_plane \<Rightarrow> export_plane" where
  "bump_dataver ep cl p =
     (let p = (if hits ep AGGREGATOR_ENDPOINT_ID \<and> hits cl (cl_id desc_cluster)
               then p\<lparr>aggregator_dataver := aggregator_dataver p + 1\<rparr> else p)
      in p\<lparr>pl_state := (pl_state p)\<lparr>slots := map (slot_bump_dataver ep cl) (slots (pl_state p))\<rparr>\<rparr>)"

end
