(* ===== verification/Plane_Invariant.thy ===== *)
theory Plane_Invariant
  imports Export_Plane
begin

text \<open>
  What the slot table keeps true, and how a rebuild chooses its slots: the exports that get a slot are
  an order-preserving choice from the sorted exports (\<open>choose_bridged\<close>), each slot is the rebuild of its
  export, and the endpoint numbers of the node come out strictly ascending.
\<close>

section \<open>The choice of exports\<close>

fun choose_bridged :: "export list \<Rightarrow> u16 set \<Rightarrow> export list" where
  "choose_bridged [] taken = []"
| "choose_bridged (e # es) taken =
     (case matter_endpoint_of e of
        None \<Rightarrow> choose_bridged es taken
      | Some ep \<Rightarrow> if ep \<le> AGGREGATOR_ENDPOINT_ID \<or> ep \<in> taken then choose_bridged es taken else e # choose_bridged es (insert ep taken))"

definition slot_of :: "(u16 \<Rightarrow> u32 \<times> u32 \<times> u32) \<Rightarrow> plane_state \<Rightarrow> export \<Rightarrow> export_slot" where
  "slot_of rnd previous e =
     (let ep = the (matter_endpoint_of e) in rebuild (rnd ep) e ep (slot_for previous (export_id e)))"

lemma slot_loop_pick: "slot_loop rnd previous es taken ss = ss @ map (slot_of rnd previous) (choose_bridged es taken)"
  by (induction rnd previous es taken ss rule: slot_loop.induct)
    (auto simp: slot_of_def split: option.splits)

lemma matter_endpoint_of_Some:
  "matter_endpoint_of e = Some ep \<longleftrightarrow> (\<exists>i. endpoint_id e = Some i \<and> unat ep = unat i + 1 \<and> unat i < 65535)"
proof -
  have "unat (i + 1 :: u16) = unat i + 1" if "unat i < 65535" for i
    using that by (simp add: unat_word_ariths)
  then show ?thesis
    by (auto simp: matter_endpoint_of_def bind_eq_Some_conv checked_add_Some word_unat_eq_iff)
qed

lemma matter_endpoint_of_mono:
  assumes "sort_key_of e \<le> sort_key_of e'" "matter_endpoint_of e = Some a" "matter_endpoint_of e' = Some b"
  shows "a \<le> b"
  using assms by (auto simp: matter_endpoint_of_Some sort_key_of_def less_eq_prod_def word_le_nat_alt word_less_nat_alt)

lemma matter_endpoint_of_inj:
  "matter_endpoint_of e = Some a \<Longrightarrow> matter_endpoint_of e' = Some a \<Longrightarrow> endpoint_id e = endpoint_id e'"
  by (auto simp: matter_endpoint_of_Some word_unat_eq_iff)

lemma pick_subset: "set (choose_bridged es taken) \<subseteq> set es"
  by (induction es taken rule: choose_bridged.induct) (auto split: option.splits)

lemma pick_endpoint:
  "e \<in> set (choose_bridged es taken) \<Longrightarrow> \<exists>ep. matter_endpoint_of e = Some ep \<and> 1 < ep \<and> ep \<notin> taken"
  by (induction es taken rule: choose_bridged.induct)
    (auto split: option.splits if_splits simp: AGGREGATOR_ENDPOINT_ID_def not_le)

lemma pick_ascending:
  assumes "sorted (map sort_key_of es)"
  shows "sorted_wrt (<) (map (the \<circ> matter_endpoint_of) (choose_bridged es taken))"
  using assms
proof (induction es taken rule: choose_bridged.induct)
  case (1 taken)
  then show ?case by simp
next
  case (2 e es taken)
  show ?case
  proof (cases "\<exists>ep. matter_endpoint_of e = Some ep \<and> \<not> (ep \<le> AGGREGATOR_ENDPOINT_ID \<or> ep \<in> taken)")
    case False
    then have "choose_bridged (e # es) taken = choose_bridged es taken" by (auto split: option.splits)
    with 2 False show ?thesis by (cases "matter_endpoint_of e") auto
  next
    case True
    then obtain ep where ep: "matter_endpoint_of e = Some ep" "\<not> (ep \<le> AGGREGATOR_ENDPOINT_ID \<or> ep \<in> taken)" by blast
    have "ep < the (matter_endpoint_of e')" if m: "e' \<in> set (choose_bridged es (insert ep taken))" for e'
    proof -
      obtain ep' where ep': "matter_endpoint_of e' = Some ep'" "ep' \<noteq> ep"
        using pick_endpoint [OF m] by blast
      have "e' \<in> set es" using m pick_subset by blast
      with "2.prems" have "sort_key_of e \<le> sort_key_of e'" by simp
      with ep(1) ep' matter_endpoint_of_mono show ?thesis by fastforce
    qed
    with "2.IH"(3) [OF ep] "2.prems" ep show ?thesis by simp
  qed
qed

lemma sorted_head_least:
  assumes "sorted (map sort_key_of (x # es))" and "distinct (map export_id (x # es))"
    and "e' \<in> set es" and "matter_endpoint_of e' = matter_endpoint_of x" and "matter_endpoint_of x = Some ep"
  shows "export_id x < export_id e'"
proof -
  have "endpoint_id x = endpoint_id e'" using assms(4,5) by (intro matter_endpoint_of_inj) auto
  moreover have "sort_key_of x \<le> sort_key_of e'" using assms(1,3) by simp
  ultimately have "export_id x \<le> export_id e'" by (auto simp: sort_key_of_def)
  moreover have "export_id x \<notin> export_id ` set es" using assms(2) by simp
  ultimately show ?thesis using assms(3) by (metis imageI order_le_imp_less_or_eq)
qed

lemma pick_iff:
  assumes "sorted (map sort_key_of es)" and "distinct (map export_id es)"
  shows "e \<in> set (choose_bridged es taken) \<longleftrightarrow> e \<in> set es \<and>
    (\<exists>ep. matter_endpoint_of e = Some ep \<and> 1 < ep \<and> ep \<notin> taken \<and>
       (\<forall>e' \<in> set es. matter_endpoint_of e' = Some ep \<longrightarrow> export_id e \<le> export_id e'))"
  using assms
proof (induction es taken rule: choose_bridged.induct)
  case (1 taken)
  then show ?case by simp
next
  case (2 x es taken)
  note least = sorted_head_least [OF "2.prems"]
  show ?case
  proof (cases "\<exists>ep. matter_endpoint_of x = Some ep \<and> \<not> (ep \<le> AGGREGATOR_ENDPOINT_ID \<or> ep \<in> taken)")
    case False
    then have eq: "choose_bridged (x # es) taken = choose_bridged es taken" by (auto split: option.splits)
    have "e \<in> set (choose_bridged es taken) \<longleftrightarrow> e \<in> set es \<and>
      (\<exists>ep. matter_endpoint_of e = Some ep \<and> 1 < ep \<and> ep \<notin> taken \<and>
       (\<forall>e' \<in> set es. matter_endpoint_of e' = Some ep \<longrightarrow> export_id e \<le> export_id e'))"
      using 2 False by (cases "matter_endpoint_of x") auto
    with False eq show ?thesis by (auto simp: AGGREGATOR_ENDPOINT_ID_def not_le)
  next
    case True
    then obtain ep where ep: "matter_endpoint_of x = Some ep" "\<not> (ep \<le> AGGREGATOR_ENDPOINT_ID \<or> ep \<in> taken)" by blast
    have gt: "1 < ep" using ep(2) by (simp add: AGGREGATOR_ENDPOINT_ID_def not_le)
    have eq: "choose_bridged (x # es) taken = x # choose_bridged es (insert ep taken)" using ep by simp
    have IH: "e \<in> set (choose_bridged es (insert ep taken)) \<longleftrightarrow> e \<in> set es \<and>
      (\<exists>ep'. matter_endpoint_of e = Some ep' \<and> 1 < ep' \<and> ep' \<notin> insert ep taken \<and>
       (\<forall>e' \<in> set es. matter_endpoint_of e' = Some ep' \<longrightarrow> export_id e \<le> export_id e'))"
      using 2 ep by auto
    show ?thesis
    proof (cases "e = x")
      case True
      with eq ep gt least [OF _ _ ep(1)] show ?thesis by (auto intro: less_imp_le)
    next
      case False
      have "\<not> (\<forall>e' \<in> set (x # es). matter_endpoint_of e' = Some ep \<longrightarrow> export_id e \<le> export_id e')"
        if "e \<in> set es" "matter_endpoint_of e = Some ep"
        using least [OF that(1) _ ep(1)] that ep(1) by force
      with False eq IH ep(1) show ?thesis by (simp only: list.set set_simps insert_iff) auto
    qed
  qed
qed

lemma bridged_exports_facts:
  "sorted (map sort_key_of (bridged_exports es))" "set (bridged_exports es) = {e \<in> set es. enabled e}"
  "distinct (map export_id es) \<Longrightarrow> distinct (map export_id (bridged_exports es))"
proof -
  show "sorted (map sort_key_of (bridged_exports es))" by (simp add: bridged_exports_def)
  show "set (bridged_exports es) = {e \<in> set es. enabled e}" by (simp add: bridged_exports_def)
  assume "distinct (map export_id es)"
  then show "distinct (map export_id (bridged_exports es))"
    by (simp add: bridged_exports_def distinct_map inj_on_def)
qed

lemma surfaces_differ_iff: "surfaces_differ old new \<longleftrightarrow> map surface old \<noteq> map surface new"
  by (auto simp: surfaces_differ_def list_ex_iff list_eq_iff_nth_eq set_zip) (metis map_eq_imp_length_eq nth_map)+

section \<open>The invariant of the slot table\<close>

definition slot_placed :: "uuid set \<Rightarrow> export_slot \<Rightarrow> bool" where
  "slot_placed ids s \<longleftrightarrow> slot_ok s \<and> 1 < matter_endpoint s \<and>
     matter_endpoint_of (sl_export s) = Some (matter_endpoint s) \<and> enabled (sl_export s) \<and> sl_export_id s \<in> ids"

definition state_inv :: "plane_state \<Rightarrow> bool" where
  "state_inv st \<longleftrightarrow>
     endpoints st = RootEndpoint # aggregator_endpoint # map slot_endpoint (slots st) \<and>
     sorted_wrt (<) (map matter_endpoint (slots st)) \<and> distinct (map sl_export_id (slots st)) \<and>
     list_all (slot_placed (known st)) (slots st)"

definition slot_step :: "export_slot \<Rightarrow> export_slot \<Rightarrow> bool" where
  "slot_step s s' \<longleftrightarrow> same_identity s s' \<and> (slot_ok s \<longrightarrow> slot_ok s')"

lemma slot_step_refl [simp]: "slot_step s s"
  by (simp add: slot_step_def)

lemma slot_step_trans: "slot_step s s' \<Longrightarrow> slot_step s' s'' \<Longrightarrow> slot_step s s''"
  by (auto simp: slot_step_def intro: same_identity_trans)

lemma slot_step_counters [simp]:
  "slot_step s (s\<lparr>functional_dataver := a\<rparr>)" "slot_step s (s\<lparr>desc_dataver := b\<rparr>)"
  "slot_step s (s\<lparr>bridged_info_dataver := c\<rparr>)" "slot_step s (s\<lparr>pending_reports := d\<rparr>)"
  by (simp_all add: slot_step_def same_identity_def slot_ok_def)

lemma slot_endpoint_cong:
  assumes "slot_ok s" "slot_ok s'" "same_identity s s'"
  shows "slot_endpoint s' = slot_endpoint s"
proof -
  have "kind_fits (ex_type (sl_export s)) (kind s)" "kind_fits (ex_type (sl_export s)) (kind s')"
    using assms by (auto simp: slot_ok_def same_identity_def)
  then have "functional_cluster s' = functional_cluster s"
    by (cases "kind s"; cases "kind s'") (auto simp: functional_cluster_def is_on_off_capable_def)
  with assms(3) show ?thesis
    by (simp add: slot_endpoint_def clusters_def device_types_def same_identity_def)
qed

lemma slot_placed_step: "slot_placed ids s \<Longrightarrow> slot_step s s' \<Longrightarrow> slot_placed ids s'"
  by (auto simp: slot_placed_def slot_step_def same_identity_def)

lemma state_inv_slots:
  assumes "state_inv st" and "list_all2 slot_step (slots st) ss"
  shows "state_inv (st\<lparr>slots := ss\<rparr>)"
proof -
  have len: "length ss = length (slots st)" and step: "\<And>i. i < length ss \<Longrightarrow> slot_step (slots st ! i) (ss ! i)"
    using assms(2) by (auto simp: list_all2_conv_all_nth)
  have placed: "\<And>i. i < length ss \<Longrightarrow> slot_placed (known st) (slots st ! i)"
    using assms(1) len by (simp add: state_inv_def list_all_length)
  have "map matter_endpoint ss = map matter_endpoint (slots st)" "map sl_export_id ss = map sl_export_id (slots st)"
    using step len by (auto intro!: nth_equalityI simp: slot_step_def same_identity_def)
  moreover have "map slot_endpoint ss = map slot_endpoint (slots st)"
    using step len placed slot_endpoint_cong
    by (intro nth_equalityI) (auto simp: slot_step_def slot_placed_def)
  moreover have "list_all (slot_placed (known st)) ss"
    using slot_placed_step [OF placed step] by (simp add: list_all_length)
  ultimately show ?thesis using assms(1) by (simp add: state_inv_def)
qed

lemma all2_update: "k < length xs \<Longrightarrow> slot_step (xs ! k) y \<Longrightarrow> list_all2 slot_step xs (xs[k := y])"
  by (simp add: list_all2_conv_all_nth nth_list_update)

lemma all2_map: "(\<And>s. slot_step s (f s)) \<Longrightarrow> list_all2 slot_step xs (map f xs)"
  by (simp add: list_all2_conv_all_nth)

lemma state_inv_put:
  assumes "state_inv (pl_state p)" "k < length (slots (pl_state p))" "slot_step (slots (pl_state p) ! k) s"
  shows "state_inv (pl_state (put_slot k s p))"
  using state_inv_slots [OF assms(1) all2_update [OF assms(2,3)]] by (simp add: put_slot_def)

lemma slot_apply_state_step: "slot_step s (snd (slot_apply_state states s))"
proof -
  have ident: "slot_step s (snd (store_on v s))" "slot_step s (snd (store_closed v s))" "slot_step s (snd (store_occupied v s))" for v
    using store_ok by (auto simp: slot_step_def store_shape)
  have cover: "slot_step s (snd (apply_cover_ha (ha_cover_from_state v) s))" for v
    using apply_cover_ha_ok apply_cover_ha_identity ha_cover_position_range
    by (auto simp: slot_step_def)
  have mark: "slot_step s (snd (case x of (changed, s') \<Rightarrow> if changed then (True, mark_functional_changed s') else (False, s')))"
    if "slot_step s (snd x)" for x
  proof -
    have "slot_step (snd x) (mark_functional_changed (snd x))"
      by (simp add: slot_step_def slot_ok_def mark_functional_changed_def request_report_def same_identity_def)
    with that show ?thesis by (auto split: prod.splits intro: slot_step_trans)
  qed
  show ?thesis
    by (auto simp: slot_apply_state_def Let_def primary_cover_state_def intro!: mark ident cover
        split: slot_kind.splits option.splits)
qed

lemma cover_command_step: "cover_command ck x s = Some s' \<Longrightarrow> slot_step s s'"
  using cover_commands_ok [of s]
  by (auto simp: cover_command_def slot_step_def split: command_kind.splits option.splits)
    (auto simp: same_identity_def cover_command_open_def cover_command_close_def cover_command_stop_def
      cover_command_position_def split: slot_kind.splits)

lemma slot_index_at_length: "state_inv st \<Longrightarrow> slot_index_at st ep = Some k \<Longrightarrow> k < length (slots st)"
  by (simp add: slot_index_at_def binary_search_position state_inv_def position_Some)

lemma apply_state_inv:
  assumes "state_inv (pl_state p)"
  shows "state_inv (pl_state (snd (apply_state i states p)))"
proof (cases "position (\<lambda>s. sl_export_id s = i) (slots (pl_state p))")
  case None
  with assms show ?thesis by (simp add: apply_state_def)
next
  case (Some k)
  then have "k < length (slots (pl_state p))" by (simp add: position_Some)
  then have "state_inv (pl_state (put_slot k (snd (slot_apply_state states (slots (pl_state p) ! k))) p))"
    by (rule state_inv_put [OF assms _ slot_apply_state_step])
  with Some show ?thesis by (cases "slot_apply_state states (slots (pl_state p) ! k)") (auto simp: apply_state_def Let_def)
qed

lemma apply_controller_on_off_inv:
  assumes "state_inv (pl_state p)"
  shows "state_inv (pl_state (snd (apply_controller_on_off ep on p)))"
proof (cases "slot_index_at (pl_state p) ep")
  case None
  with assms show ?thesis by (simp add: apply_controller_on_off_def)
next
  case (Some k)
  let ?s = "slots (pl_state p) ! k"
  have "slot_step ?s (snd (store_on on ?s))" using store_ok by (auto simp: slot_step_def store_shape)
  then have "slot_step ?s (if fst (store_on on ?s) then bump_functional (snd (store_on on ?s)) else snd (store_on on ?s))"
    by (auto simp: bump_functional_def intro: slot_step_trans)
  with state_inv_put [OF assms slot_index_at_length [OF assms Some]] Some assms show ?thesis
    by (auto simp: apply_controller_on_off_def Let_def push_command_def split: prod.splits slot_kind.splits)
qed

lemma apply_controller_cover_inv:
  assumes "state_inv (pl_state p)"
  shows "state_inv (pl_state (snd (apply_controller_cover ep ck x p)))"
proof (cases "slot_index_at (pl_state p) ep")
  case None
  with assms show ?thesis by (simp add: apply_controller_cover_def)
next
  case (Some k)
  let ?s = "slots (pl_state p) ! k"
  have "slot_step ?s (bump_functional s')" if "cover_command ck x ?s = Some s'" for s'
    using cover_command_step [OF that] by (auto simp: bump_functional_def intro: slot_step_trans)
  with state_inv_put [OF assms slot_index_at_length [OF assms Some]] Some assms show ?thesis
    by (auto simp: apply_controller_cover_def Let_def push_command_def split: prod.splits slot_kind.splits option.splits)
qed

lemma drain_reports_inv: "state_inv (pl_state p) \<Longrightarrow> state_inv (pl_state (snd (drain_reports p)))"
  by (simp add: drain_reports_def state_inv_slots all2_map)

lemma slot_bump_dataver_step: "slot_step s (slot_bump_dataver ep cl s)"
  by (auto simp: slot_bump_dataver_def Let_def bump_functional_def slot_step_def same_identity_def slot_ok_def)

lemma bump_dataver_inv: "state_inv (pl_state p) \<Longrightarrow> state_inv (pl_state (bump_dataver ep cl p))"
  by (simp add: bump_dataver_def Let_def state_inv_slots all2_map slot_bump_dataver_step)

section \<open>Rebuilding\<close>

lemma slot_for_Some: "slot_for st i = Some s \<Longrightarrow> s \<in> set (slots st) \<and> sl_export_id s = i"
  by (auto simp: slot_for_def find_Some_iff)

lemma set_exports_state:
  "pl_state (set_exports rnd exports p) =
     plane_state_new (map (slot_of rnd (pl_state p)) (choose_bridged (bridged_exports exports) {})) (set (map export_id exports))"
  by (simp add: set_exports_def Let_def slot_loop_pick)

lemma map_slot_of:
  "map sl_export_id (map (slot_of rnd st) es) = map export_id es"
  "map matter_endpoint (map (slot_of rnd st) es) = map (the \<circ> matter_endpoint_of) es"
  by (simp_all add: slot_of_def Let_def rebuild_fields)

lemma pick_distinct: "distinct (map export_id es) \<Longrightarrow> distinct (map export_id (choose_bridged es taken))"
  using pick_subset by (induction es taken rule: choose_bridged.induct) (fastforce split: option.splits)+

lemma set_exports_inv:
  assumes "state_inv (pl_state p)" and "distinct (map export_id exports)"
  shows "state_inv (pl_state (set_exports rnd exports p))"
proof -
  let ?es = "choose_bridged (bridged_exports exports) {}"
  have prev: "\<forall>s. slot_for (pl_state p) i = Some s \<longrightarrow> slot_ok s" for i
    using assms(1) slot_for_Some by (fastforce simp: state_inv_def list_all_iff slot_placed_def)
  have "slot_placed (set (map export_id exports)) (slot_of rnd (pl_state p) e)" if e: "e \<in> set ?es" for e
  proof -
    obtain ep where ep: "matter_endpoint_of e = Some ep" "1 < ep" using pick_endpoint [OF e] by blast
    have "e \<in> set exports" "enabled e" using e pick_subset bridged_exports_facts(2) by blast+
    with ep rebuild_ok [OF prev] show ?thesis
      by (simp add: slot_placed_def slot_of_def Let_def rebuild_fields)
  qed
  moreover have "sorted_wrt (<) (map (the \<circ> matter_endpoint_of) ?es)"
    by (rule pick_ascending [OF bridged_exports_facts(1)])
  moreover have "distinct (map export_id ?es)"
    by (rule pick_distinct [OF bridged_exports_facts(3) [OF assms(2)]])
  ultimately show ?thesis
    unfolding set_exports_state state_inv_def plane_state_new_def
    by (simp only: plane_state.simps map_slot_of) (simp add: list_all_iff)
qed

lemma plane_new_inv: "state_inv (pl_state (plane_new rnd))"
  by (simp add: plane_new_def plane_state_new_def state_inv_def)

section \<open>Slots by their keys\<close>

lemma find_unique:
  assumes "distinct (map f xs)"
  shows "List.find (\<lambda>x. f x = k) xs = Some y \<longleftrightarrow> y \<in> set xs \<and> f y = k"
  using assms
proof (induction xs)
  case (Cons x xs)
  have "f z \<noteq> f x" if "z \<in> set xs" for z using Cons.prems that by (auto intro: rev_image_eqI)
  with Cons show ?case by auto
qed simp

lemma find_update:
  assumes "distinct (map f xs)" "k < length xs" "f y = f (xs ! k)"
  shows "List.find (\<lambda>x. f x = j) (xs[k := y]) = (if j = f y then Some y else List.find (\<lambda>x. f x = j) xs)"
  using assms
proof (induction xs arbitrary: k)
  case (Cons x xs)
  have "f z \<noteq> f x" if "z \<in> set xs" for z using Cons.prems(1) that by (auto intro: rev_image_eqI)
  with Cons show ?case by (cases k) auto
qed simp

lemma slot_for_put:
  assumes "distinct (map sl_export_id (slots (pl_state p)))" "k < length (slots (pl_state p))"
    and "sl_export_id s = sl_export_id (slots (pl_state p) ! k)"
  shows "slot_for (pl_state (put_slot k s p)) j =
    (if j = sl_export_id s then Some s else slot_for (pl_state p) j)"
  using find_update [OF assms] by (simp add: slot_for_def put_slot_def)

lemma slot_for_position:
  "slot_for st i = map_option ((!) (slots st)) (position (\<lambda>s. sl_export_id s = i) (slots st))"
  by (simp add: slot_for_def find_position)

lemma slot_at_find:
  assumes "state_inv st"
  shows "slot_at st ep = List.find (\<lambda>s. matter_endpoint s = ep) (slots st)"
    and "slot_at st ep = Some s \<longleftrightarrow> s \<in> set (slots st) \<and> matter_endpoint s = ep"
proof -
  have sorted: "sorted_wrt (<) (map matter_endpoint (slots st))" using assms by (simp add: state_inv_def)
  then show f: "slot_at st ep = List.find (\<lambda>s. matter_endpoint s = ep) (slots st)"
    by (simp add: slot_at_def slot_index_at_def binary_search_position find_position)
  have "distinct (map matter_endpoint (slots st))" using sorted by (simp add: strict_sorted_iff)
  then show "slot_at st ep = Some s \<longleftrightarrow> s \<in> set (slots st) \<and> matter_endpoint s = ep"
    unfolding f by (rule find_unique)
qed

section \<open>What applying a state does to a slot\<close>

lemma slot_for_placed:
  assumes "state_inv (pl_state p)" and "slot_for (pl_state p) i = Some s"
  shows "slot_at (pl_state p) (matter_endpoint s) = Some s" "slot_ok s" "sl_export_id s = i"
    "matter_endpoint_of (sl_export s) = Some (matter_endpoint s)"
proof -
  have s: "s \<in> set (slots (pl_state p))" "sl_export_id s = i" using slot_for_Some [OF assms(2)] by auto
  with slot_at_find(2) [OF assms(1)] show "slot_at (pl_state p) (matter_endpoint s) = Some s" "sl_export_id s = i" by auto
  from s(1) assms(1) show "slot_ok s" "matter_endpoint_of (sl_export s) = Some (matter_endpoint s)"
    by (auto simp: state_inv_def list_all_iff slot_placed_def)
qed

lemma store_changed:
  "fst (store_on v s) \<longleftrightarrow> kind (snd (store_on v s)) \<noteq> kind s"
  "fst (store_closed v s) \<longleftrightarrow> kind (snd (store_closed v s)) \<noteq> kind s"
  "fst (store_occupied v s) \<longleftrightarrow> kind (snd (store_occupied v s)) \<noteq> kind s"
  by (auto simp: store_on_def store_closed_def store_occupied_def split: slot_kind.splits)

lemma apply_cover_ha_changed: "fst (apply_cover_ha ha s) \<longleftrightarrow> kind (snd (apply_cover_ha ha s)) \<noteq> kind s"
  by (cases "kind s"; cases "ha_motion ha"; cases "ha_position ha")
    (auto simp: apply_cover_ha_def swap_opt_def Let_def)

lemma kind_only:
  "\<exists>k. snd (store_on v s) = s\<lparr>kind := k\<rparr>" "\<exists>k. snd (store_closed v s) = s\<lparr>kind := k\<rparr>"
  "\<exists>k. snd (store_occupied v s) = s\<lparr>kind := k\<rparr>" "\<exists>k. snd (apply_cover_ha ha s) = s\<lparr>kind := k\<rparr>"
proof -
  have same: "\<exists>k. s = s\<lparr>kind := k\<rparr>" by (rule exI [of _ "kind s"]) simp
  show "\<exists>k. snd (store_on v s) = s\<lparr>kind := k\<rparr>" "\<exists>k. snd (store_closed v s) = s\<lparr>kind := k\<rparr>"
    "\<exists>k. snd (store_occupied v s) = s\<lparr>kind := k\<rparr>"
    unfolding store_shape using same by auto
  show "\<exists>k. snd (apply_cover_ha ha s) = s\<lparr>kind := k\<rparr>"
    by (cases "kind s"; cases "ha_motion ha"; cases "ha_position ha")
      (auto simp: apply_cover_ha_def swap_opt_def Let_def intro!: same)
qed

definition functional_change :: "export_slot \<Rightarrow> bool \<times> export_slot \<Rightarrow> bool" where
  "functional_change s r \<longleftrightarrow>
     (fst r \<longleftrightarrow> kind (snd r) \<noteq> kind s) \<and>
     functional_dataver (snd r) = functional_dataver s + (if fst r then 1 else 0) \<and>
     pending_reports (snd r) = (if fst r then pending_reports s OR REPORT_FUNCTIONAL else pending_reports s)"

lemma slot_apply_state_change: "functional_change s (slot_apply_state states s)"
proof -
  have mark: "functional_change s (case x of (changed, s') \<Rightarrow> if changed then (True, mark_functional_changed s') else (False, s'))"
    if "fst x \<longleftrightarrow> kind (snd x) \<noteq> kind s" "\<exists>k. snd x = s\<lparr>kind := k\<rparr>" for x
    using that by (auto simp: functional_change_def split: prod.splits)
  have none: "functional_change s (False, s)" by (simp add: functional_change_def)
  show ?thesis
    by (auto simp: slot_apply_state_def Let_def intro!: mark none store_changed apply_cover_ha_changed kind_only
        split: slot_kind.splits option.splits)
qed

lemma slot_apply_state_kind:
  "kind (snd (slot_apply_state states s)) =
     (case kind s of
        KOnOff on \<Rightarrow> KOnOff (case on_off_from_states (sl_export s) states of None \<Rightarrow> on | Some v \<Rightarrow> v)
      | KContact c \<Rightarrow> KContact (case primary_ha_on (sl_export s) states of None \<Rightarrow> c | Some v \<Rightarrow> \<not> v)
      | KMotion m \<Rightarrow> KMotion (case primary_ha_on (sl_export s) states of None \<Rightarrow> m | Some v \<Rightarrow> v)
      | KCover p t m \<Rightarrow> (case primary_cover_state (sl_export s) states of
            None \<Rightarrow> KCover p t m | Some ha \<Rightarrow> kind (snd (apply_cover_ha ha s))))"
  by (auto simp: slot_apply_state_def Let_def store_on_def store_closed_def store_occupied_def
      state_value_from_ha_on_def split: slot_kind.splits option.splits prod.splits if_splits)

lemma put_slot_frame [simp]:
  "commands (put_slot k s p) = commands p" "wake (put_slot k s p) = wake p"
  "config_requested (put_slot k s p) = config_requested p" "config_applied (put_slot k s p) = config_applied p"
  "window_deadline (put_slot k s p) = window_deadline p" "fabric_count (put_slot k s p) = fabric_count p"
  "window_request (put_slot k s p) = window_request p" "aggregator_dataver (put_slot k s p) = aggregator_dataver p"
  by (simp_all add: put_slot_def)

section \<open>What the operations do\<close>

lemma apply_controller_on_off_spec:
  assumes "state_inv (pl_state p)" and "apply_controller_on_off ep on p = (done, p')"
  shows "case slot_at (pl_state p) ep of
      None \<Rightarrow> \<not> done \<and> p' = p
    | Some s \<Rightarrow> (case kind s of
        KOnOff old \<Rightarrow> done \<and> commands p' = commands p @ [on_off_command (sl_export_id s) on] \<and>
          slot_for (pl_state p') (sl_export_id s) =
            Some (s\<lparr>kind := KOnOff on, functional_dataver := functional_dataver s + (if old = on then 0 else 1)\<rparr>) \<and>
          (\<forall>j. j \<noteq> sl_export_id s \<longrightarrow> slot_for (pl_state p') j = slot_for (pl_state p) j)
      | _ \<Rightarrow> \<not> done \<and> p' = p)"
proof (cases "slot_index_at (pl_state p) ep")
  case None
  with assms(2) show ?thesis by (simp add: slot_at_def apply_controller_on_off_def)
next
  case (Some k)
  let ?s = "slots (pl_state p) ! k"
  have at: "slot_at (pl_state p) ep = Some ?s" using Some by (simp add: slot_at_def)
  have put: "slot_for (pl_state (put_slot k s p)) j = (if j = sl_export_id s then Some s else slot_for (pl_state p) j)"
    if "sl_export_id s = sl_export_id ?s" for s j
    using assms(1) slot_index_at_length [OF assms(1) Some] that by (intro slot_for_put) (simp_all add: state_inv_def)
  show ?thesis
    using assms(2) Some at
    by (auto simp: apply_controller_on_off_def store_on_def push_command_def bump_functional_def put Let_def
        split: slot_kind.splits)
qed

lemma apply_controller_cover_spec:
  assumes "state_inv (pl_state p)" and "apply_controller_cover ep ck x p = (done, p')"
    and "ck \<in> {CoverOpen, CoverClose, CoverStop, CoverPosition}"
  shows "case slot_at (pl_state p) ep of
      None \<Rightarrow> \<not> done \<and> p' = p
    | Some s \<Rightarrow> (case kind s of
        KCover pos tgt mov \<Rightarrow>
          (let goal = (case ck of CoverOpen \<Rightarrow> 100 | CoverClose \<Rightarrow> 0 | CoverStop \<Rightarrow> pos
                       | _ \<Rightarrow> (case x of Some y \<Rightarrow> min y 100 | None \<Rightarrow> min tgt 100))
           in done \<and>
              commands p' = commands p @ [\<lparr>cmd_export_id = sl_export_id s, cmd_kind = ck, cmd_on = None, cmd_level = None,
                cmd_position = (if ck = CoverPosition then Some goal else None)\<rparr>] \<and>
              slot_for (pl_state p') (sl_export_id s) =
                Some (s\<lparr>kind := KCover pos goal (ck \<noteq> CoverStop), functional_dataver := functional_dataver s + 1\<rparr>) \<and>
              (\<forall>j. j \<noteq> sl_export_id s \<longrightarrow> slot_for (pl_state p') j = slot_for (pl_state p) j))
      | _ \<Rightarrow> \<not> done \<and> p' = p)"
proof (cases "slot_index_at (pl_state p) ep")
  case None
  with assms(2) show ?thesis by (simp add: slot_at_def apply_controller_cover_def)
next
  case (Some k)
  let ?s = "slots (pl_state p) ! k"
  have at: "slot_at (pl_state p) ep = Some ?s" using Some by (simp add: slot_at_def)
  have put: "slot_for (pl_state (put_slot k s p)) j = (if j = sl_export_id s then Some s else slot_for (pl_state p) j)"
    if "sl_export_id s = sl_export_id ?s" for s j
    using assms(1) slot_index_at_length [OF assms(1) Some] that by (intro slot_for_put) (simp_all add: state_inv_def)
  note defs = apply_controller_cover_def push_command_def bump_functional_def cover_command_def cover_command_open_def
    cover_command_close_def cover_command_stop_def cover_command_position_def
  show ?thesis
    using assms(2,3) Some at put
    by (cases "kind ?s"; cases ck; cases x)
      (auto simp: defs Let_def slot_reads)
qed

lemma apply_state_spec:
  assumes "state_inv (pl_state p)" and "apply_state i states p = (applied, p')"
  shows "commands p' = commands p \<and> config_requested p' = config_requested p \<and>
    applied = (if slot_for (pl_state p) i = None \<and> i \<notin> known (pl_state p) then 0 else of_nat (length states)) \<and>
    (\<forall>j. j \<noteq> i \<longrightarrow> slot_for (pl_state p') j = slot_for (pl_state p) j) \<and>
    (slot_for (pl_state p) i = None \<longrightarrow> p' = p) \<and>
    (\<forall>s. slot_for (pl_state p) i = Some s \<longrightarrow>
       (\<exists>s'. slot_for (pl_state p') i = Some s' \<and>
          kind s' = (case kind s of
              KOnOff on \<Rightarrow> KOnOff (case on_off_from_states (sl_export s) states of None \<Rightarrow> on | Some v \<Rightarrow> v)
            | KContact c \<Rightarrow> KContact (case primary_ha_on (sl_export s) states of None \<Rightarrow> c | Some v \<Rightarrow> \<not> v)
            | KMotion m \<Rightarrow> KMotion (case primary_ha_on (sl_export s) states of None \<Rightarrow> m | Some v \<Rightarrow> v)
            | KCover x t m \<Rightarrow> (case primary_cover_state (sl_export s) states of
                  None \<Rightarrow> KCover x t m | Some ha \<Rightarrow> kind (snd (apply_cover_ha ha s)))) \<and>
          wake p' = (wake p \<or> kind s' \<noteq> kind s) \<and>
          functional_dataver s' = functional_dataver s + (if kind s' = kind s then 0 else 1) \<and>
          pending_reports s' = (if kind s' = kind s then pending_reports s else pending_reports s OR REPORT_FUNCTIONAL)))"
proof (cases "position (\<lambda>s. sl_export_id s = i) (slots (pl_state p))")
  case None
  then have "slot_for (pl_state p) i = None" by (simp add: slot_for_position)
  with None assms(2) show ?thesis by (auto simp: apply_state_def split: if_splits)
next
  case (Some k)
  let ?s = "slots (pl_state p) ! k"
  define r where "r = slot_apply_state states ?s"
  have k: "k < length (slots (pl_state p))" "sl_export_id ?s = i" using Some by (simp_all add: position_Some)
  have get: "slot_for (pl_state p) i = Some ?s" using Some by (simp add: slot_for_position)
  have id: "sl_export_id (snd r) = sl_export_id ?s"
    using slot_apply_state_step [of ?s states] by (simp add: r_def slot_step_def same_identity_def)
  have eq: "applied = of_nat (length states)"
    "p' = (if fst r then (put_slot k (snd r) p)\<lparr>wake := True\<rparr> else put_slot k (snd r) p)"
    using assms(2) Some by (auto simp: apply_state_def Let_def r_def split: prod.splits)
  then have st: "pl_state p' = pl_state (put_slot k (snd r) p)" by simp
  have "distinct (map sl_export_id (slots (pl_state p)))" using assms(1) by (simp add: state_inv_def)
  from slot_for_put [OF this k(1) id]
  have new: "slot_for (pl_state p') j = (if j = i then Some (snd r) else slot_for (pl_state p) j)" for j
    unfolding st by (simp add: id k(2))
  have "functional_change ?s r" unfolding r_def by (rule slot_apply_state_change)
  then have "functional_change ?s r \<and> kind (snd r) = kind (snd (slot_apply_state states ?s))" by (simp add: r_def)
  with eq get new show ?thesis
    unfolding slot_apply_state_kind [symmetric] by (auto simp: functional_change_def put_slot_def)
qed

end
