(* ===== verification/Pairing_Window.thy ===== *)
theory Pairing_Window
  imports Plane_Invariant Timed_Window
begin

text \<open>
  The pairing window of the plane: the bridge-tracked deadline, the fabric count it is compared with,
  the mailbox that carries a request from the control plane to the stack thread, and the decisions of
  \<open>execute_window_op\<close>. The clock and the answers of the Matter stack are arguments; the calls
  made to the stack are returned as a trace.
\<close>

section \<open>The tracked window\<close>

definition pairing_open :: "u64 \<Rightarrow> export_plane \<Rightarrow> bool" where
  "pairing_open now p \<longleftrightarrow> deadline_open now (window_deadline p)"

definition commissioned_fabrics :: "export_plane \<Rightarrow> u8" where
  "commissioned_fabrics p = fabric_count p"

definition note_startup_commissioning_state :: "u64 \<Rightarrow> u8 \<Rightarrow> export_plane \<Rightarrow> export_plane" where
  "note_startup_commissioning_state now count p =
     (let p = p\<lparr>fabric_count := count\<rparr>
      in if count = 0 then p\<lparr>window_deadline := deadline_after now STARTUP_PAIRING_TIMEOUT_SECS\<rparr>
         else p\<lparr>window_deadline := 0\<rparr>)"

definition establish_fabric_baseline :: "u8 \<Rightarrow> export_plane \<Rightarrow> export_plane" where
  "establish_fabric_baseline count p = p\<lparr>fabric_count := count\<rparr>"

definition apply_fabric_sample :: "u64 \<Rightarrow> u8 \<Rightarrow> export_plane \<Rightarrow> export_plane" where
  "apply_fabric_sample now count p =
     (let prev = fabric_count p;
          p = p\<lparr>fabric_count := count\<rparr>;
          p = (if count > prev then p\<lparr>window_deadline := 0\<rparr> else p);
          d = window_deadline p
      in if d \<noteq> 0 \<and> now \<ge> d then p\<lparr>window_deadline := 0\<rparr> else p)"

definition mark_window_closed :: "export_plane \<Rightarrow> export_plane" where
  "mark_window_closed p = p\<lparr>window_deadline := 0\<rparr>"

definition mark_window_opened :: "u64 \<Rightarrow> u16 \<Rightarrow> u8 \<Rightarrow> export_plane \<Rightarrow> export_plane" where
  "mark_window_opened now t count p =
     (establish_fabric_baseline count p)\<lparr>window_deadline := deadline_after now (ucast t)\<rparr>"

section \<open>Decisions on the stack thread\<close>

definition is_comm_window_busy :: "string \<Rightarrow> bool" where
  "is_comm_window_busy err \<longleftrightarrow>
     (let lower = to_ascii_lowercase err
      in contains lower ''busy'' \<or> (contains lower ''already'' \<and> contains lower ''open''))"

text \<open>What the stack and the clock answer during one operation.\<close>

record window_env =
  now_check :: u64
  now_mark :: u64
  count_before :: u8
  count_after :: u8
  open_answer :: "u16 \<Rightarrow> string + unit"
  close_answer :: "string + bool"

datatype stack_call = CallFabricCount | CallOpen u16 | CallClose

definition foreign_window_message :: string where
  "foreign_window_message =
     ''another commissioning window is active (not opened by this bridge); refuse to close it for multi-admin safety''"

definition execute_window_op ::
  "window_env \<Rightarrow> window_op \<Rightarrow> export_plane \<Rightarrow> (string + unit) \<times> stack_call list \<times> export_plane" where
  "execute_window_op env wop p =
     (case wop of
        WOpen t \<Rightarrow>
          if pairing_open (now_check env) p then (Inr (), [], p)
          else
            let p = establish_fabric_baseline (count_before env) p
            in (case open_answer env t of
                  Inr _ \<Rightarrow> (Inr (), [CallFabricCount, CallOpen t, CallFabricCount],
                            mark_window_opened (now_mark env) t (count_after env) p)
                | Inl err \<Rightarrow>
                    if is_comm_window_busy err
                    then (Inl foreign_window_message, [CallFabricCount, CallOpen t], p)
                    else (Inl (''open pairing window failed: '' @ err), [CallFabricCount, CallOpen t], p))
      | WClose \<Rightarrow>
          if \<not> pairing_open (now_check env) p then (Inr (), [], mark_window_closed p)
          else (case close_answer env of
                  Inr _ \<Rightarrow> (Inr (), [CallClose], mark_window_closed p)
                | Inl err \<Rightarrow> (Inl (''close pairing window failed: '' @ err), [CallClose], p)))"

section \<open>The mailbox\<close>

text \<open>
  \<open>post_window_request\<close> in its three steps: posting (refused while the mailbox is full), the reply
  of the stack (not a step on the plane), and the timeout of the caller, which empties the mailbox
  whatever is in it. \<open>take_window_request\<close> is the \<open>take()\<close> of \<open>drain_window_request\<close>.
\<close>

definition post_window_request :: "window_op \<Rightarrow> nat \<Rightarrow> export_plane \<Rightarrow> (string + unit) \<times> export_plane" where
  "post_window_request wop ticket p =
     (if window_request p \<noteq> None then (Inl ''pairing window request already in flight'', p)
      else (Inr (), p\<lparr>window_request := Some \<lparr>req_op = wop, req_ticket = ticket\<rparr>, wake := True\<rparr>))"

definition window_request_timeout :: "export_plane \<Rightarrow> string \<times> export_plane" where
  "window_request_timeout p =
     (''pairing window request timed out waiting for the Matter stack'',
      if window_request p \<noteq> None then p\<lparr>window_request := None\<rparr> else p)"

definition take_window_request :: "export_plane \<Rightarrow> window_request option \<times> export_plane" where
  "take_window_request p = (window_request p, p\<lparr>window_request := None\<rparr>)"

definition request_open_window :: "u16 \<Rightarrow> nat \<Rightarrow> export_plane \<Rightarrow> (string + unit) \<times> export_plane" where
  "request_open_window t ticket p = post_window_request (WOpen (clamp_pairing_timeout t)) ticket p"

definition request_close_window :: "nat \<Rightarrow> export_plane \<Rightarrow> (string + unit) \<times> export_plane" where
  "request_close_window ticket p = post_window_request WClose ticket p"

text \<open>One request served on the stack thread: the ticket replied to, with the result.\<close>

definition drain_window_request ::
  "window_env \<Rightarrow> export_plane \<Rightarrow> (nat \<times> (string + unit)) option \<times> stack_call list \<times> export_plane" where
  "drain_window_request env p =
     (case take_window_request p of
        (None, p) \<Rightarrow> (None, [], p)
      | (Some req, p) \<Rightarrow>
          (case execute_window_op env (req_op req) p of
             (result, calls, p) \<Rightarrow> (Some (req_ticket req, result), calls, p)))"

definition read_fabric_count :: "nat \<Rightarrow> u8" where
  "read_fabric_count n = (if n < 256 then of_nat n else - 1)"

definition sample_fabrics :: "u64 \<Rightarrow> nat \<Rightarrow> export_plane \<Rightarrow> export_plane" where
  "sample_fabrics now n p = apply_fabric_sample now (read_fabric_count n) p"

interpretation plane_window: timed_window window_deadline pairing_open
  "\<lambda>now t p. mark_window_opened now t c p" mark_window_closed for c
  by unfold_locales (simp_all add: pairing_open_def mark_window_opened_def mark_window_closed_def)

section \<open>Properties\<close>

text \<open>C25: The bridge never interferes with a window it did not open: the stack's close is called only for a close
  request while the bridge's own window is open, its open only for an open request while that window is
  closed, each at most once; an open request on an open window changes nothing (the deadline is not
  extended); a failed operation leaves the deadline as it was.\<close>

theorem window_op_safety:
  assumes "execute_window_op env wop p = (r, calls, p')"
  shows "(CallClose \<in> set calls \<longleftrightarrow> wop = WClose \<and> pairing_open (now_check env) p) \<and>
    (\<forall>t. CallOpen t \<in> set calls \<longleftrightarrow> wop = WOpen t \<and> \<not> pairing_open (now_check env) p) \<and>
    length (filter (\<lambda>c. c \<noteq> CallFabricCount) calls) \<le> 1 \<and>
    (pairing_open (now_check env) p \<longrightarrow> (\<exists>t. wop = WOpen t) \<longrightarrow> p' = p \<and> r = Inr ()) \<and>
    (r \<noteq> Inr () \<longrightarrow> window_deadline p' = window_deadline p) \<and>
    pl_state p' = pl_state p \<and> commands p' = commands p"
  using assms
  by (auto simp: execute_window_op_def Let_def establish_fabric_baseline_def mark_window_opened_def mark_window_closed_def
      split: window_op.splits if_splits sum.splits)

definition demo_window_env :: window_env where
  "demo_window_env = \<lparr>now_check = 1000, now_mark = 1001, count_before = 0, count_after = 1,
     open_answer = (\<lambda>_. Inr ()), close_answer = Inr True\<rparr>"

definition busy_window_env :: window_env where
  "busy_window_env = demo_window_env\<lparr>open_answer := (\<lambda>_. Inl ''Error::Busy'')\<rparr>"

theorem window_op_safety_witness:
  "\<exists>r calls p'. execute_window_op busy_window_env (WOpen 300) (plane_new 5) = (r, calls, p') \<and>
     CallOpen 300 \<in> set calls \<and> CallClose \<notin> set calls \<and> window_deadline p' = 0"
proof -
  obtain r calls p' where e: "execute_window_op busy_window_env (WOpen 300) (plane_new 5) = (r, calls, p')"
    using prod_cases3 by blast
  moreover have "r \<noteq> Inr ()"
    using e by (auto simp: execute_window_op_def Let_def pairing_open_def plane_new_def busy_window_env_def demo_window_env_def
        split: if_splits)
  ultimately show ?thesis
    using window_op_safety [OF e] by (auto simp: pairing_open_def plane_new_def)
qed

text \<open>
  What the stack thread does to the window until the next open request: samples of the fabrics, at a time and with
  a count, and close requests it serves. An open request in between changes nothing (\<open>window_op_safety\<close>).
\<close>

datatype window_event = Sampled u64 u8 | CloseServed window_env

fun event_time :: "window_event \<Rightarrow> u64" where
  "event_time (Sampled now count) = now"
| "event_time (CloseServed env) = now_check env"

fun on_window_event :: "window_event \<Rightarrow> export_plane \<Rightarrow> export_plane" where
  "on_window_event (Sampled now count) p = apply_fabric_sample now count p"
| "on_window_event (CloseServed env) p = snd (snd (execute_window_op env WClose p))"

definition close_succeeds :: "window_event \<Rightarrow> bool" where
  "close_succeeds ev \<longleftrightarrow> (case ev of CloseServed env \<Rightarrow> (\<exists>x. close_answer env = Inr x) | _ \<Rightarrow> False)"

definition sampled_counts :: "window_event list \<Rightarrow> u8 list" where
  "sampled_counts es = List.map_filter (\<lambda>ev. case ev of Sampled now count \<Rightarrow> Some count | _ \<Rightarrow> None) es"

lemma on_window_event_closed: "window_deadline p = 0 \<Longrightarrow> window_deadline (on_window_event ev p) = 0"
  by (cases ev)
    (auto simp: apply_fabric_sample_def execute_window_op_def pairing_open_def mark_window_closed_def Let_def split: sum.splits)

lemma window_events_closed: "window_deadline p = 0 \<Longrightarrow> window_deadline (fold on_window_event es p) = 0"
  by (induction es arbitrary: p) (simp_all add: on_window_event_closed)

text \<open>The fabric counts never rise from one sample to the next, starting from the count of the plane.\<close>

fun no_new_fabric :: "u8 \<Rightarrow> u8 list \<Rightarrow> bool" where
  "no_new_fabric n [] \<longleftrightarrow> True"
| "no_new_fabric n (m # ms) \<longleftrightarrow> m \<le> n \<and> no_new_fabric m ms"

lemma window_events:
  assumes "window_deadline p = dl" and "dl \<noteq> 0"
  shows "pairing_open now (fold on_window_event es p) \<longleftrightarrow>
    (\<forall>ev \<in> set es. event_time ev < dl \<and> \<not> close_succeeds ev) \<and> no_new_fabric (fabric_count p) (sampled_counts es) \<and> now < dl"
  using assms(1)
proof (induction es arbitrary: p)
  case Nil
  then show ?case using assms(2) by (simp add: pairing_open_def deadline_open_def sampled_counts_def List.map_filter_simps)
next
  case (Cons ev es)
  have gone: "\<not> pairing_open now (fold on_window_event es q)" if "window_deadline q = 0" for q
    using window_events_closed [OF that, of es] by (simp add: pairing_open_def)
  show ?case
  proof (cases ev)
    case (Sampled time count)
    show ?thesis
    proof (cases "count \<le> fabric_count p \<and> time < dl")
      case True
      then have "window_deadline (on_window_event ev p) = dl" "fabric_count (on_window_event ev p) = count"
        using Cons.prems by (auto simp: Sampled apply_fabric_sample_def Let_def not_less not_le)
      with Cons.IH [of "on_window_event ev p"] True show ?thesis
        by (auto simp: Sampled sampled_counts_def List.map_filter_simps close_succeeds_def)
    next
      case False
      then have "window_deadline (on_window_event ev p) = 0"
        using Cons.prems by (auto simp: Sampled apply_fabric_sample_def Let_def)
      with gone False show ?thesis
        by (auto simp: Sampled sampled_counts_def List.map_filter_simps)
    qed
  next
    case (CloseServed env)
    show ?thesis
    proof (cases "now_check env < dl \<and> (\<exists>e. close_answer env = Inl e)")
      case True
      then have "on_window_event ev p = p"
        using Cons.prems assms(2)
        by (auto simp: CloseServed execute_window_op_def pairing_open_def deadline_open_def)
      with Cons.IH [of p] Cons.prems True show ?thesis
        by (auto simp: CloseServed sampled_counts_def List.map_filter_simps close_succeeds_def)
    next
      case False
      then have "window_deadline (on_window_event ev p) = 0"
        using Cons.prems assms(2)
        by (auto simp: CloseServed execute_window_op_def pairing_open_def deadline_open_def mark_window_closed_def split: sum.splits)
      moreover have "now_check env < dl \<Longrightarrow> close_succeeds ev"
        using False by (cases "close_answer env") (auto simp: CloseServed close_succeeds_def)
      ultimately show ?thesis using gone by (auto simp: CloseServed)
    qed
  qed
qed

text \<open>C28: A window the bridge opens is reported open from then on until its timeout runs out, a fabric is added or a
  close request succeeds, and no longer: after any sequence of fabric samples and served close requests on the
  stack thread, up to the next open request, it is open exactly if all of them and the question come before the
  timeout, the fabric counts never rise, starting from the fabrics counted right after the opening, and the stack
  refused every close.\<close>

theorem opened_window_lifetime:
  assumes "execute_window_op env (WOpen t) p = (Inr (), calls, p')" and "\<not> pairing_open (now_check env) p"
    and "0 < t" and "unat (now_mark env) + unat t < 2 ^ 64"
  shows "pairing_open now' (fold on_window_event es p') \<longleftrightarrow>
    (\<forall>ev \<in> set es. unat (event_time ev) < unat (now_mark env) + unat t \<and> \<not> close_succeeds ev) \<and>
    no_new_fabric (count_after env) (sampled_counts es) \<and> unat now' < unat (now_mark env) + unat t"
proof -
  have p': "p' = mark_window_opened (now_mark env) t (count_after env) (establish_fabric_baseline (count_before env) p)"
    using assms(1,2) by (auto simp: execute_window_op_def Let_def split: sum.splits if_splits)
  define dl where "dl = window_deadline p'"
  have "0 < unat t" using assms(3) by (simp add: word_less_nat_alt)
  then have "deadline_open n dl \<longleftrightarrow> unat n < unat (now_mark env) + unat t" for n
    using plane_window.opened_until [OF _ assms(4), of n] by (simp add: p' dl_def pairing_open_def)
  then have less: "dl \<noteq> 0 \<and> n < dl \<longleftrightarrow> unat n < unat (now_mark env) + unat t" for n by (simp add: deadline_open_def)
  have "unat (now_mark env) < unat (now_mark env) + unat t" using \<open>0 < unat t\<close> by simp
  then have "dl \<noteq> 0" using less by blast
  moreover have "fabric_count p' = count_after env"
    by (simp add: p' mark_window_opened_def establish_fabric_baseline_def)
  ultimately show ?thesis using window_events [OF dl_def [symmetric], of now' es] less by simp
qed

theorem opened_window_lifetime_witness:
  "\<exists>calls p'. execute_window_op demo_window_env (WOpen 300) (plane_new 5) = (Inr (), calls, p') \<and>
     pairing_open 1300 (fold on_window_event
       [Sampled 1002 1, CloseServed (demo_window_env\<lparr>close_answer := Inl ''Busy''\<rparr>), Sampled 1100 0] p') \<and>
     \<not> pairing_open 1200 (fold on_window_event [Sampled 1002 0, Sampled 1003 1] p') \<and>
     \<not> pairing_open 1200 (fold on_window_event [CloseServed demo_window_env] p') \<and> \<not> pairing_open 1301 p'"
proof -
  have closed: "\<not> pairing_open (now_check demo_window_env) (plane_new 5)" by (simp add: pairing_open_def plane_new_def)
  then obtain calls p' where e: "execute_window_op demo_window_env (WOpen 300) (plane_new 5) = (Inr (), calls, p')"
    by (simp add: execute_window_op_def demo_window_env_def)
  have "(0 :: u16) < 300" "unat (now_mark demo_window_env) + unat (300 :: u16) < 2 ^ 64"
    by (simp_all add: demo_window_env_def)
  note open_iff = opened_window_lifetime [OF e closed this]
  have "pairing_open 1300 (fold on_window_event
      [Sampled 1002 1, CloseServed (demo_window_env\<lparr>close_answer := Inl ''Busy''\<rparr>), Sampled 1100 0] p')"
    unfolding open_iff
    by (simp add: demo_window_env_def close_succeeds_def sampled_counts_def List.map_filter_simps word_le_nat_alt)
  moreover have "\<not> pairing_open 1200 (fold on_window_event [Sampled 1002 0, Sampled 1003 1] p')"
    unfolding open_iff
    by (simp add: demo_window_env_def close_succeeds_def sampled_counts_def List.map_filter_simps word_le_nat_alt)
  moreover have "\<not> pairing_open 1200 (fold on_window_event [CloseServed demo_window_env] p')"
    unfolding open_iff by (auto simp: demo_window_env_def close_succeeds_def)
  moreover have "\<not> pairing_open 1301 p'" using open_iff [of 1301 "[]"] by (simp add: demo_window_env_def)
  ultimately show ?thesis using e by blast
qed

text \<open>A caller that times out empties the mailbox even when the request in it is another caller's: after a first
  request was taken by the stack, a second one is accepted, and the first caller's timeout removes it, so
  the stack never serves it.\<close>

lemma timeout_drops_other_request:
  assumes "window_request p = None"
  shows "let p1 = snd (post_window_request w1 1 p);
             (taken, p2) = take_window_request p1;
             (r2, p3) = post_window_request w2 2 p2;
             p4 = snd (window_request_timeout p3)
         in taken = Some \<lparr>req_op = w1, req_ticket = 1\<rparr> \<and> r2 = Inr () \<and>
            map_option req_ticket (window_request p3) = Some 2 \<and>
            drain_window_request env p4 = (None, [], p4)"
  using assms
  by (simp add: post_window_request_def take_window_request_def window_request_timeout_def drain_window_request_def)

lemma timeout_drops_other_request_witness:
  "drain_window_request demo_window_env (snd (window_request_timeout (snd (post_window_request WClose 2
     (snd (take_window_request (snd (post_window_request (WOpen 300) 1 (plane_new 5))))))))) =
   (None, [], snd (window_request_timeout (snd (post_window_request WClose 2
     (snd (take_window_request (snd (post_window_request (WOpen 300) 1 (plane_new 5)))))))))"
proof -
  have "window_request (plane_new 5) = None" by (simp add: plane_new_def)
  from timeout_drops_other_request [OF this, of "WOpen 300" WClose demo_window_env]
  show ?thesis by (simp only: Let_def case_prod_beta)
qed

end
