(* ===== verification/Rs_Backend.thy ===== *)
theory Rs_Backend
  imports Backend_Contract Pairing_Window Commissioning
begin

text \<open>
  \<open>matter/rs_matter_backend.rs\<close>: the backend around the export plane and the Matter stack thread.
  First the operations of the trait, which delegate to the plane; then what the stack thread does until it
  is ready (\<open>stack_prepare\<close>, the answers of the system and of the Matter library are arguments), and the
  start protocol between that thread and the caller of \<open>start\<close>, store by store.
\<close>

section \<open>The backend\<close>

record rs_backend =
  rs_plane :: export_plane
  rs_running :: bool
  rs_error :: "string option"
  rs_pairing :: pairing_material
  rs_mdns_interface :: "string option"

definition rs_new ::
  "'t material_codec \<Rightarrow> 't fs_env \<Rightarrow> (nat \<Rightarrow> u32) \<Rightarrow> u16 \<Rightarrow> (commissioning_material \<Rightarrow> pairing_material) \<Rightarrow> u32 \<Rightarrow>
     string option \<Rightarrow> 't disk \<Rightarrow> ((commissioning_error + rs_backend) \<times> 't disk) option" where
  "rs_new c env rng n codes rnd mdns d =
     map_option (\<lambda>(r, d'). (map_sum id (\<lambda>m.
         \<lparr>rs_plane = plane_new rnd, rs_running = False, rs_error = None, rs_pairing = codes m,
          rs_mdns_interface = Option.bind (map_option trim mdns) (\<lambda>s. if s = [] then None else Some s)\<rparr>) r, d'))
       (load_or_generate c env rng n d)"

lemma rs_new_fields:
  assumes "rs_new c env rng n codes rnd mdns d = Some (Inr b, d')"
  shows "rs_plane b = plane_new rnd \<and> \<not> rs_running b"
proof -
  obtain r where "load_or_generate c env rng n d = Some (r, d')"
    using assms by (auto simp: rs_new_def)
  with assms show ?thesis by (cases r) (auto simp: rs_new_def)
qed

text \<open>
  Waiting for the stack after posting a window request: the stack thread samples the fabrics and serves
  the request (the reply it sends is the result), or the caller times out.
\<close>

datatype stack_reply = Served u64 nat window_env | NotServed

definition await_stack :: "stack_reply \<Rightarrow> (string + unit) \<times> export_plane \<Rightarrow> (string + unit) \<times> export_plane" where
  "await_stack reply posted =
     and_then posted (\<lambda>_ p.
       case reply of
         NotServed \<Rightarrow> (let (msg, p) = window_request_timeout p in (Inl msg, p))
       | Served now n env \<Rightarrow>
           (case drain_window_request env (sample_fabrics now n p) of
              (None, _, p) \<Rightarrow> (Inr (), p)
            | (Some (_, r), _, p) \<Rightarrow> (r, p)))"

record rs_env =
  rv_dir :: "string + unit"
  rv_spawn :: "rs_backend \<Rightarrow> (string + unit) \<times> rs_backend"
  rv_now :: u64
  rv_rnd :: "u16 \<Rightarrow> u32 \<times> u32 \<times> u32"
  rv_reply :: stack_reply

definition rs_start :: "rs_env \<Rightarrow> rs_backend \<Rightarrow> (string + unit) \<times> rs_backend" where
  "rs_start env b =
     (if rs_running b then (Inr (), b)
      else case rv_dir env of
             Inl e \<Rightarrow> (Inl e, b)
           | Inr _ \<Rightarrow> rv_spawn env (b\<lparr>rs_error := None\<rparr>))"

definition on_plane :: "(export_plane \<Rightarrow> 'a \<times> export_plane) \<Rightarrow> rs_backend \<Rightarrow> 'a \<times> rs_backend" where
  "on_plane f b = (case f (rs_plane b) of (r, p) \<Rightarrow> (r, b\<lparr>rs_plane := p\<rparr>))"

definition rs_open_pairing_window :: "rs_env \<Rightarrow> u16 \<Rightarrow> rs_backend \<Rightarrow> (string + unit) \<times> rs_backend" where
  "rs_open_pairing_window env t b =
     (if \<not> rs_running b then (Inl ''Matter stack is not running'', b)
      else let timeout = clamp_pairing_timeout t
           in on_plane (\<lambda>p. await_stack (rv_reply env) (request_open_window timeout 0 p)) b)"

definition rs_close_pairing_window :: "rs_env \<Rightarrow> rs_backend \<Rightarrow> (string + unit) \<times> rs_backend" where
  "rs_close_pairing_window env b =
     (if \<not> rs_running b then (Inl ''Matter stack is not running'', b)
      else on_plane (\<lambda>p. await_stack (rv_reply env) (request_close_window 0 p)) b)"

definition rs_set_exports :: "rs_env \<Rightarrow> export list \<Rightarrow> rs_backend \<Rightarrow> (string + unit) \<times> rs_backend" where
  "rs_set_exports env es b = on_plane (\<lambda>p. (Inr (), set_exports (rv_rnd env) es p)) b"

definition rs_apply_state :: "uuid \<Rightarrow> ha_state_value list \<Rightarrow> rs_backend \<Rightarrow> (string + u32) \<times> rs_backend" where
  "rs_apply_state i sts b = on_plane (\<lambda>p. case apply_state i sts p of (n, p) \<Rightarrow> (Inr n, p)) b"

definition rs_take_commands :: "rs_backend \<Rightarrow> command_request list \<times> rs_backend" where
  "rs_take_commands b = on_plane take_commands b"

definition rs_ops :: "rs_env \<Rightarrow> rs_backend backend_ops" where
  "rs_ops env =
     \<lparr>be_kind = BackendRsMatter, be_start = rs_start env, be_is_running = rs_running,
      be_pairing_open = (\<lambda>b. pairing_open (rv_now env) (rs_plane b)),
      be_open_pairing_window = rs_open_pairing_window env, be_close_pairing_window = rs_close_pairing_window env,
      be_commissioned_fabrics = (\<lambda>b. commissioned_fabrics (rs_plane b)), be_set_exports = rs_set_exports env,
      be_apply_state = rs_apply_state, be_take_commands = rs_take_commands, be_pairing_info = rs_pairing,
      be_status_error = rs_error\<rparr>"

section \<open>The contract\<close>

lemma execute_window_op_frame:
  assumes "execute_window_op env wop p = (r, calls, p')"
  shows "pl_state p' = pl_state p" "commands p' = commands p"
  using assms
  by (auto simp: execute_window_op_def Let_def establish_fabric_baseline_def mark_window_opened_def mark_window_closed_def
      split: window_op.splits if_splits sum.splits)

lemma await_stack_frame:
  assumes "pl_state (snd posted) = pl_state p" and "commands (snd posted) = commands p"
  shows "pl_state (snd (await_stack reply posted)) = pl_state p" "commands (snd (await_stack reply posted)) = commands p"
proof -
  obtain r q where posted: "posted = (r, q)" by fastforce
  have "pl_state (snd (await_stack reply posted)) = pl_state q \<and> commands (snd (await_stack reply posted)) = commands q"
    by (cases r; cases reply)
      (auto simp: posted await_stack_def window_request_timeout_def drain_window_request_def take_window_request_def
        sample_fabrics_def apply_fabric_sample_def Let_def execute_window_op_frame
        split: option.splits prod.splits)
  with assms posted
  show "pl_state (snd (await_stack reply posted)) = pl_state p" "commands (snd (await_stack reply posted)) = commands p"
    by simp_all
qed

lemma request_frame:
  "pl_state (snd (request_open_window t k p)) = pl_state p" "commands (snd (request_open_window t k p)) = commands p"
  "pl_state (snd (request_close_window k p)) = pl_state p" "commands (snd (request_close_window k p)) = commands p"
  by (simp_all add: request_open_window_def request_close_window_def post_window_request_def)

definition rs_known :: "rs_backend \<Rightarrow> uuid set" where
  "rs_known b = known (pl_state (rs_plane b))"

definition rs_queued :: "rs_backend \<Rightarrow> command_request list" where
  "rs_queued b = commands (rs_plane b)"

definition rs_inv :: "rs_backend \<Rightarrow> bool" where
  "rs_inv b \<longleftrightarrow> state_inv (pl_state (rs_plane b))"

lemma snd_on_plane: "rs_plane (snd (on_plane f b)) = snd (f (rs_plane b))"
  by (simp add: on_plane_def split: prod.splits)

lemma rs_window_frame:
  "pl_state (rs_plane (snd (rs_open_pairing_window env t b))) = pl_state (rs_plane b)"
  "commands (rs_plane (snd (rs_open_pairing_window env t b))) = commands (rs_plane b)"
  "pl_state (rs_plane (snd (rs_close_pairing_window env b))) = pl_state (rs_plane b)"
  "commands (rs_plane (snd (rs_close_pairing_window env b))) = commands (rs_plane b)"
  by (simp_all add: rs_open_pairing_window_def rs_close_pairing_window_def snd_on_plane await_stack_frame request_frame)

lemma apply_state_frame:
  "known (pl_state (snd (apply_state i sts p))) = known (pl_state p)" "commands (snd (apply_state i sts p)) = commands p"
  by (simp_all add: apply_state_def put_slot_def Let_def split: option.splits prod.splits)

lemma apply_state_count:
  "i \<in> known (pl_state p) \<Longrightarrow> fst (apply_state i sts p) = of_nat (length sts)"
  by (auto simp: apply_state_def Let_def split: option.splits prod.splits)

lemma apply_state_unknown:
  assumes "state_inv (pl_state p)" and "i \<notin> known (pl_state p)"
  shows "apply_state i sts p = (0, p)"
proof -
  have "position (\<lambda>s. sl_export_id s = i) (slots (pl_state p)) = None"
    using assms by (auto simp: position_None state_inv_def list_all_iff slot_placed_def)
  with assms(2) show ?thesis by (simp add: apply_state_def)
qed

lemma set_exports_frame:
  "known (pl_state (set_exports rnd es p)) = export_id ` set es" "commands (set_exports rnd es p) = commands p"
  by (simp_all add: set_exports_def Let_def plane_state_new_def)

lemma rs_apply_result: "rs_apply_state i sts b =
    (Inr (fst (apply_state i sts (rs_plane b))), b\<lparr>rs_plane := snd (apply_state i sts (rs_plane b))\<rparr>)"
  by (simp add: rs_apply_state_def on_plane_def split: prod.splits)

interpretation rs_contract: backend_contract "rs_ops env" rs_known rs_queued rs_inv for env
proof unfold_locales
  fix i sts b
  show "rs_inv b \<Longrightarrow> i \<notin> rs_known b \<Longrightarrow> be_apply_state (rs_ops env) i sts b = (Inr 0, b)"
    by (simp add: rs_ops_def rs_apply_result rs_inv_def rs_known_def apply_state_unknown)
qed (simp_all add: rs_ops_def rs_set_exports_def snd_on_plane rs_known_def rs_queued_def rs_inv_def set_exports_frame
    set_exports_inv rs_apply_result apply_state_frame apply_state_count apply_state_inv rs_take_commands_def
    take_commands_def rs_window_frame on_plane_def)

end
