(* ===== verification/Settling.thy ===== *)
theory Settling
  imports Prelude
begin

text \<open>
  Protocols that come to rest. The threads of a protocol take steps; some steps are arrivals, which bring new
  work from outside, and every other step finishes a part of the work there is. The locale gives what this
  means for runs without arrivals: they have a bounded number of steps, and end nowhere but where all work is
  done. It is interpreted on the slot, cover, mailbox and start protocols.
\<close>

definition own_step :: "('s \<Rightarrow> 's \<Rightarrow> bool) \<Rightarrow> ('s \<Rightarrow> 's \<Rightarrow> bool) \<Rightarrow> 's \<Rightarrow> 's \<Rightarrow> bool" where
  "own_step step arrival s s' \<longleftrightarrow> step s s' \<and> \<not> arrival s s'"

locale settling =
  fixes step :: "'s \<Rightarrow> 's \<Rightarrow> bool"
    and arrival :: "'s \<Rightarrow> 's \<Rightarrow> bool"
    and good :: "'s \<Rightarrow> bool"
    and work :: "'s \<Rightarrow> nat"
  assumes progress: "good s \<Longrightarrow> work s \<noteq> 0 \<Longrightarrow> \<exists>s'. step s s' \<and> \<not> arrival s s'"
    and decreasing: "good s \<Longrightarrow> step s s' \<Longrightarrow> \<not> arrival s s' \<Longrightarrow> work s' < work s"
    and keeps_good: "good s \<Longrightarrow> step s s' \<Longrightarrow> good s'"
begin

lemma own_good: "(own_step step arrival ^^ n) s s' \<Longrightarrow> good s \<Longrightarrow> good s'"
proof (induction n arbitrary: s')
  case (Suc n)
  then show ?case using keeps_good by (auto simp: own_step_def)
qed simp

lemma own_bounded: "(own_step step arrival ^^ n) s s' \<Longrightarrow> good s \<Longrightarrow> n + work s' \<le> work s"
proof (induction n arbitrary: s')
  case (Suc n)
  from Suc.prems(1) obtain t where t: "(own_step step arrival ^^ n) s t" "own_step step arrival t s'" by auto
  with decreasing [of t s'] own_good [OF t(1) Suc.prems(2)] have "work s' < work t" by (simp add: own_step_def)
  with Suc.IH [OF t(1) Suc.prems(2)] show ?case by simp
qed simp

lemma own_steps: "(own_step step arrival ^^ n) s s' \<Longrightarrow> (step ^^ n) s s'"
  by (rule relpowp_mono [of "own_step step arrival" step n s s', rotated]) (simp_all add: own_step_def)

text \<open>A run that cannot go on has done everything, and every run can go on to such a one.\<close>

lemma stuck_done: "good s \<Longrightarrow> (\<And>s'. \<not> own_step step arrival s s') \<Longrightarrow> work s = 0"
  using progress unfolding own_step_def by blast

lemma completes: "good s \<Longrightarrow> \<exists>n s'. n \<le> work s \<and> (own_step step arrival ^^ n) s s' \<and> work s' = 0"
proof (induction "work s" arbitrary: s rule: less_induct)
  case less
  show ?case
  proof (cases "work s = 0")
    case True
    then show ?thesis by (intro exI [of _ 0] exI [of _ s]) simp
  next
    case False
    from progress [OF less.prems this] obtain t where t: "own_step step arrival s t" by (auto simp: own_step_def)
    then have "work t < work s" "good t" using decreasing keeps_good less.prems by (auto simp: own_step_def)
    from less.hyps [OF this] obtain n s' where "n \<le> work t" "(own_step step arrival ^^ n) t s'" "work s' = 0" by blast
    with t \<open>work t < work s\<close> have "Suc n \<le> work s \<and> (own_step step arrival ^^ Suc n) s s' \<and> work s' = 0"
      using relpowp_Suc_I2 [of "own_step step arrival"] by auto
    then show ?thesis by blast
  qed
qed

lemma reachable_steps:
  "(step ^^ n) s s' \<Longrightarrow> R s \<Longrightarrow> (\<And>s s'. R s \<Longrightarrow> step s s' \<Longrightarrow> R s') \<Longrightarrow> R s'"
  by (induction n arbitrary: s') auto

end

end
