(* ===== verification/Stack_Start.thy ===== *)
theory Stack_Start
  imports Rs_Backend Settling
begin

text \<open>
  The start of the Matter stack in \<open>matter/rs_matter_backend.rs\<close>: the preparation on the stack thread
  up to readiness, and the protocol between \<open>run_matter_stack\<close> on its thread and \<open>spawn_stack\<close>
  in the caller, over the shared flags \<open>running\<close> and \<open>error\<close> and the channel. Every store and
  every channel access is a step of its own, and a panic of the thread is a step that stores nothing.
\<close>

section \<open>Preparation\<close>

datatype probe = ProbeOk | ProbeInUse | ProbeOther

definition in_use_message :: "string \<Rightarrow> string" where
  "in_use_message family =
     ''UDP port 5540 already in use ('' @ family @ ''). Stop Matterbridge or any other Matter process that binds 5540, then restart ThatsMatter.''"

definition preflight_matter_udp_port :: "probe \<Rightarrow> probe \<Rightarrow> string + unit" where
  "preflight_matter_udp_port v6 v4 =
     (if v6 = ProbeInUse then Inl (in_use_message ''IPv6'')
      else if v4 = ProbeInUse then Inl (in_use_message ''IPv4'')
      else Inr ())"

text \<open>What the system and the library answer: the number of fabrics after \<open>startup\<close>, the D-Bus connection and the two Avahi calls.\<close>

record stack_env =
  se_probe_v6 :: probe
  se_probe_v4 :: probe
  se_data_dir :: "string + unit"
  se_store_dir :: "string + unit"
  se_startup :: "string + nat"
  se_now :: u64
  se_host :: "string + unix_netif list"
  se_dbus :: "string + unit"
  se_avahi_proxy :: "string + unit"
  se_avahi_version :: "string + string"
  se_run :: "string + unit"

datatype mdns_choice = MdnsAvahi | MdnsBuiltin

definition probe_avahi :: "stack_env \<Rightarrow> string + string" where
  "probe_avahi env =
     (case se_avahi_proxy env of
        Inl e \<Rightarrow> Inl (''Avahi Server2 proxy: '' @ e)
      | Inr _ \<Rightarrow> (case se_avahi_version env of
          Inl e \<Rightarrow> Inl (''Avahi GetVersionString: '' @ e)
        | Inr version \<Rightarrow> Inr version))"

definition mdns_backend :: "stack_env \<Rightarrow> mdns_choice" where
  "mdns_backend env =
     (case se_dbus env of
        Inr _ \<Rightarrow> (case probe_avahi env of Inr _ \<Rightarrow> MdnsAvahi | Inl _ \<Rightarrow> MdnsBuiltin)
      | Inl _ \<Rightarrow> MdnsBuiltin)"

text \<open>Avahi is used exactly when it answered on the bus with its version.\<close>

lemma mdns_backend_avahi:
  "mdns_backend env = MdnsAvahi \<longleftrightarrow>
     se_dbus env = Inr () \<and> se_avahi_proxy env = Inr () \<and> (\<exists>v. se_avahi_version env = Inr v)"
  by (auto simp: mdns_backend_def probe_avahi_def split: sum.splits)

definition stack_prepare :: "stack_env \<Rightarrow> string option \<Rightarrow> export_plane \<Rightarrow> (string + mdns_choice) \<times> export_plane" where
  "stack_prepare env mdns p =
     and_then (preflight_matter_udp_port (se_probe_v6 env) (se_probe_v4 env), p) (\<lambda>_ p.
     and_then (se_data_dir env, p) (\<lambda>_ p.
     and_then (se_store_dir env, p) (\<lambda>_ p.
       case se_startup env of
         Inl e \<Rightarrow> (Inl (''startup: '' @ e), p)
       | Inr n \<Rightarrow>
           let p = note_startup_commissioning_state (se_now env) (read_fabric_count n) p
           in and_then (validate_for_start (lan_new mdns) (se_host env), p) (\<lambda>_ p.
                (Inr (mdns_backend env), p)))))"

lemma stack_prepare_ready:
  assumes "stack_prepare env pin p = (Inr m, p')"
  shows "se_probe_v6 env \<noteq> ProbeInUse \<and> se_probe_v4 env \<noteq> ProbeInUse \<and>
    (\<exists>ifs n. se_host env = Inr ifs \<and> validate_for_start (lan_new pin) (Inr ifs) = Inr () \<and> se_startup env = Inr n \<and>
       p' = note_startup_commissioning_state (se_now env) (read_fabric_count n) p)"
proof (cases "se_host env")
  case (Inl e)
  with assms show ?thesis
    by (auto simp: stack_prepare_def and_then_eq_Inr validate_for_start_def Let_def split: sum.splits)
next
  case (Inr ifs)
  with assms show ?thesis
    by (auto simp: stack_prepare_def and_then_eq_Inr preflight_matter_udp_port_def Let_def split: sum.splits if_splits)
qed

section \<open>The start protocol\<close>

text \<open>Where the stack thread is; the flag is \<open>was_ready\<close>.\<close>

datatype thread_pc =
    TPrepare
  | TPrepared mdns_choice
  | TReadyStored mdns_choice
  | TSent mdns_choice
  | TRunning mdns_choice
  | TEnded "string + unit" bool
  | TCleared "string + unit" bool
  | TErrorSet string
  | TFinished
  | TPanicked

text \<open>Where the caller of \<open>spawn_stack\<close> is; \<open>CErrorSet\<close> is between its two stores.\<close>

datatype caller_pc = CWaiting | CErrorSet string | CStarted | CFailed string

record rs_sys =
  sy_running :: bool
  sy_error :: "string option"
  sy_channel :: "(string + unit) option"
  sy_plane :: export_plane
  sy_thread :: thread_pc
  sy_caller :: caller_pc

definition timed_out_message :: string where "timed_out_message = ''Matter stack start timed out''"
definition unexpected_exit_message :: string where "unexpected_exit_message = ''Matter stack exited unexpectedly''"

inductive stack_step :: "stack_env \<Rightarrow> string option \<Rightarrow> rs_sys \<Rightarrow> rs_sys \<Rightarrow> bool" for env pin where
  prepare_ok: "sy_thread s = TPrepare \<Longrightarrow> stack_prepare env pin (sy_plane s) = (Inr m, p) \<Longrightarrow>
    stack_step env pin s (s\<lparr>sy_plane := p, sy_thread := TPrepared m\<rparr>)"
| prepare_error: "sy_thread s = TPrepare \<Longrightarrow> stack_prepare env pin (sy_plane s) = (Inl e, p) \<Longrightarrow>
    stack_step env pin s (s\<lparr>sy_plane := p, sy_thread := TEnded (Inl e) False\<rparr>)"
| store_running: "sy_thread s = TPrepared m \<Longrightarrow>
    stack_step env pin s (s\<lparr>sy_running := True, sy_thread := TReadyStored m\<rparr>)"
| send_ready: "sy_thread s = TReadyStored m \<Longrightarrow>
    stack_step env pin s (s\<lparr>sy_channel := Some (Inr ()), sy_thread := TSent m\<rparr>)"
| store_ready_sent: "sy_thread s = TSent m \<Longrightarrow> stack_step env pin s (s\<lparr>sy_thread := TRunning m\<rparr>)"
| run_error: "sy_thread s = TRunning m \<Longrightarrow> se_run env = Inl e \<Longrightarrow>
    stack_step env pin s (s\<lparr>sy_thread := TEnded (Inl (''run: '' @ e)) True\<rparr>)"
| run_exit: "sy_thread s = TRunning m \<Longrightarrow> se_run env = Inr () \<Longrightarrow>
    stack_step env pin s (s\<lparr>sy_thread := TEnded (Inr ()) True\<rparr>)"
| clear_running: "sy_thread s = TEnded r w \<Longrightarrow>
    stack_step env pin s (s\<lparr>sy_running := False, sy_thread := TCleared r w\<rparr>)"
| set_error: "sy_thread s = TCleared (Inl e) w \<Longrightarrow>
    stack_step env pin s (s\<lparr>sy_error := Some e, sy_thread := (if w then TFinished else TErrorSet e)\<rparr>)"
| set_unexpected: "sy_thread s = TCleared (Inr ()) True \<Longrightarrow>
    stack_step env pin s (s\<lparr>sy_error := Some unexpected_exit_message, sy_thread := TFinished\<rparr>)"
| finish_quietly: "sy_thread s = TCleared (Inr ()) False \<Longrightarrow> stack_step env pin s (s\<lparr>sy_thread := TFinished\<rparr>)"
| send_error: "sy_thread s = TErrorSet e \<Longrightarrow>
    stack_step env pin s (s\<lparr>sy_channel := Some (Inl e), sy_thread := TFinished\<rparr>)"
| panic_before: "sy_thread s = TPrepare \<Longrightarrow> stack_step env pin s (s\<lparr>sy_thread := TPanicked\<rparr>)"
| panic_running: "sy_thread s = TRunning m \<Longrightarrow> stack_step env pin s (s\<lparr>sy_thread := TPanicked\<rparr>)"
| recv_ok: "sy_caller s = CWaiting \<Longrightarrow> sy_channel s = Some (Inr ()) \<Longrightarrow>
    stack_step env pin s (s\<lparr>sy_channel := None, sy_caller := CStarted\<rparr>)"
| recv_error: "sy_caller s = CWaiting \<Longrightarrow> sy_channel s = Some (Inl e) \<Longrightarrow>
    stack_step env pin s (s\<lparr>sy_channel := None, sy_error := Some e,
      sy_caller := CErrorSet (''Matter stack failed to start: '' @ e)\<rparr>)"
| recv_timeout: "sy_caller s = CWaiting \<Longrightarrow> sy_channel s = None \<Longrightarrow>
    stack_step env pin s (s\<lparr>sy_error := Some timed_out_message, sy_caller := CErrorSet timed_out_message\<rparr>)"
| caller_clear: "sy_caller s = CErrorSet e \<Longrightarrow>
    stack_step env pin s (s\<lparr>sy_running := False, sy_caller := CFailed e\<rparr>)"

definition rs_spawned :: "export_plane \<Rightarrow> rs_sys" where
  "rs_spawned p = \<lparr>sy_running = False, sy_error = None, sy_channel = None, sy_plane = p, sy_thread = TPrepare,
     sy_caller = CWaiting\<rparr>"

inductive rs_reachable :: "stack_env \<Rightarrow> string option \<Rightarrow> export_plane \<Rightarrow> rs_sys \<Rightarrow> bool" for env pin p where
  spawned: "rs_reachable env pin p (rs_spawned p)"
| step: "rs_reachable env pin p s \<Longrightarrow> stack_step env pin s s' \<Longrightarrow> rs_reachable env pin p s'"

inductive_cases stack_stepE: "stack_step env pin s s'"

section \<open>What the flags say\<close>

fun prepared :: "thread_pc \<Rightarrow> bool" where
  "prepared (TPrepared m) = True"
| "prepared (TReadyStored m) = True"
| "prepared (TSent m) = True"
| "prepared (TRunning m) = True"
| "prepared (TEnded r w) = w"
| "prepared (TCleared r w) = w"
| "prepared _ = False"

fun serving :: "thread_pc \<Rightarrow> bool" where
  "serving (TReadyStored m) = True"
| "serving (TSent m) = True"
| "serving (TRunning m) = True"
| "serving _ = False"

fun result_pending :: "thread_pc \<Rightarrow> bool" where
  "result_pending (TEnded r w) = (w \<or> (\<exists>e. r = Inl e))"
| "result_pending (TCleared r w) = (w \<or> (\<exists>e. r = Inl e))"
| "result_pending _ = True"

text \<open>
  The invariant: \<open>running\<close> is only set by a thread past readiness, a caller that was told ready
  sees the thread's own stores, and a thread that has finished has left an error.
\<close>

definition flags_inv :: "stack_env \<Rightarrow> string option \<Rightarrow> export_plane \<Rightarrow> rs_sys \<Rightarrow> bool" where
  "flags_inv env pin p s \<longleftrightarrow>
     (let t = sy_thread s; ready = (\<exists>m p'. stack_prepare env pin p = (Inr m, p'))
      in (t = TPrepare \<longrightarrow> sy_plane s = p) \<and> (prepared t \<longrightarrow> ready) \<and> result_pending t \<and>
         (sy_channel s = Some (Inr ()) \<longrightarrow> ready) \<and> (sy_caller s = CStarted \<longrightarrow> ready) \<and>
         (sy_running s \<longrightarrow> serving t \<or> (\<exists>r. t = TEnded r True) \<or> t = TPanicked) \<and>
         (sy_channel s = Some (Inr ()) \<and> sy_caller s = CWaiting \<or> sy_caller s = CStarted \<longrightarrow>
            (serving t \<longrightarrow> sy_running s \<and> sy_error s = None) \<and> t \<noteq> TPrepare \<and> (\<forall>m. t \<noteq> TPrepared m \<and> t \<noteq> TReadyStored m)) \<and>
         (sy_caller s = CWaiting \<longrightarrow> serving t \<longrightarrow> sy_running s) \<and>
         (sy_caller s = CWaiting \<and> (serving t \<or> (\<exists>m. t = TPrepared m) \<or> t = TPrepare) \<longrightarrow> sy_error s = None) \<and>
         (t = TFinished \<or> (\<exists>e. t = TErrorSet e) \<longrightarrow> sy_error s \<noteq> None) \<and>
         (\<forall>e. sy_caller s = CErrorSet e \<longrightarrow> sy_error s \<noteq> None))"

lemma flags_inv_spawned: "flags_inv env pin p (rs_spawned p)"
  by (simp add: flags_inv_def rs_spawned_def)

lemma flags_inv_step: "stack_step env pin s s' \<Longrightarrow> flags_inv env pin p s \<Longrightarrow> flags_inv env pin p s'"
  by (induction rule: stack_step.induct) (auto simp: flags_inv_def Let_def)

lemma rs_reachable_inv: "rs_reachable env pin p s \<Longrightarrow> flags_inv env pin p s"
  by (induction rule: rs_reachable.induct) (auto intro: flags_inv_spawned flags_inv_step)

text \<open>C11: The status of the Matter backend is honest as long as the stack thread does not panic: in every reachable
  state of the start protocol, with any interleaving and with the caller timing out at any moment,
  \<open>running\<close> is set only while the thread is past readiness and has not passed its exit; after a successful
  start it is set, without an error, as long as the thread serves; and once the thread has finished it is
  clear and an error is shown.\<close>

theorem stack_status_honest:
  assumes "rs_reachable env pin p s" and "sy_thread s \<noteq> TPanicked"
  shows "(sy_running s \<longrightarrow> serving (sy_thread s) \<or> (\<exists>r. sy_thread s = TEnded r True)) \<and>
    (sy_caller s = CStarted \<and> serving (sy_thread s) \<longrightarrow> sy_running s \<and> sy_error s = None) \<and>
    (sy_thread s = TFinished \<longrightarrow> \<not> sy_running s \<and> sy_error s \<noteq> None)"
proof -
  have inv: "flags_inv env pin p s" by (rule rs_reachable_inv [OF assms(1)])
  then have run: "sy_running s \<longrightarrow> serving (sy_thread s) \<or> (\<exists>r. sy_thread s = TEnded r True)"
    using assms(2) unfolding flags_inv_def Let_def by blast
  moreover have "sy_caller s = CStarted \<and> serving (sy_thread s) \<longrightarrow> sy_running s \<and> sy_error s = None"
    "sy_thread s = TFinished \<longrightarrow> sy_error s \<noteq> None"
    using inv unfolding flags_inv_def Let_def by blast+
  moreover have "sy_thread s = TFinished \<longrightarrow> \<not> sy_running s" using run by auto
  ultimately show ?thesis by blast
qed

definition demo_stack_env :: stack_env where
  "demo_stack_env = \<lparr>se_probe_v6 = ProbeOther, se_probe_v4 = ProbeOk, se_data_dir = Inr (), se_store_dir = Inr (),
     se_startup = Inr 0, se_now = 1000, se_host = Inr demo_host, se_dbus = Inr (), se_avahi_proxy = Inr (),
     se_avahi_version = Inl ''ServiceUnknown'', se_run = Inl ''NoSpace''\<rparr>"

definition demo_ready_plane :: export_plane where
  "demo_ready_plane = note_startup_commissioning_state 1000 0 (plane_new 7)"

lemma demo_prepare: "stack_prepare demo_stack_env (Some ''enp1s0'') (plane_new 7) = (Inr MdnsBuiltin, demo_ready_plane)"
proof -
  have lan: "lan_new (Some ''enp1s0'') = Some ''enp1s0''" by code_simp
  have host: "validate_for_start (lan_new (Some ''enp1s0'')) (se_host demo_stack_env) = Inr ()"
    unfolding lan by (simp add: demo_stack_env_def demo_host_valid)
  have pre: "preflight_matter_udp_port (se_probe_v6 demo_stack_env) (se_probe_v4 demo_stack_env) = Inr ()"
    by (simp add: demo_stack_env_def preflight_matter_udp_port_def)
  have other: "se_data_dir demo_stack_env = Inr ()" "se_store_dir demo_stack_env = Inr ()"
    "se_startup demo_stack_env = Inr 0" "se_now demo_stack_env = 1000" "mdns_backend demo_stack_env = MdnsBuiltin"
    by (simp_all add: demo_stack_env_def mdns_backend_def probe_avahi_def)
  show ?thesis
    by (simp add: stack_prepare_def host pre other read_fabric_count_def demo_ready_plane_def)
qed

text \<open>The states of a start that succeeds.\<close>

definition serving_sys :: "mdns_choice \<Rightarrow> export_plane \<Rightarrow> rs_sys" where
  "serving_sys m p = \<lparr>sy_running = True, sy_error = None, sy_channel = None, sy_plane = p, sy_thread = TRunning m,
     sy_caller = CStarted\<rparr>"

lemma serving_sys_reachable:
  assumes "stack_prepare env pin p = (Inr m, p')"
  shows "rs_reachable env pin p (serving_sys m p')"
proof -
  have p: "sy_plane (rs_spawned p) = p" "sy_thread (rs_spawned p) = TPrepare" by (simp_all add: rs_spawned_def)
  note r = rs_reachable.step
  note s1 = r [OF spawned prepare_ok [OF p(2), of env pin m p', unfolded p(1), OF assms]]
  note s2 = r [OF s1 store_running, of m, simplified]
  note s3 = r [OF s2 send_ready, of m, simplified]
  note s4 = r [OF s3 recv_ok, simplified rs_spawned_def, simplified]
  note s5 = r [OF s4 store_ready_sent, of m, simplified]
  then show ?thesis by (simp add: serving_sys_def rs_spawned_def)
qed

theorem stack_status_honest_witness:
  "sy_running (serving_sys MdnsBuiltin demo_ready_plane) \<and> sy_error (serving_sys MdnsBuiltin demo_ready_plane) = None"
proof -
  have "sy_thread (serving_sys MdnsBuiltin demo_ready_plane) \<noteq> TPanicked" by (simp add: serving_sys_def)
  from stack_status_honest [OF serving_sys_reachable [OF demo_prepare] this]
  show ?thesis by (simp add: serving_sys_def)
qed

text \<open>A start that returns success means what the module promises: neither probe found the Matter port in use, the
  stack of the library started, the selector exposes exactly one interface, operational and with IPv6, and
  the pairing window shown is the one the stack opened, 900 seconds if there is no fabric and none otherwise.\<close>

lemma started_means_ready:
  assumes "rs_reachable env pin p s" and "sy_caller s = CStarted"
  shows "se_probe_v6 env \<noteq> ProbeInUse \<and> se_probe_v4 env \<noteq> ProbeInUse \<and>
    (\<exists>i. netifs (lan_new pin) (se_host env) = Inr [i] \<and> operational i \<and> has_matter_ipv6 i) \<and>
    (\<exists>n p'. se_startup env = Inr n \<and> snd (stack_prepare env pin p) = p' \<and> fabric_count p' = read_fabric_count n \<and>
       window_deadline p' = (if n = 0 then deadline_after (se_now env) 900 else 0))"
proof -
  obtain m p' where "stack_prepare env pin p = (Inr m, p')"
    using rs_reachable_inv [OF assms(1)] assms(2) by (auto simp: flags_inv_def Let_def)
  moreover from stack_prepare_ready [OF this] obtain ifs n where
    probes: "se_probe_v6 env \<noteq> ProbeInUse" "se_probe_v4 env \<noteq> ProbeInUse" and
    host: "se_host env = Inr ifs" "validate_for_start (lan_new pin) (Inr ifs) = Inr ()" and
    n: "se_startup env = Inr n" "p' = note_startup_commissioning_state (se_now env) (read_fabric_count n) p"
    by blast
  moreover have "\<exists>i. netifs (lan_new pin) (se_host env) = Inr [i] \<and> operational i \<and> has_matter_ipv6 i"
    using validated_selects_one [OF host(2)] host(1) by auto
  moreover have "read_fabric_count n = 0 \<longleftrightarrow> n = 0"
  proof (cases "n < 256")
    case True
    then have "unat (read_fabric_count n) = n" by (simp add: read_fabric_count_def unat_of_nat)
    then show ?thesis by (metis unat_eq_zero)
  next
    case False
    then show ?thesis by (simp add: read_fabric_count_def)
  qed
  ultimately show ?thesis
    by (auto simp: note_startup_commissioning_state_def STARTUP_PAIRING_TIMEOUT_SECS_def)
qed

lemma started_means_ready_witness:
  "(\<exists>i. netifs (lan_new (Some ''enp1s0'')) (se_host demo_stack_env) = Inr [i] \<and> operational i \<and> has_matter_ipv6 i) \<and>
   window_deadline demo_ready_plane = deadline_after 1000 900"
proof -
  have "sy_caller (serving_sys MdnsBuiltin demo_ready_plane) = CStarted" by (simp add: serving_sys_def)
  from started_means_ready [OF serving_sys_reachable [OF demo_prepare] this]
  show ?thesis by (simp add: demo_prepare) (simp add: demo_stack_env_def)
qed

text \<open>A panic of the stack thread after readiness is never reported: whatever made the start succeed, a state is
  reachable in which the thread is gone, nothing will happen any more, and \<open>running\<close> is still set without
  an error.\<close>

lemma panic_leaves_running:
  assumes "stack_prepare env pin p = (Inr m, p')"
  shows "\<exists>s. rs_reachable env pin p s \<and> sy_thread s = TPanicked \<and> sy_caller s = CStarted \<and> sy_running s \<and>
    sy_error s = None \<and> (\<forall>s'. \<not> stack_step env pin s s')"
proof -
  define s where "s = (serving_sys m p')\<lparr>sy_thread := TPanicked\<rparr>"
  have "stack_step env pin (serving_sys m p') s"
    unfolding s_def by (rule panic_running [of _ m]) (simp add: serving_sys_def)
  with serving_sys_reachable [OF assms] have "rs_reachable env pin p s" by (rule rs_reachable.step)
  moreover have "\<not> stack_step env pin s s'" for s'
  proof
    assume "stack_step env pin s s'"
    then show False by (cases rule: stack_stepE) (auto simp: s_def serving_sys_def)
  qed
  ultimately show ?thesis by (intro exI [of _ s]) (simp add: s_def serving_sys_def)
qed

lemma panic_leaves_running_witness:
  "\<exists>s. rs_reachable demo_stack_env (Some ''enp1s0'') (plane_new 7) s \<and> sy_thread s = TPanicked \<and> sy_running s"
  using panic_leaves_running [OF demo_prepare] by blast


section \<open>A start comes to an end\<close>

fun thread_work :: "thread_pc \<Rightarrow> nat" where
  "thread_work TPrepare = 8"
| "thread_work (TPrepared m) = 7"
| "thread_work (TReadyStored m) = 6"
| "thread_work (TSent m) = 5"
| "thread_work (TRunning m) = 4"
| "thread_work (TEnded r w) = 3"
| "thread_work (TCleared r w) = 2"
| "thread_work (TErrorSet e) = 1"
| "thread_work _ = 0"

fun waiting_work :: "caller_pc \<Rightarrow> nat" where
  "waiting_work CWaiting = 2"
| "waiting_work (CErrorSet e) = 1"
| "waiting_work _ = 0"

definition start_work :: "rs_sys \<Rightarrow> nat" where
  "start_work s = thread_work (sy_thread s) + waiting_work (sy_caller s)"

lemma thread_steps:
  assumes "thread_work (sy_thread s) \<noteq> 0"
  shows "\<exists>s'. stack_step env pin s s'"
proof (cases "sy_thread s")
  case (TCleared r w)
  then show ?thesis
    using set_error [of s _ w env pin] set_unexpected [of s env pin] finish_quietly [of s env pin]
    by (cases r; cases w) (auto simp: unit_all_eq1)
qed (use assms in \<open>auto intro: panic_before store_running send_ready store_ready_sent panic_running clear_running send_error\<close>)

lemma caller_steps:
  assumes "waiting_work (sy_caller s) \<noteq> 0"
  shows "\<exists>s'. stack_step env pin s s'"
proof (cases "sy_caller s")
  case CWaiting
  show ?thesis
  proof (cases "sy_channel s")
    case None
    with CWaiting show ?thesis by (blast intro: recv_timeout)
  next
    case (Some r)
    with CWaiting show ?thesis by (cases r) (auto intro: recv_ok recv_error)
  qed
qed (use assms in \<open>auto intro: caller_clear\<close>)

interpretation starting: settling "stack_step env pin" "\<lambda>_ _. False" "\<lambda>_. True" start_work for env pin
proof unfold_locales
  fix s s'
  assume "stack_step env pin s s'"
  then show "start_work s' < start_work s" by (induction rule: stack_step.induct) (auto simp: start_work_def)
next
  fix s
  assume "start_work s \<noteq> 0"
  then show "\<exists>s'. stack_step env pin s s' \<and> \<not> False" using thread_steps caller_steps by (auto simp: start_work_def)
qed simp

text \<open>
  No start waits for ever: every run of the protocol has at most ten steps, and one that cannot go on has answered
  the caller and has no thread left. (How long the stack runs in between is up to the library.)
\<close>

lemma start_comes_to_an_end:
  assumes "(own_step (stack_step env pin) (\<lambda>_ _. False) ^^ n) (rs_spawned p) s"
  shows "n \<le> 10 \<and> ((\<forall>t. \<not> stack_step env pin s t) \<longrightarrow>
    (sy_caller s = CStarted \<or> (\<exists>e. sy_caller s = CFailed e)) \<and> sy_thread s \<in> {TFinished, TPanicked})"
proof -
  have "n + start_work s \<le> 10" using starting.own_bounded [OF assms] by (simp add: rs_spawned_def start_work_def)
  moreover have "(sy_caller s = CStarted \<or> (\<exists>e. sy_caller s = CFailed e)) \<and> sy_thread s \<in> {TFinished, TPanicked}"
    if "\<forall>t. \<not> stack_step env pin s t"
  proof -
    have "start_work s = 0" using starting.stuck_done [OF TrueI, of env pin s] that by (simp add: own_step_def)
    then show ?thesis by (cases "sy_caller s"; cases "sy_thread s") (auto simp: start_work_def)
  qed
  ultimately show ?thesis by auto
qed

end
