(* ===== verification/Ipc_Properties.thy ===== *)
theory Ipc_Properties
  imports Ipc_Handlers Dev_Backend Stack_Start
begin

text \<open>
  The control plane over a backend: what requests keep true between the catalog and the backend, proved once
  for every backend with the contract and then read off at the two backends.
\<close>

section \<open>Catalog and backend agree\<close>

definition in_sync :: "('b \<Rightarrow> uuid set) \<Rightarrow> 'b app_state \<Rightarrow> bool" where
  "in_sync known_ids app \<longleftrightarrow> known_ids (app_backend app) = dom (bt_get (by_id (app_catalog app)))"

lemma catalog_list_ids:
  assumes "catalog_inv st"
  shows "distinct (map export_id (catalog_list st))" "export_id ` set (catalog_list st) = dom (bt_get (by_id st))"
proof -
  have sorted: "bt_sorted (by_id st)" using assms by (simp add: catalog_inv_def exports_inv_def)
  have "export_id (snd x) = fst x" if "x \<in> set (by_id st)" for x
    using assms that bt_get_entries [OF sorted, of "fst x" "snd x"] by (auto simp: catalog_inv_def exports_inv_def export_ok_def)
  then have ids: "map export_id (catalog_list st) = map fst (by_id st)"
    by (simp add: catalog_list_def bt_values_def)
  then show "distinct (map export_id (catalog_list st))" using bt_sorted_distinct [OF sorted] by simp
  have "fst ` set (by_id st) = dom (bt_get (by_id st))"
    using bt_get_entries [OF sorted] by (force simp: dom_def)
  then show "export_id ` set (catalog_list st) = dom (bt_get (by_id st))" by (metis ids list.set_map)
qed

lemma persist_error_kinds: "persist c env st d = (Inl e, d') \<Longrightarrow> e = Io \<or> e = Json"
  by (auto simp: persist_def fs_create_dir_all_def write_then_rename_def fs_write_def fs_rename_def and_then_def
      split: if_splits option.splits sum.splits prod.splits)

lemma persist_then_error_kinds: "persist_then c env out st d = (Inl e, s) \<Longrightarrow> e = Io \<or> e = Json"
  by (auto simp: persist_then_def dest: persist_error_kinds split: sum.splits prod.splits)

text \<open>A refused mutation that is the client's fault keeps the set of ids.\<close>

lemma create_refused:
  assumes "create c env v4 body (st, d) = (Inl e, st', d')" and "e \<notin> {Io, Json}"
  shows "by_id st' = by_id st"
  using assms(1)
proof (cases rule: create_store)
  case (inserted x ep)
  with assms(2) show ?thesis by (auto dest: persist_then_error_kinds)
qed simp

lemma patch_keeps_ids:
  assumes "catalog_inv st" and "patch c env i body (st, d) = (r, st', d')"
  shows "dom (bt_get (by_id st')) = dom (bt_get (by_id st))"
proof (cases rule: patch_store [OF assms(2) catalog_inv_endpoint [OF assms(1)], case_names missing patched])
  case missing
  then show ?thesis by simp
next
  case (patched e e' q)
  then show ?thesis by (auto simp: bt_get_modify dom_def)
qed

lemma delete_refused:
  assumes "delete c env i (st, d) = (Inl e, st', d')" and "e \<notin> {Io, Json}"
  shows "by_id st' = by_id st"
  using assms by (auto simp: delete_def dest: persist_then_error_kinds split: option.splits)

lemma not_internal: "resp_status (catalog_err detail e) \<noteq> 500 \<Longrightarrow> e \<notin> {Io, Json}"
  using catalog_err_status(3) by blast

text \<open>What every handler keeps: the invariants of catalog and backend.\<close>

definition app_inv :: "('b \<Rightarrow> bool) \<Rightarrow> 'b app_state \<Rightarrow> bool" where
  "app_inv good app \<longleftrightarrow> catalog_inv (app_catalog app) \<and> good (app_backend app)"

context backend_contract
begin

lemma sync_exports_effect:
  "sync_exports ops app =
     (Inr (), app\<lparr>app_backend := snd (be_set_exports ops (catalog_list (app_catalog app)) (app_backend app))\<rparr>)"
  by (simp add: sync_exports_def on_backend_eq set_exports_ok)

lemma synced:
  assumes "catalog_inv st" and "good (app_backend app)"
  shows "app_inv good (snd (sync_exports ops (app\<lparr>app_catalog := st\<rparr>)))"
    and "in_sync known_ids (snd (sync_exports ops (app\<lparr>app_catalog := st\<rparr>)))"
  using assms catalog_list_ids [OF assms(1)]
  by (simp_all add: sync_exports_effect app_inv_def in_sync_def set_exports_known set_exports_inv)

lemma post_export_sync:
  assumes "app_inv good app" and "post_export c env ops detail v4 body (app, d) = (r, app', d')"
  shows "app_inv good app' \<and> (resp_status r = 201 \<or> resp_status r \<noteq> 500 \<and> in_sync known_ids app \<longrightarrow> in_sync known_ids app')"
proof -
  obtain q st e where cr: "create c env v4 body (app_catalog app, d) = (q, st, e)" using prod_cases3 by blast
  have inv: "catalog_inv st" "good (app_backend app)" using assms(1) create_inv [OF _ cr] by (simp_all add: app_inv_def)
  show ?thesis
  proof (cases q)
    case (Inl x)
    with assms(2) cr have eq: "r = catalog_err detail x" "app' = app\<lparr>app_catalog := st\<rparr>" by (auto simp: post_export_def)
    have "resp_status r \<noteq> 500 \<Longrightarrow> by_id st = by_id (app_catalog app)"
      using create_refused [OF cr [unfolded Inl]] not_internal eq by blast
    with eq inv catalog_err_status(5) show ?thesis by (auto simp: app_inv_def in_sync_def)
  next
    case (Inr x)
    with assms(2) cr have "app' = snd (sync_exports ops (app\<lparr>app_catalog := st\<rparr>))"
      by (auto simp: post_export_def sync_exports_effect)
    with synced [OF inv] show ?thesis by simp
  qed
qed

lemma patch_export_sync:
  assumes "app_inv good app" and "patch_export_handler c env ops detail i body (app, d) = (r, app', d')"
  shows "app_inv good app' \<and> (resp_status r = 200 \<or> in_sync known_ids app \<longrightarrow> in_sync known_ids app')"
proof -
  obtain q st e where p: "patch c env i body (app_catalog app, d) = (q, st, e)" using prod_cases3 by blast
  have cat: "catalog_inv (app_catalog app)" using assms(1) by (simp add: app_inv_def)
  have inv: "catalog_inv st" "good (app_backend app)" using assms(1) patch_inv [OF cat p] by (simp_all add: app_inv_def)
  show ?thesis
  proof (cases q)
    case (Inl x)
    with assms(2) p have eq: "r = catalog_err detail x" "app' = app\<lparr>app_catalog := st\<rparr>" by (auto simp: patch_export_handler_def)
    with inv patch_keeps_ids [OF cat p] catalog_err_status(4) show ?thesis by (auto simp: app_inv_def in_sync_def)
  next
    case (Inr x)
    with assms(2) p have "app' = snd (sync_exports ops (app\<lparr>app_catalog := st\<rparr>))"
      by (auto simp: patch_export_handler_def sync_exports_effect)
    with synced [OF inv] show ?thesis by simp
  qed
qed

lemma delete_export_sync:
  assumes "app_inv good app" and "delete_export c env ops detail i (app, d) = (r, app', d')"
  shows "app_inv good app' \<and> (resp_status r = 200 \<or> resp_status r \<noteq> 500 \<and> in_sync known_ids app \<longrightarrow> in_sync known_ids app')"
proof -
  obtain q st e where de: "delete c env i (app_catalog app, d) = (q, st, e)" using prod_cases3 by blast
  have inv: "catalog_inv st" "good (app_backend app)" using assms(1) delete_inv [OF _ de] by (simp_all add: app_inv_def)
  show ?thesis
  proof (cases q)
    case (Inl x)
    with assms(2) de have eq: "r = catalog_err detail x" "app' = app\<lparr>app_catalog := st\<rparr>" by (auto simp: delete_export_def)
    have "resp_status r \<noteq> 500 \<Longrightarrow> by_id st = by_id (app_catalog app)"
      using delete_refused [OF de [unfolded Inl]] not_internal eq by blast
    with eq inv catalog_err_status(4) show ?thesis by (auto simp: app_inv_def in_sync_def)
  next
    case (Inr x)
    with assms(2) de have "app' = snd (sync_exports ops (app\<lparr>app_catalog := st\<rparr>))"
      by (auto simp: delete_export_def sync_exports_effect)
    with synced [OF inv] show ?thesis by simp
  qed
qed

lemma route_sync:
  assumes "app_inv good app" and "route env ops req (app, d) = (r, app', d')"
  shows "app_inv good app' \<and> (resp_status r \<noteq> 500 \<and> in_sync known_ids app \<longrightarrow> in_sync known_ids app')"
proof (cases req)
  case (PostPairingOpen body)
  with assms show ?thesis
    by (auto simp: keep_disk_def open_pairing_def on_backend_eq Let_def app_inv_def in_sync_def open_frame open_inv
        split: sum.splits if_splits)
next
  case PostPairingClose
  with assms show ?thesis
    by (auto simp: keep_disk_def close_pairing_def on_backend_eq app_inv_def in_sync_def close_frame close_inv
        split: sum.splits)
next
  case (PostState i body)
  with assms show ?thesis
    by (auto simp: keep_disk_def push_state_def on_backend_eq app_inv_def in_sync_def apply_frame apply_inv
        split: sum.splits if_splits)
next
  case GetCommands
  with assms show ?thesis
    by (auto simp: keep_disk_def take_commands_handler_def on_backend_eq app_inv_def in_sync_def take_frame take_inv)
next
  case (PostExports v4 body)
  with assms post_export_sync [OF assms(1)] show ?thesis by fastforce
next
  case (PatchExportId i body)
  with assms patch_export_sync [OF assms(1)] show ?thesis by fastforce
next
  case (DeleteExportId i)
  with assms delete_export_sync [OF assms(1)] show ?thesis by fastforce
qed (use assms in simp_all)

end

text \<open>A sequence of requests; each comes with its own environment and its own answers of the backend's surroundings.\<close>

fun serve_all ::
  "('t ipc_env \<times> 'b backend_ops \<times> ipc_request) list \<Rightarrow> 'b app_state \<times> 't disk \<Rightarrow> response list \<times> 'b app_state \<times> 't disk" where
  "serve_all [] s = ([], s)"
| "serve_all ((env, ops, req) # rest) s =
     (case route env ops req s of (r, s') \<Rightarrow> (case serve_all rest s' of (rs, s'') \<Rightarrow> (r # rs, s'')))"

lemma serve_all_sync:
  assumes "\<And>ops. P ops \<Longrightarrow> backend_contract ops known_ids queued good"
  shows "serve_all xs (app, d) = (rs, app', d') \<Longrightarrow> list_all (\<lambda>(env, ops, req). P ops) xs \<Longrightarrow> app_inv good app \<Longrightarrow>
    app_inv good app' \<and> (list_all (\<lambda>r. resp_status r \<noteq> 500) rs \<and> in_sync known_ids app \<longrightarrow> in_sync known_ids app')"
proof (induction xs arbitrary: app d rs)
  case Nil
  then show ?case by simp
next
  case (Cons x xs)
  obtain env ops req where x: "x = (env, ops, req)" by (rule prod_cases3)
  obtain r app1 d1 where r: "route env ops req (app, d) = (r, app1, d1)" using prod_cases3 by blast
  obtain rs' where rs': "serve_all xs (app1, d1) = (rs', app', d')" "rs = r # rs'"
    using Cons.prems(1) x r by (auto split: prod.splits)
  have c: "backend_contract ops known_ids queued good" using assms Cons.prems(2) x by simp
  note step = backend_contract.route_sync [OF c Cons.prems(3) r]
  with Cons.IH [OF rs'(1)] Cons.prems(2) rs'(2) show ?case by auto
qed

section \<open>The two backends\<close>

text \<open>With the development backend, requests one after another keep it at the exports of the catalog.\<close>

lemma requests_keep_dev_in_sync:
  assumes "serve_all xs (app, d) = (rs, app', d')" and "list_all (\<lambda>(env, ops, req). \<exists>dir now. ops = dev_ops dir now) xs"
    and "catalog_inv (app_catalog app)" and "in_sync dev_known app" and "list_all (\<lambda>r. resp_status r \<noteq> 500) rs"
  shows "catalog_inv (app_catalog app') \<and> in_sync dev_known app'"
proof -
  have "backend_contract ops dev_known dv_commands (\<lambda>_. True)" if "\<exists>dir now. ops = dev_ops dir now" for ops
    using that dev_contract.backend_contract_axioms by auto
  from serve_all_sync [where P = "\<lambda>ops. \<exists>dir now. ops = dev_ops dir now", OF this assms(1,2)] assms(3-5)
  show ?thesis by (auto simp: app_inv_def)
qed

end
