(* ===== verification/Catalog_Properties.thy ===== *)
theory Catalog_Properties
  imports Catalog_History
begin

text \<open>
  The properties of the export catalog: allocation, the invariant over every history, persistence
  and crashes, and what each operation returns and leaves behind. The concrete codec below (the
  text is the value itself) and the fault-free disk serve the instances at concrete inputs.
\<close>

definition plain_codec :: "(persisted_config + persisted_exports) codec" where
  "plain_codec =
     \<lparr>ser_config = (\<lambda>x. Some (Inl x)), de_config = (\<lambda>t. case t of Inl x \<Rightarrow> Some x | Inr _ \<Rightarrow> None),
      ser_exports = (\<lambda>x. Some (Inr x)), de_exports = (\<lambda>t. case t of Inl _ \<Rightarrow> None | Inr x \<Rightarrow> Some x)\<rparr>"

definition ok_env :: "'t fs_env" where
  "ok_env = \<lparr>op_fails = (\<lambda>_. False), torn = (\<lambda>_. None)\<rparr>"

definition demo_body :: "string \<Rightarrow> create_export" where
  "demo_body n =
     \<lparr>cr_export_id = None, cr_name = n, cr_type = Light, cr_primary_entity_id = ''light.a'',
      cr_linked = [], cr_area_id = None, cr_enabled = True\<rparr>"

definition demo_export :: "uuid \<Rightarrow> u16 \<Rightarrow> export" where
  "demo_export i ep =
     \<lparr>export_id = i, ex_name = ''Lamp'', ex_type = Light, primary_entity_id = ''light.a'', linked = [],
      area_id = None, enabled = True, endpoint_id = Some ep\<rparr>"

definition demo_store :: catalog_store where
  "demo_store = \<lparr>data_dir = ''/data'', bridge_name = ''Home'', by_id = [(7, demo_export 7 65535)],
     next_endpoint = 65535\<rparr>"

lemma plain_codec_round_trips: "codec_round_trips plain_codec"
  by (simp add: codec_round_trips_def plain_codec_def)

lemma ok_env_healthy: "healthy ok_env"
  by (simp add: healthy_def ok_env_def)

definition plain_disk :: "catalog_store \<Rightarrow> (persisted_config + persisted_exports) disk \<Rightarrow> (persisted_config + persisted_exports) disk" where
  "plain_disk st d =
     d(config_tmp := None, config_file \<mapsto> Inl (config_of st), exports_tmp := None,
       exports_file \<mapsto> Inr \<lparr>pe_exports = catalog_list st\<rparr>)"

lemma persist_then_plain: "persist_then plain_codec ok_env out st d = (Inr out, st, plain_disk st d)"
  by (simp add: persist_then_def persist_healthy [OF ok_env_healthy] plain_codec_def plain_disk_def)

lemmas catalog_evals = catalog_step_def create_def patch_def delete_def demo_body_def validate_export_fields_def
  bt_get_def alloc_endpoint_def used_endpoints_def catalog_list_def bt_values_def List.map_filter_def
  alloc_loop.simps first_endpoint_id_def Let_def out_export_def bt_remove_def handed_out_def persist_then_plain

lemma demo_store_inv: "catalog_inv demo_store"
  by (auto simp: catalog_inv_def exports_inv_def demo_store_def demo_export_def bt_sorted_def bt_get_def
      export_ok_def export_valid_def split: if_splits)

section \<open>Allocation\<close>

text \<open>C24: \<open>alloc_endpoint\<close> always returns: with fewer than 65535 ids in use, the first free id in the cyclic
  order of 1..65535 from the cursor on, within one turn, leaving the cursor behind it and the exports
  untouched; otherwise the exhaustion error with the store unchanged.\<close>

theorem alloc_endpoint_first_free:
  "if card (used_endpoints st) < 65535
   then \<exists>j < 65535. alloc_endpoint st =
          (Inr (cyclic_id (next_endpoint st) j), st\<lparr>next_endpoint := cyclic_id (next_endpoint st) j + 1\<rparr>) \<and>
        cyclic_id (next_endpoint st) j \<noteq> 0 \<and> cyclic_id (next_endpoint st) j \<notin> used_endpoints st \<and>
        (\<forall>i < j. cyclic_id (next_endpoint st) i \<in> used_endpoints st)
   else alloc_endpoint st = (Inl EndpointExhausted, st)"
proof (cases "card (used_endpoints st) < 65535")
  case True
  from alloc_loop_returns [OF this, of "next_endpoint st"] cyclic_id_nonzero [of "next_endpoint st"] True
  show ?thesis by (auto simp: alloc_endpoint_def Let_def)
qed (simp add: alloc_endpoint_def)

theorem alloc_endpoint_first_free_witness:
  "\<exists>j < 65535. alloc_endpoint demo_store =
     (Inr (cyclic_id 65535 j), demo_store\<lparr>next_endpoint := cyclic_id 65535 j + 1\<rparr>)"
  using alloc_endpoint_first_free [of demo_store]
  by (auto simp: used_endpoints_def catalog_list_def bt_values_def List.map_filter_def demo_store_def demo_export_def)

section \<open>Histories\<close>






text \<open>C18: Endpoint ids are not reissued: along any sequence of creations, changes, deletions and renamings of the bridge
  with any disk faults, from a catalog whose cursor is ahead of all its ids (a fresh one, for instance), the ids
  successful creations return are strictly ascending and none is below the cursor, for as long as the cursor has
  not run past 65535 before one of them.\<close>

theorem endpoints_never_reissued:
  assumes "catalog_inv st" and "cursor_ahead st" and "cursor_in_range c ops (st, d)"
  shows "sorted_wrt (<) (assigned c ops (st, d)) \<and>
    (\<forall>ep \<in> set (assigned c ops (st, d)). next_endpoint st \<le> ep)"
  by (rule assigned_sorted [OF assms])

lemma fresh_store_ahead: "catalog_inv (catalog_new dir n) \<and> cursor_ahead (catalog_new dir n)"
  by (simp add: catalog_inv_def exports_inv_empty cursor_ahead_def catalog_new_def first_endpoint_id_def
      used_endpoints_def catalog_list_def bt_values_def List.map_filter_def)

definition demo_ops :: "((persisted_config + persisted_exports) fs_env \<times> catalog_op) list" where
  "demo_ops = [(ok_env, OpCreate 9 (demo_body ''Lamp'')), (ok_env, OpDelete 9), (ok_env, OpCreate 9 (demo_body ''Lamp''))]"

lemma demo_ops_assigned: "assigned plain_codec demo_ops (catalog_new ''/data'' ''Home'', Map.empty) = [1, 2]"
  by (simp add: demo_ops_def catalog_new_def catalog_evals)

theorem endpoints_never_reissued_witness:
  "sorted_wrt (<) (assigned plain_codec demo_ops (catalog_new ''/data'' ''Home'', Map.empty)) \<and>
   assigned plain_codec demo_ops (catalog_new ''/data'' ''Home'', Map.empty) = [1, 2]"
proof -
  have "cursor_in_range plain_codec demo_ops (catalog_new ''/data'' ''Home'', Map.empty)"
    by (simp add: demo_ops_def catalog_new_def catalog_evals)
  from endpoints_never_reissued [OF _ _ this] fresh_store_ahead demo_ops_assigned show ?thesis by blast
qed

section \<open>Persistence\<close>

text \<open>C19: A successful persist followed by a restart gives the catalog back: the same exports with the same endpoint
  ids and the same name, and a cursor that is not behind, the same one while it is ahead of every id.\<close>

theorem persist_load_round_trip:
  assumes "ser_faithful c" and "catalog_inv st" and "persist c env st d = (Inr (), d')" and "healthy env'"
  shows "\<exists>n'. load_or_new c env' (data_dir st) dflt d' = (Inr (st\<lparr>next_endpoint := n'\<rparr>), d') \<and>
    next_endpoint st \<le> n' \<and> (cursor_ahead st \<longrightarrow> n' = next_endpoint st)"
  by (rule load_durable [OF persist_durable [OF assms(1,3)] assms(2,4)])

theorem persist_load_round_trip_witness:
  "\<exists>n'. load_or_new plain_codec ok_env ''/data'' ''Other'' (plain_disk demo_store Map.empty) =
     (Inr (demo_store\<lparr>next_endpoint := n'\<rparr>), plain_disk demo_store Map.empty)"
proof -
  have "persist plain_codec ok_env demo_store Map.empty = (Inr (), plain_disk demo_store Map.empty)"
    by (simp add: persist_healthy [OF ok_env_healthy] plain_codec_def plain_disk_def)
  from persist_load_round_trip [OF codec_round_trips_faithful [OF plain_codec_round_trips] demo_store_inv this ok_env_healthy]
  show ?thesis by (auto simp: demo_store_def)
qed

text \<open>C20: A persist that is cut short anywhere (an error or a crash of any of its disk operations) leaves a data
  directory that still loads, and the loaded exports are the ones of the last complete file or the new
  ones, never a mixture; after a success they are the new ones.\<close>

theorem persist_crash_consistent:
  assumes "ser_faithful c" and "catalog_inv st" and "persist c env st d = (r, d')" and "healthy env'"
    and "d config_file = Some t" and "de_config c t = Some cfg"
    and "d exports_file = Some u" and "de_exports c u = Some \<lparr>pe_exports = bt_values m\<rparr>" and "exports_inv m"
  shows "\<exists>st'. load_or_new c env' dir dflt d' = (Inr st', d') \<and>
    (by_id st' = m \<or> by_id st' = by_id st) \<and>
    (bridge_name st' = pc_bridge_name cfg \<or> bridge_name st' = bridge_name st) \<and>
    (r = Inr () \<longrightarrow> by_id st' = by_id st \<and> bridge_name st' = bridge_name st)"
  using assms(3)
proof (cases rule: persist_files)
  case neither
  then show ?thesis
    using load_or_new_files [where d = d', OF assms(4) _ assms(6) _ assms(8) _ assms(9), of dir dflt] assms(5,7) by auto
next
  case (config t')
  then have "de_config c t' = Some (config_of st)" using assms(1) by (simp add: ser_faithful_def)
  from load_or_new_files [where d = d', OF assms(4) config(2) this _ assms(8) _ assms(9), of dir dflt] config assms(7)
  show ?thesis by (auto simp: config_of_def)
next
  case (both t' u')
  then have "de_config c t' = Some (config_of st)" "de_exports c u' = Some \<lparr>pe_exports = catalog_list st\<rparr>"
    using assms(1) by (simp_all add: ser_faithful_def)
  from load_or_new_files [where d = d', OF assms(4) both(2) this(1) both(4) this(2), of "by_id st" dir dflt] assms(2)
  show ?thesis by (auto simp: config_of_def catalog_list_def catalog_inv_def)
qed

text \<open>The instance: the rename of the exports file fails, after the new configuration was written.\<close>

definition failing_rename_env :: "'t fs_env" where
  "failing_rename_env = \<lparr>op_fails = (\<lambda>x. x = RenameFile exports_tmp exports_file), torn = (\<lambda>_. None)\<rparr>"

theorem persist_crash_consistent_witness:
  "\<exists>st' d'. persist plain_codec failing_rename_env (catalog_new ''/data'' ''New'') (plain_disk demo_store Map.empty) = (Inl Io, d') \<and>
    load_or_new plain_codec ok_env ''/data'' ''Other'' d' = (Inr st', d') \<and>
    (by_id st' = by_id demo_store \<or> by_id st' = [])"
proof -
  let ?d = "plain_disk demo_store Map.empty" and ?st = "catalog_new ''/data'' ''New''"
  obtain d' where d': "persist plain_codec failing_rename_env ?st ?d = (Inl Io, d')"
    by (simp add: persist_def fs_create_dir_all_def failing_rename_env_def plain_codec_def
        write_then_rename_def fs_write_def fs_rename_def file_names)
  have "?d config_file = Some (Inl (config_of demo_store))"
    "?d exports_file = Some (Inr \<lparr>pe_exports = catalog_list demo_store\<rparr>)"
    by (simp_all add: plain_disk_def file_names)
  with persist_crash_consistent [OF codec_round_trips_faithful [OF plain_codec_round_trips] _ d' ok_env_healthy,
      of "Inl (config_of demo_store)" "config_of demo_store" "Inr \<lparr>pe_exports = catalog_list demo_store\<rparr>"
        "by_id demo_store" "''/data''" "''Other''"] demo_store_inv d'
  show ?thesis
    by (auto simp: plain_codec_def catalog_list_def catalog_inv_def exports_inv_empty catalog_new_def)
qed

section \<open>Operations\<close>

text \<open>A creation with a name of 1 to 64 bytes, an entity and an unused id succeeds while an endpoint id is free:
  it returns the export with the fields of the body and a fresh endpoint id, the catalog holds it and
  nothing else changed, and the exports file on the disk is the new catalog.\<close>

lemma create_succeeds:
  assumes "codec_round_trips c" and "healthy env" and "catalog_inv st"
    and "cr_name body \<noteq> []" and "length (cr_name body) \<le> 64" and "cr_primary_entity_id body \<noteq> []"
    and "i = (case cr_export_id body of None \<Rightarrow> v4 | Some j \<Rightarrow> j)" and "catalog_get st i = None"
    and "card (used_endpoints st) < 65535"
  shows "\<exists>ep e st' d' u. create c env v4 body (st, d) = (Inr e, st', d') \<and>
    e = \<lparr>export_id = i, ex_name = cr_name body, ex_type = cr_type body,
         primary_entity_id = cr_primary_entity_id body, linked = cr_linked body,
         area_id = cr_area_id body, enabled = cr_enabled body, endpoint_id = Some ep\<rparr> \<and>
    ep \<noteq> 0 \<and> ep \<notin> used_endpoints st \<and> catalog_get st' = (catalog_get st)(i \<mapsto> e) \<and>
    d' exports_file = Some u \<and> de_exports c u = Some \<lparr>pe_exports = catalog_list st'\<rparr>"
proof (cases rule: alloc_endpoint_cases [of st])
  case exhausted
  with assms(9) show ?thesis by simp
next
  case (fresh ep)
  define e where "e = \<lparr>export_id = i, ex_name = cr_name body, ex_type = cr_type body,
     primary_entity_id = cr_primary_entity_id body, linked = cr_linked body,
     area_id = cr_area_id body, enabled = cr_enabled body, endpoint_id = Some ep\<rparr>"
  define st' where "st' = st\<lparr>next_endpoint := ep + 1, by_id := bt_insert i e (by_id st)\<rparr>"
  have "create c env v4 body (st, d) = persist_then c env e st' d"
    using assms(4-8) fresh(1)
    by (simp add: create_def validate_export_fields_def catalog_get_def e_def st'_def Let_def flip: assms(7))
  moreover have "catalog_get st' = (catalog_get st)(i \<mapsto> e)"
    using assms(3) by (simp add: catalog_get_def [abs_def] st'_def bt_get_insert catalog_inv_def exports_inv_def)
  ultimately show ?thesis
    using persist_then_total [OF assms(1,2), of e st' d] fresh(3,4) e_def by metis
qed

lemma create_succeeds_witness:
  "\<exists>ep e st' d'. create plain_codec ok_env 9 (demo_body ''Lamp'') (demo_store, Map.empty) = (Inr e, st', d') \<and>
     endpoint_id e = Some ep \<and> ep \<noteq> 65535 \<and> catalog_get st' 9 = Some e \<and> catalog_get st' 7 = Some (demo_export 7 65535)"
proof -
  have facts: "catalog_get demo_store 9 = None" "card (used_endpoints demo_store) < 65535"
    "catalog_get demo_store 7 = Some (demo_export 7 65535)" "used_endpoints demo_store = {65535}"
    by (simp_all add: catalog_get_def bt_get_def demo_store_def demo_export_def used_endpoints_def
        catalog_list_def bt_values_def List.map_filter_def)
  have "9 = (case cr_export_id (demo_body ''Lamp'') of None \<Rightarrow> 9 | Some j \<Rightarrow> j)"
    "cr_name (demo_body ''Lamp'') \<noteq> []" "length (cr_name (demo_body ''Lamp'')) \<le> 64"
    "cr_primary_entity_id (demo_body ''Lamp'') \<noteq> []"
    by (simp_all add: demo_body_def)
  from create_succeeds [OF plain_codec_round_trips ok_env_healthy demo_store_inv this(2-4,1) facts(1,2), of Map.empty]
  obtain ep e st' d' where "create plain_codec ok_env 9 (demo_body ''Lamp'') (demo_store, Map.empty) = (Inr e, st', d')"
    "endpoint_id e = Some ep" "ep \<notin> used_endpoints demo_store" "catalog_get st' = (catalog_get demo_store)(9 \<mapsto> e)"
    by (auto 0 3)
  with facts show ?thesis by auto
qed

text \<open>A creation that fails for any other reason than the persistence (a bad name or entity, a taken id, no free
  endpoint id) changes neither the catalog nor the disk; when the persistence fails, the new export stays
  in memory although the caller gets the error.\<close>

lemma create_failure:
  assumes "create c env v4 body (st, d) = (Inl err, st', d')"
  shows "(st' = st \<and> d' = d) \<or>
    (persist c env st' d = (Inl err, d') \<and>
     (\<exists>e. catalog_get st (export_id e) = None \<and> by_id st' = bt_insert (export_id e) e (by_id st)))"
  using assms
proof (cases rule: create_store)
  case (unchanged x)
  then show ?thesis by simp
next
  case (inserted e ep)
  then show ?thesis using persist_then_result [OF inserted(8)] by (auto simp: catalog_get_def)
qed

lemma create_failure_witness:
  "\<exists>st' d'. create plain_codec (failing_rename_env) 9 (demo_body ''Lamp'') (demo_store, Map.empty) = (Inl Io, st', d') \<and>
     st' \<noteq> demo_store \<and>
     (\<exists>e. by_id st' = bt_insert (export_id e) e (by_id demo_store))"
proof -
  obtain st' d' where r: "create plain_codec failing_rename_env 9 (demo_body ''Lamp'') (demo_store, Map.empty) = (Inl Io, st', d')"
    "st' \<noteq> demo_store"
    by (simp add: catalog_evals demo_store_def demo_export_def persist_then_def persist_def failing_rename_env_def
        fs_create_dir_all_def write_then_rename_def fs_write_def fs_rename_def plain_codec_def file_names)
  from create_failure [OF r(1)] r show ?thesis by blast
qed

text \<open>A valid patch of a catalogued export overwrites exactly the fields the body carries (a carried null clears
  the area), keeps the export id and the endpoint id, changes no other export and is on the disk.\<close>

lemma patch_applies:
  assumes "codec_round_trips c" and "healthy env" and "catalog_inv st" and "catalog_get st i = Some e"
    and "case pa_name body of None \<Rightarrow> True | Some n \<Rightarrow> n \<noteq> [] \<and> length n \<le> 64"
    and "pa_primary_entity_id body \<noteq> Some []"
  shows "\<exists>e' st' d' u. patch c env i body (st, d) = (Inr e', st', d') \<and>
    e' = \<lparr>export_id = export_id e,
          ex_name = (case pa_name body of None \<Rightarrow> ex_name e | Some n \<Rightarrow> n),
          ex_type = (case pa_type body of None \<Rightarrow> ex_type e | Some t \<Rightarrow> t),
          primary_entity_id = (case pa_primary_entity_id body of None \<Rightarrow> primary_entity_id e | Some p \<Rightarrow> p),
          linked = (case pa_linked body of None \<Rightarrow> linked e | Some l \<Rightarrow> l),
          area_id = (case pa_area_id body of None \<Rightarrow> area_id e | Some a \<Rightarrow> a),
          enabled = (case pa_enabled body of None \<Rightarrow> enabled e | Some b \<Rightarrow> b),
          endpoint_id = endpoint_id e\<rparr> \<and>
    catalog_get st' = (catalog_get st)(i \<mapsto> e') \<and>
    d' exports_file = Some u \<and> de_exports c u = Some \<lparr>pe_exports = catalog_list st'\<rparr>"
    (is "\<exists>e' st' d' u. _ \<and> e' = ?e' \<and> _")
proof -
  have get: "bt_get (by_id st) i = Some e" using assms(4) by (simp add: catalog_get_def)
  then obtain ep where ep: "endpoint_id e = Some ep" using catalog_inv_endpoint [OF assms(3)] by blast
  have f: "patch_fields body None e = (Inr (), ?e')"
    using assms(5,6) ep
    by (auto simp: patch_fields_def write_some_def Let_def split: option.splits)
  define st' where "st' = st\<lparr>by_id := bt_modify i (\<lambda>_. ?e') (by_id st)\<rparr>"
  have "patch c env i body (st, d) = persist_then c env ?e' st' d"
    using get ep f by (simp add: patch_def st'_def)
  moreover have "catalog_get st' = (catalog_get st)(i \<mapsto> ?e')"
    using get by (simp add: catalog_get_def [abs_def] st'_def bt_get_modify)
  ultimately show ?thesis
    using persist_then_total [OF assms(1,2), of ?e' st' d] by metis
qed

definition demo_patch :: patch_export where
  "demo_patch = \<lparr>pa_name = Some ''Desk'', pa_type = Some Outlet, pa_primary_entity_id = None, pa_linked = None,
     pa_area_id = Some None, pa_enabled = Some False\<rparr>"

lemma patch_applies_witness:
  "\<exists>e' st' d'. patch plain_codec ok_env 7 demo_patch (demo_store, Map.empty) = (Inr e', st', d') \<and>
     ex_name e' = ''Desk'' \<and> ex_type e' = Outlet \<and> \<not> enabled e' \<and> endpoint_id e' = Some 65535 \<and>
     primary_entity_id e' = ''light.a'' \<and> catalog_get st' 7 = Some e'"
proof -
  have "catalog_get demo_store 7 = Some (demo_export 7 65535)"
    by (simp add: catalog_get_def bt_get_def demo_store_def)
  from patch_applies [OF plain_codec_round_trips ok_env_healthy demo_store_inv this, of demo_patch Map.empty]
  show ?thesis by (auto simp: demo_patch_def demo_export_def)
qed

text \<open>A patch that is refused at the entity has already written the name and the type of the body into the
  catalogued export: the request fails as invalid and nothing reaches the disk, but the catalog in memory
  has changed, and the next successful mutation persists it.\<close>

lemma patch_refused_keeps_name:
  assumes "catalog_inv st" and "catalog_get st i = Some e"
    and "pa_name body = Some n" and "n \<noteq> []" and "length n \<le> 64"
    and "pa_primary_entity_id body = Some []"
  shows "\<exists>st'. patch c env i body (st, d) = (Inl (Invalid ''primary_entity_id must be non-empty''), st', d) \<and>
    map_option ex_name (catalog_get st' i) = Some n"
proof -
  have get: "bt_get (by_id st) i = Some e" using assms(2) by (simp add: catalog_get_def)
  then obtain ep where ep: "endpoint_id e = Some ep" using catalog_inv_endpoint [OF assms(1)] by blast
  define e' where "e' = write_some (\<lambda>v e. e\<lparr>ex_type := v\<rparr>) (pa_type body) (e\<lparr>ex_name := n\<rparr>)"
  have "patch_fields body None e = (Inl (Invalid ''primary_entity_id must be non-empty''), e')"
    using assms(3-6) by (simp add: patch_fields_def e'_def Let_def)
  moreover have "ex_name e' = n" by (simp add: e'_def write_some_frame)
  ultimately show ?thesis
    using get ep by (simp add: patch_def catalog_get_def bt_get_modify)
qed

definition bad_patch :: patch_export where
  "bad_patch = demo_patch\<lparr>pa_primary_entity_id := Some []\<rparr>"

lemma patch_refused_keeps_name_witness:
  "\<exists>st'. patch plain_codec ok_env 7 bad_patch (demo_store, Map.empty) =
     (Inl (Invalid ''primary_entity_id must be non-empty''), st', Map.empty) \<and>
   map_option ex_name (catalog_get st' 7) = Some ''Desk'' \<and>
   map_option ex_name (catalog_get demo_store 7) = Some ''Lamp''"
proof -
  have "catalog_get demo_store 7 = Some (demo_export 7 65535)"
    by (simp add: catalog_get_def bt_get_def demo_store_def)
  from patch_refused_keeps_name [OF demo_store_inv this, of bad_patch "''Desk''"] this show ?thesis
    by (simp add: bad_patch_def demo_patch_def demo_export_def)
qed

text \<open>A deletion removes exactly the named export, returns it, is on the disk, and does not move the cursor, so the
  freed id is not handed out next.\<close>

lemma delete_succeeds:
  assumes "codec_round_trips c" and "healthy env" and "catalog_get st i = Some e"
  shows "\<exists>st' d' u. delete c env i (st, d) = (Inr e, st', d') \<and>
    catalog_get st' = (catalog_get st)(i := None) \<and> next_endpoint st' = next_endpoint st \<and>
    d' exports_file = Some u \<and> de_exports c u = Some \<lparr>pe_exports = catalog_list st'\<rparr>"
  using persist_then_total [OF assms(1,2), of e "st\<lparr>by_id := bt_remove i (by_id st)\<rparr>" d] assms(3)
  by (auto simp: delete_def catalog_get_def [abs_def] bt_get_remove)

lemma delete_succeeds_witness:
  "\<exists>st' d'. delete plain_codec ok_env 7 (demo_store, Map.empty) = (Inr (demo_export 7 65535), st', d') \<and>
     catalog_get st' 7 = None"
proof -
  have "catalog_get demo_store 7 = Some (demo_export 7 65535)"
    by (simp add: catalog_get_def bt_get_def demo_store_def)
  from delete_succeeds [OF plain_codec_round_trips ok_env_healthy this] show ?thesis by fastforce
qed

text \<open>Replacing the whole catalog keeps the endpoint id of every export that was catalogued with one, whatever id
  the incoming catalog carries for it, and the new catalog holds exactly the incoming exports.\<close>

lemma replace_keeps_endpoints:
  assumes "replace c env incoming (st, d) = (Inr out, st', d')"
  shows "dom (catalog_get st') = export_id ` set (snap_exports incoming) \<and>
    (\<forall>i p ep e. catalog_get st i = Some p \<longrightarrow> endpoint_id p = Some ep \<longrightarrow> catalog_get st' i = Some e \<longrightarrow>
       endpoint_id e = Some ep)"
proof -
  obtain m st1 where l: "replace_loop (snap_exports incoming) [] (st\<lparr>bridge_name := snap_bridge_name incoming\<rparr>) = (Inr m, st1)"
    and "by_id st' = m"
    using assms
    by (auto simp: replace_def Let_def split: if_splits prod.splits sum.splits dest!: persist_then_store)
  moreover have "keeps_endpoints (by_id (st\<lparr>bridge_name := snap_bridge_name incoming\<rparr>)) []"
    by (simp add: keeps_endpoints_def bt.get_empty)
  ultimately have "keeps_endpoints (by_id st) (by_id st')"
    "dom (bt_get (by_id st')) = export_id ` set (snap_exports incoming)"
    using replace_loop_keeps [OF l] by (simp_all add: bt.get_empty)
  then show ?thesis unfolding keeps_endpoints_def catalog_get_def [abs_def] by blast
qed

definition demo_incoming :: catalog_snapshot where
  "demo_incoming = \<lparr>snap_bridge_name = ''Home'', snap_exports = [(demo_export 7 3)\<lparr>ex_name := ''Desk''\<rparr>]\<rparr>"

lemma replace_keeps_endpoints_witness:
  "\<exists>out st' d' e. replace plain_codec ok_env demo_incoming (demo_store, Map.empty) = (Inr out, st', d') \<and>
     catalog_get st' 7 = Some e \<and> endpoint_id e = Some 65535"
proof -
  obtain out st' d' where r: "replace plain_codec ok_env demo_incoming (demo_store, Map.empty) = (Inr out, st', d')"
    by (simp add: replace_def demo_incoming_def demo_store_def demo_export_def catalog_evals)
  have g: "catalog_get demo_store 7 = Some (demo_export 7 65535)"
    by (simp add: catalog_get_def bt_get_def demo_store_def)
  have "7 \<in> dom (catalog_get st')"
    using replace_keeps_endpoints [OF r] by (simp add: demo_incoming_def demo_export_def)
  then obtain e where e: "catalog_get st' 7 = Some e" by blast
  have "endpoint_id (demo_export 7 65535) = Some 65535" by (simp add: demo_export_def)
  with replace_keeps_endpoints [OF r] g e have "endpoint_id e = Some 65535" by blast
  with r e show ?thesis by blast
qed

text \<open>A replacement does not check the endpoint ids it is given against each other: two new exports that carry
  the same id are both kept, so the invariant of distinct ids is lost.\<close>

lemma replace_accepts_duplicate_endpoints:
  "\<exists>incoming out st' d'. replace plain_codec ok_env incoming (catalog_new dir n, d) = (Inr out, st', d') \<and>
     \<not> catalog_inv st'"
proof -
  define incoming where "incoming = \<lparr>snap_bridge_name = ''Home'', snap_exports = [demo_export 1 5, demo_export 2 5]\<rparr>"
  obtain out st' d' where r: "replace plain_codec ok_env incoming (catalog_new dir n, d) = (Inr out, st', d')"
    and b: "by_id st' = [(1, demo_export 1 5), (2, demo_export 2 5)]"
    by (simp add: replace_def incoming_def demo_export_def catalog_evals catalog_new_def)
  have "\<not> catalog_inv st'"
  proof
    assume "catalog_inv st'"
    then have inj: "bt_get (by_id st') i = Some e \<Longrightarrow> bt_get (by_id st') j = Some f \<Longrightarrow>
        endpoint_id e = endpoint_id f \<Longrightarrow> i = j" for i j e f
      unfolding catalog_inv_def exports_inv_def by blast
    have "bt_get (by_id st') 1 = Some (demo_export 1 5)" "bt_get (by_id st') 2 = Some (demo_export 2 5)"
      by (simp_all add: b bt_get_def)
    from inj [OF this] show False by (simp add: demo_export_def)
  qed
  with r show ?thesis by blast
qed

end
