(* ===== verification/Control_Spec.thy ===== *)
theory Control_Spec
  imports Ipc_Properties Catalog_Properties
begin

text \<open>
  The control plane as a service: a map from export ids to exports, the cursor of the endpoint ids, and the
  queue of the commands for Home Assistant. Every request has one step on this state and one reply; files,
  the entry list, partial field updates and the backend do not occur. The locale \<open>simulation\<close> lifts an
  agreement of single steps to sequences; it is interpreted on \<open>route\<close> of \<open>ipc/server.rs\<close> with
  the handlers of \<open>ipc/handlers.rs\<close>, for every backend with the contract.
\<close>

section \<open>Simulation of sequences\<close>

fun run_steps :: "('i \<Rightarrow> 's \<Rightarrow> 'o \<times> 's) \<Rightarrow> 'i list \<Rightarrow> 's \<Rightarrow> 'o list \<times> 's" where
  "run_steps step [] s = ([], s)"
| "run_steps step (i # rest) s = (case step i s of (r, s) \<Rightarrow> (case run_steps step rest s of (rs, s) \<Rightarrow> (r # rs, s)))"

locale simulation =
  fixes step :: "'i \<Rightarrow> 's \<Rightarrow> 'o \<times> 's"
    and spec :: "'i \<Rightarrow> 'a \<Rightarrow> 'p \<times> 'a"
    and admissible :: "'i \<Rightarrow> bool"
    and sim :: "'s \<Rightarrow> 'a \<Rightarrow> bool"
    and answers :: "'o \<Rightarrow> 'p \<Rightarrow> bool"
  assumes step_sim: "admissible i \<Longrightarrow> sim s a \<Longrightarrow>
    answers (fst (step i s)) (fst (spec i a)) \<and> sim (snd (step i s)) (snd (spec i a))"
begin

lemma run_sim:
  "list_all admissible is \<Longrightarrow> sim s a \<Longrightarrow>
     list_all2 answers (fst (run_steps step is s)) (fst (run_steps spec is a)) \<and>
     sim (snd (run_steps step is s)) (snd (run_steps spec is a))"
proof (induction "is" arbitrary: s a)
  case (Cons i rest)
  have "admissible i" using Cons.prems(1) by simp
  from step_sim [OF this Cons.prems(2)] Cons.IH [of "snd (step i s)" "snd (spec i a)"] Cons.prems(1)
  show ?case by (auto simp: split_beta)
qed simp

end

section \<open>The service\<close>

record service =
  sv_exports :: "uuid \<rightharpoonup> export"
  sv_cursor :: u16
  sv_queue :: "command_request list"

datatype reply =
    RExports "export list"
  | RExport export
  | RCreated export
  | RApplied nat
  | RCommands "command_request list"
  | RCounts nat nat
  | RInvalid
  | RNotFound
  | RFull
  | RUnspecified

definition free_endpoint :: "(uuid \<rightharpoonup> export) \<Rightarrow> u16 \<Rightarrow> u16 option" where
  "free_endpoint m cursor =
     List.find (\<lambda>ep. \<forall>e \<in> ran m. endpoint_id e \<noteq> Some ep) (map (cyclic_id cursor) [0..<65535])"

definition spec_create :: "uuid \<Rightarrow> create_export \<Rightarrow> service \<Rightarrow> reply \<times> service" where
  "spec_create fresh body s =
     (let i = (case cr_export_id body of None \<Rightarrow> fresh | Some i \<Rightarrow> i)
      in if cr_name body = [] \<or> 64 < length (cr_name body) \<or> cr_primary_entity_id body = [] \<or> i \<in> dom (sv_exports s)
         then (RInvalid, s)
         else case free_endpoint (sv_exports s) (sv_cursor s) of
                None \<Rightarrow> (RFull, s)
              | Some ep \<Rightarrow>
                  let e = \<lparr>export_id = i, ex_name = cr_name body, ex_type = cr_type body,
                     primary_entity_id = cr_primary_entity_id body, linked = cr_linked body,
                     area_id = cr_area_id body, enabled = cr_enabled body, endpoint_id = Some ep\<rparr>
                  in (RCreated e, s\<lparr>sv_exports := (sv_exports s)(i \<mapsto> e), sv_cursor := ep + 1\<rparr>))"

definition valid_patch :: "patch_export \<Rightarrow> bool" where
  "valid_patch body \<longleftrightarrow>
     (case pa_name body of None \<Rightarrow> True | Some n \<Rightarrow> n \<noteq> [] \<and> length n \<le> 64) \<and> pa_primary_entity_id body \<noteq> Some []"

definition patched :: "patch_export \<Rightarrow> export \<Rightarrow> export" where
  "patched body e =
     \<lparr>export_id = export_id e,
      ex_name = (case pa_name body of None \<Rightarrow> ex_name e | Some n \<Rightarrow> n),
      ex_type = (case pa_type body of None \<Rightarrow> ex_type e | Some t \<Rightarrow> t),
      primary_entity_id = (case pa_primary_entity_id body of None \<Rightarrow> primary_entity_id e | Some p \<Rightarrow> p),
      linked = (case pa_linked body of None \<Rightarrow> linked e | Some l \<Rightarrow> l),
      area_id = (case pa_area_id body of None \<Rightarrow> area_id e | Some a \<Rightarrow> a),
      enabled = (case pa_enabled body of None \<Rightarrow> enabled e | Some b \<Rightarrow> b),
      endpoint_id = endpoint_id e\<rparr>"

definition spec_patch :: "uuid \<Rightarrow> patch_export \<Rightarrow> service \<Rightarrow> reply \<times> service" where
  "spec_patch i body s =
     (case sv_exports s i of
        None \<Rightarrow> (RNotFound, s)
      | Some e \<Rightarrow> if valid_patch body
                  then (RExport (patched body e), s\<lparr>sv_exports := (sv_exports s)(i \<mapsto> patched body e)\<rparr>)
                  else (RInvalid, s))"

definition spec_delete :: "uuid \<Rightarrow> service \<Rightarrow> reply \<times> service" where
  "spec_delete i s =
     (case sv_exports s i of
        None \<Rightarrow> (RNotFound, s)
      | Some e \<Rightarrow> (RExport e, s\<lparr>sv_exports := (sv_exports s)(i := None)\<rparr>))"

definition spec_push :: "state_decoders \<Rightarrow> uuid \<Rightarrow> string \<Rightarrow> service \<Rightarrow> reply \<times> service" where
  "spec_push de i body s =
     (if i \<notin> dom (sv_exports s) then (RNotFound, s)
      else case parse_state_body de body of Inl _ \<Rightarrow> (RInvalid, s) | Inr states \<Rightarrow> (RApplied (length states), s))"

fun spec_route :: "state_decoders \<Rightarrow> ipc_request \<Rightarrow> service \<Rightarrow> reply \<times> service" where
  "spec_route de GetExports s = (RExports (map (the \<circ> sv_exports s) (sorted_list_of_set (dom (sv_exports s)))), s)"
| "spec_route de (GetExportId i) s = (case sv_exports s i of None \<Rightarrow> RNotFound | Some e \<Rightarrow> RExport e, s)"
| "spec_route de (PostExports fresh body) s = spec_create fresh body s"
| "spec_route de (PatchExportId i body) s = spec_patch i body s"
| "spec_route de (DeleteExportId i) s = spec_delete i s"
| "spec_route de (PostState i body) s = spec_push de i body s"
| "spec_route de GetCommands s = (RCommands (sv_queue s), s\<lparr>sv_queue := []\<rparr>)"
| "spec_route de GetStatus s =
     (RCounts (card (dom (sv_exports s))) (card {i. \<exists>e. sv_exports s i = Some e \<and> enabled e}), s)"
| "spec_route de GetHealth s = (RUnspecified, s)"
| "spec_route de GetPairing s = (RUnspecified, s)"
| "spec_route de (PostPairingOpen body) s = (RUnspecified, s)"
| "spec_route de PostPairingClose s = (RUnspecified, s)"

text \<open>A reply as it is on the wire: status and body.\<close>

fun answers :: "response \<Rightarrow> reply \<Rightarrow> bool" where
  "answers r (RExports es) \<longleftrightarrow> r = ok_json (ExportsBody es)"
| "answers r (RExport e) \<longleftrightarrow> r = ok_json (ExportBody e)"
| "answers r (RCreated e) \<longleftrightarrow> r = \<lparr>resp_status = 201, resp_body = ExportBody e\<rparr>"
| "answers r (RApplied n) \<longleftrightarrow> r = ok_json (PushBody \<lparr>push_applied = of_nat n\<rparr>)"
| "answers r (RCommands cs) \<longleftrightarrow> r = ok_json (CommandsBody \<lparr>pc_commands = cs\<rparr>)"
| "answers r (RCounts n m) \<longleftrightarrow>
     (\<exists>b. r = ok_json (StatusBody b) \<and> bs_export_count b = of_nat n \<and> bs_enabled_export_count b = of_nat m)"
| "answers r RInvalid \<longleftrightarrow> resp_status r = 400"
| "answers r RNotFound \<longleftrightarrow> resp_status r = 404"
| "answers r RFull \<longleftrightarrow> resp_status r = 500"
| "answers r RUnspecified \<longleftrightarrow> True"

section \<open>Catalog operations implement the service\<close>

lemma catalog_get_abs: "catalog_get st = bt_get (by_id st)"
  by (rule ext) (simp add: catalog_get_def)

lemma catalog_inv_sorted: "catalog_inv st \<Longrightarrow> bt_sorted (by_id st)"
  by (simp add: catalog_inv_def exports_inv_def)

lemma used_endpoints_ran:
  assumes "catalog_inv st"
  shows "ep \<in> used_endpoints st \<longleftrightarrow> (\<exists>e \<in> ran (catalog_get st). endpoint_id e = Some ep)"
  using used_endpoints_iff [OF catalog_inv_sorted [OF assms]] by (auto simp: catalog_get_abs ran_def)

lemma all_endpoints_used:
  assumes "catalog_inv st" and "card (used_endpoints st) \<ge> 65535" and "ep \<noteq> 0"
  shows "ep \<in> used_endpoints st"
proof (rule ccontr)
  assume "ep \<notin> used_endpoints st"
  moreover have "0 \<notin> used_endpoints st"
  proof
    assume "0 \<in> used_endpoints st"
    then obtain i e where "bt_get (by_id st) i = Some e" "endpoint_id e = Some 0"
      using used_endpoints_inv [OF assms(1)] by blast
    with exports_inv_get [OF assms(1) [unfolded catalog_inv_def]] show False by (fastforce simp: export_ok_def)
  qed
  ultimately have "used_endpoints st \<subseteq> UNIV - {0, ep}" by auto
  then have "card (used_endpoints st) \<le> card (UNIV - {0, ep})" by (rule card_mono [rotated]) simp
  with assms(2,3) show False by (simp add: card_Diff_subset card_word)
qed

lemma free_endpoint_alloc:
  assumes "catalog_inv st"
  shows "alloc_endpoint st =
    (case free_endpoint (catalog_get st) (next_endpoint st) of
       None \<Rightarrow> (Inl EndpointExhausted, st)
     | Some ep \<Rightarrow> (Inr ep, st\<lparr>next_endpoint := ep + 1\<rparr>))"
proof -
  let ?n = "next_endpoint st" and ?used = "used_endpoints st"
  have free: "free_endpoint (catalog_get st) ?n = List.find (\<lambda>ep. ep \<notin> ?used) (map (cyclic_id ?n) [0..<65535])"
    using used_endpoints_ran [OF assms] by (simp add: free_endpoint_def cong: find_cong)
  show ?thesis
  proof (cases "card ?used < 65535")
    case True
    then obtain j where j: "j < 65535" "alloc_loop ?used ?n = Some (cyclic_id ?n j, cyclic_id ?n j + 1)"
      "cyclic_id ?n j \<notin> ?used" "\<forall>i < j. cyclic_id ?n i \<in> ?used"
      using alloc_loop_returns by blast
    then have "free_endpoint (catalog_get st) ?n = Some (cyclic_id ?n j)"
      unfolding free find_Some_iff by (intro exI [of _ j]) simp
    with j(2) True show ?thesis by (simp add: alloc_endpoint_def Let_def)
  next
    case False
    then have "free_endpoint (catalog_get st) ?n = None"
      unfolding free find_None_iff using all_endpoints_used [OF assms] cyclic_id_nonzero by auto
    with False show ?thesis by (simp add: alloc_endpoint_def)
  qed
qed

definition service_of :: "catalog_store \<Rightarrow> command_request list \<Rightarrow> service" where
  "service_of st queue = \<lparr>sv_exports = catalog_get st, sv_cursor = next_endpoint st, sv_queue = queue\<rparr>"

definition total_io :: "'t ipc_env \<Rightarrow> bool" where
  "total_io env \<longleftrightarrow> codec_round_trips (ie_codec env) \<and> healthy (ie_fs env)"

lemma total_persist_then:
  "total_io env \<Longrightarrow> \<exists>d'. persist_then (ie_codec env) (ie_fs env) out st d = (Inr out, st, d')"
  unfolding total_io_def by (elim conjE) (metis persist_then_total)

text \<open>The error a catalog operation may end with, as the reply of the service.\<close>

fun error_answers :: "catalog_error \<Rightarrow> reply \<Rightarrow> bool" where
  "error_answers (Invalid m) r \<longleftrightarrow> r = RInvalid"
| "error_answers (NotFound i) r \<longleftrightarrow> r = RNotFound"
| "error_answers EndpointExhausted r \<longleftrightarrow> r = RFull"
| "error_answers Io r \<longleftrightarrow> False"
| "error_answers Json r \<longleftrightarrow> False"

definition implements :: "(catalog_error + export) \<times> catalog_store \<Rightarrow> catalog_store \<Rightarrow> (export \<Rightarrow> reply) \<Rightarrow> command_request list \<Rightarrow> reply \<times> service \<Rightarrow> bool" where
  "implements r st done queue rs \<longleftrightarrow>
     snd rs = service_of (snd r) queue \<and>
     (case fst r of Inl e \<Rightarrow> error_answers e (fst rs) \<and> catalog_get (snd r) = catalog_get st | Inr e \<Rightarrow> fst rs = done e)"

lemma create_service:
  assumes "total_io env" and "catalog_inv st" and "create (ie_codec env) (ie_fs env) v4 body (st, d) = (q, st', d')"
  shows "implements (q, st') st RCreated queue (spec_create v4 body (service_of st queue))"
proof -
  define i where "i = (case cr_export_id body of None \<Rightarrow> v4 | Some i \<Rightarrow> i)"
  have dom: "i \<in> dom (catalog_get st) \<longleftrightarrow> bt_get (by_id st) i \<noteq> None" by (simp add: catalog_get_abs dom_def)
  show ?thesis
  proof (cases "cr_name body = [] \<or> 64 < length (cr_name body) \<or> cr_primary_entity_id body = [] \<or> bt_get (by_id st) i \<noteq> None")
    case True
    then have "st' = st \<and> (\<exists>m. q = Inl (Invalid m))"
      using assms(3) by (auto simp: create_def validate_export_fields_def Let_def simp flip: i_def split: if_splits)
    with True show ?thesis
      unfolding spec_create_def implements_def by (auto simp: dom service_of_def Let_def simp flip: i_def)
  next
    case False
    then have valid: "validate_export_fields (cr_name body) (cr_primary_entity_id body) = Inr ()"
      by (simp add: validate_export_fields_def)
    show ?thesis
    proof (cases "free_endpoint (catalog_get st) (next_endpoint st)")
      case None
      then have "st' = st \<and> q = Inl EndpointExhausted"
        using assms(3) False valid free_endpoint_alloc [OF assms(2)] by (auto simp: create_def Let_def simp flip: i_def)
      with False None show ?thesis
        by (auto simp: spec_create_def implements_def dom service_of_def Let_def simp flip: i_def)
    next
      case (Some ep)
      define e where "e = \<lparr>export_id = i, ex_name = cr_name body, ex_type = cr_type body,
         primary_entity_id = cr_primary_entity_id body, linked = cr_linked body,
         area_id = cr_area_id body, enabled = cr_enabled body, endpoint_id = Some ep\<rparr>"
      define st1 where "st1 = st\<lparr>next_endpoint := ep + 1, by_id := bt_insert i e (by_id st)\<rparr>"
      have "create (ie_codec env) (ie_fs env) v4 body (st, d) = persist_then (ie_codec env) (ie_fs env) e st1 d"
        using False valid Some free_endpoint_alloc [OF assms(2)]
        by (simp add: create_def Let_def e_def st1_def flip: i_def)
      with total_persist_then [OF assms(1), of e st1 d] assms(3) have q: "q = Inr e" "st' = st1" by auto
      have get: "catalog_get st1 = (catalog_get st)(i \<mapsto> e)"
        using catalog_inv_sorted [OF assms(2)] by (simp add: catalog_get_abs st1_def bt_get_insert)
      have "spec_create v4 body (service_of st queue) = (RCreated e, service_of st1 queue)"
        using False Some by (simp add: spec_create_def dom service_of_def Let_def get e_def flip: i_def) (simp add: st1_def)
      with q show ?thesis by (simp add: implements_def)
    qed
  qed
qed

text \<open>
  A patch that is refused at the entity, after the name or the type was written, is the one case where the
  program keeps part of a refused change (lemma \<open>patch_refused_keeps_name\<close>). \<open>atomic_patch\<close> excludes it.
\<close>

definition atomic_patch :: "patch_export \<Rightarrow> bool" where
  "atomic_patch body \<longleftrightarrow> pa_primary_entity_id body = Some [] \<longrightarrow>
     (pa_name body = None \<and> pa_type body = None) \<or> (\<exists>n. pa_name body = Some n \<and> (n = [] \<or> 64 < length n))"

lemma patch_fields_patched:
  assumes "endpoint_id e = Some ep"
  shows "valid_patch body \<Longrightarrow> patch_fields body None e = (Inr (), patched body e)"
    and "\<not> valid_patch body \<Longrightarrow> atomic_patch body \<Longrightarrow> \<exists>m. patch_fields body None e = (Inl (Invalid m), e)"
  using assms
  by (auto simp: patch_fields_def valid_patch_def atomic_patch_def patched_def write_some_def Let_def split: option.splits)

lemma patch_service:
  assumes "total_io env" and "catalog_inv st" and "atomic_patch body"
    and "patch (ie_codec env) (ie_fs env) i body (st, d) = (q, st', d')"
  shows "implements (q, st') st RExport queue (spec_patch i body (service_of st queue))"
proof (cases "bt_get (by_id st) i")
  case None
  with assms(4) show ?thesis by (auto simp: patch_def implements_def spec_patch_def service_of_def catalog_get_abs)
next
  case (Some e)
  then obtain ep where ep: "endpoint_id e = Some ep" using catalog_inv_endpoint [OF assms(2)] by blast
  note fields = patch_fields_patched [OF ep, of body]
  show ?thesis
  proof (cases "valid_patch body")
    case True
    define st1 where "st1 = st\<lparr>by_id := bt_modify i (\<lambda>_. patched body e) (by_id st)\<rparr>"
    have "patch (ie_codec env) (ie_fs env) i body (st, d) = persist_then (ie_codec env) (ie_fs env) (patched body e) st1 d"
      using Some ep fields(1) [OF True] by (simp add: patch_def st1_def)
    with total_persist_then [OF assms(1), of "patched body e" st1 d] assms(4)
    have "q = Inr (patched body e)" "st' = st1" by auto
    with True Some show ?thesis
      by (simp add: implements_def spec_patch_def service_of_def catalog_get_abs st1_def bt_get_modify)
  next
    case False
    then obtain m where "patch_fields body None e = (Inl (Invalid m), e)" using fields(2) assms(3) by blast
    with Some ep assms(4) have "q = Inl (Invalid m)" "st' = st\<lparr>by_id := bt_modify i (\<lambda>_. e) (by_id st)\<rparr>"
      by (auto simp: patch_def)
    with False Some show ?thesis
      by (simp add: implements_def spec_patch_def service_of_def catalog_get_abs bt_get_modify fun_upd_idem)
  qed
qed

lemma delete_service:
  assumes "total_io env" and "delete (ie_codec env) (ie_fs env) i (st, d) = (q, st', d')"
  shows "implements (q, st') st RExport queue (spec_delete i (service_of st queue))"
proof (cases "bt_get (by_id st) i")
  case None
  with assms(2) show ?thesis by (auto simp: delete_def implements_def spec_delete_def service_of_def catalog_get_abs)
next
  case (Some e)
  with total_persist_then [OF assms(1), of e "st\<lparr>by_id := bt_remove i (by_id st)\<rparr>" d] assms(2)
  have "q = Inr e" "st' = st\<lparr>by_id := bt_remove i (by_id st)\<rparr>" by (auto simp: delete_def)
  with Some show ?thesis
    by (simp add: implements_def spec_delete_def service_of_def catalog_get_abs bt_get_remove)
qed

section \<open>Requests implement the service\<close>

text \<open>
  What a backend shows is a function of the catalogued exports, set by the synchronisation and left alone by
  everything else: for the Matter backend the bridged endpoints, for the development backend the known ids.
\<close>

locale showing_backend = backend_contract +
  fixes shown :: "'a \<Rightarrow> 'v"
    and view :: "(uuid \<rightharpoonup> export) \<Rightarrow> 'v"
  assumes set_exports_shown: "catalog_inv st \<Longrightarrow> good b \<Longrightarrow>
      shown (snd (be_set_exports ops (catalog_list st) b)) = view (catalog_get st)"
    and apply_shown: "good b \<Longrightarrow> shown (snd (be_apply_state ops i sts b)) = shown b"
    and take_shown: "shown (snd (be_take_commands ops b)) = shown b"
    and open_shown: "shown (snd (be_open_pairing_window ops t b)) = shown b"
    and close_shown: "shown (snd (be_close_pairing_window ops b)) = shown b"

definition serves ::
  "('b \<Rightarrow> uuid set) \<Rightarrow> ('b \<Rightarrow> command_request list) \<Rightarrow> ('b \<Rightarrow> bool) \<Rightarrow> ('b \<Rightarrow> 'v) \<Rightarrow> ((uuid \<rightharpoonup> export) \<Rightarrow> 'v) \<Rightarrow>
     'b app_state \<Rightarrow> service \<Rightarrow> bool" where
  "serves known_ids queued good shown view app s \<longleftrightarrow>
     app_inv good app \<and> in_sync known_ids app \<and> shown (app_backend app) = view (sv_exports s) \<and>
     s = service_of (app_catalog app) (queued (app_backend app))"

lemma catalog_err_answers: "error_answers e rep \<Longrightarrow> answers (catalog_err detail e) rep"
  by (cases e) (auto simp: catalog_err_def error_response_def)

lemma catalog_list_sorted:
  assumes "catalog_inv st"
  shows "catalog_list st = map (the \<circ> catalog_get st) (sorted_list_of_set (dom (catalog_get st)))"
proof -
  have s: "bt_sorted (by_id st)" by (rule catalog_inv_sorted [OF assms])
  have "dom (catalog_get st) = set (map fst (by_id st))"
    using bt_get_entries [OF s] by (force simp: catalog_get_abs)
  moreover have "sorted_list_of_set (set (map fst (by_id st))) = map fst (by_id st)"
    using s by (intro sorted_list_of_set.idem_if_sorted_distinct) (simp_all add: bt_sorted_def strict_sorted_iff)
  ultimately have "map (the \<circ> catalog_get st) (sorted_list_of_set (dom (catalog_get st))) =
      map (\<lambda>x. the (catalog_get st (fst x))) (by_id st)" by simp
  also have "\<dots> = map snd (by_id st)"
  proof (intro map_cong refl)
    fix x assume "x \<in> set (by_id st)"
    then have "bt_get (by_id st) (fst x) = Some (snd x)" using bt_get_entries [OF s] by simp
    then show "the (catalog_get st (fst x)) = snd x" by (simp add: catalog_get_abs)
  qed
  finally show ?thesis by (simp add: catalog_list_def bt_values_def)
qed

lemma catalog_counts:
  assumes "catalog_inv st"
  shows "export_count st = card (dom (catalog_get st))"
    and "enabled_export_count st = card {i. \<exists>e. catalog_get st i = Some e \<and> enabled e}"
proof -
  have s: "bt_sorted (by_id st)" by (rule catalog_inv_sorted [OF assms])
  have d: "distinct (map fst (by_id st))" by (rule bt_sorted_distinct [OF s])
  have "dom (catalog_get st) = set (map fst (by_id st))"
    using bt_get_entries [OF s] by (force simp: catalog_get_abs)
  then show "export_count st = card (dom (catalog_get st))"
    using distinct_card [OF d] by (simp add: export_count_def)
  let ?en = "filter (\<lambda>x. enabled (snd x)) (by_id st)"
  have "distinct (map fst ?en)" using d by (rule distinct_map_filter)
  then have "card (set (map fst ?en)) = length ?en" using distinct_card by fastforce
  moreover have "set (map fst ?en) = {i. \<exists>e. catalog_get st i = Some e \<and> enabled e}"
    using bt_get_entries [OF s] by (force simp: catalog_get_abs)
  moreover have "enabled_export_count st = length ?en"
    by (simp add: enabled_export_count_def catalog_list_def bt_values_def filter_map comp_def)
  ultimately show "enabled_export_count st = card {i. \<exists>e. catalog_get st i = Some e \<and> enabled e}" by simp
qed

context showing_backend
begin

abbreviation served :: "'a app_state \<Rightarrow> service \<Rightarrow> bool" where
  "served \<equiv> serves known_ids queued good shown view"

lemma mutation_served:
  assumes "served app s" and "implements (q, st') (app_catalog app) done (queued (app_backend app)) rs"
    and "catalog_inv st'" and "\<And>x. answers (mk x) (done x)"
  shows "case q of
      Inl e \<Rightarrow> answers (catalog_err detail e) (fst rs) \<and> served (app\<lparr>app_catalog := st'\<rparr>) (snd rs)
    | Inr x \<Rightarrow> answers (mk x) (fst rs) \<and> served (snd (sync_exports ops (app\<lparr>app_catalog := st'\<rparr>))) (snd rs)"
proof (cases q)
  case (Inl e)
  with assms(1-3) show ?thesis
    by (auto simp: implements_def serves_def app_inv_def in_sync_def service_of_def catalog_get_abs catalog_err_answers)
next
  case (Inr x)
  have good: "good (app_backend app)" using assms(1) by (simp add: serves_def app_inv_def)
  with Inr assms(2,4) synced [OF assms(3) good] show ?thesis
    by (simp add: implements_def serves_def sync_exports_effect set_exports_queued set_exports_shown [OF assms(3)] service_of_def)
qed

lemma route_serves:
  assumes "total_io env" and "served app s"
    and "\<And>i body. req = PatchExportId i body \<Longrightarrow> atomic_patch body"
    and "route env ops req (app, d) = (r, app', d')"
  shows "answers r (fst (spec_route (ie_de_state env) req s)) \<and> served app' (snd (spec_route (ie_de_state env) req s))"
proof -
  let ?st = "app_catalog app"
  have cat: "catalog_inv ?st" and good: "good (app_backend app)" using assms(2) by (simp_all add: serves_def app_inv_def)
  have s: "s = service_of ?st (queued (app_backend app))" using assms(2) by (simp add: serves_def)
  have keep: "served (app\<lparr>app_backend := b\<rparr>) (s\<lparr>sv_queue := queued b\<rparr>)"
    if "good b" "known_ids b = known_ids (app_backend app)" "shown b = shown (app_backend app)" for b
    using assms(2) that by (simp add: serves_def app_inv_def in_sync_def service_of_def)
  have same: "s\<lparr>sv_queue := queued (app_backend app)\<rparr> = s" by (simp add: s service_of_def)
  show ?thesis
  proof (cases req)
    case (PostExports v4 body)
    obtain q st e where c: "create (ie_codec env) (ie_fs env) v4 body (?st, d) = (q, st, e)" using prod_cases3 by blast
    from mutation_served [OF assms(2) create_service [OF assms(1) cat c] create_inv [OF cat c],
        of "\<lambda>x. \<lparr>resp_status = 201, resp_body = ExportBody x\<rparr>"] assms(4) PostExports c
    show ?thesis by (auto simp: post_export_def sync_exports_effect s split: sum.splits)
  next
    case (PatchExportId i body)
    obtain q st e where c: "patch (ie_codec env) (ie_fs env) i body (?st, d) = (q, st, e)" using prod_cases3 by blast
    from mutation_served [OF assms(2) patch_service [OF assms(1) cat assms(3) c] patch_inv [OF cat c],
        of i "\<lambda>x. ok_json (ExportBody x)"] assms(4) PatchExportId c
    show ?thesis by (auto simp: patch_export_handler_def sync_exports_effect s split: sum.splits)
  next
    case (DeleteExportId i)
    obtain q st e where c: "delete (ie_codec env) (ie_fs env) i (?st, d) = (q, st, e)" using prod_cases3 by blast
    from mutation_served [OF assms(2) delete_service [OF assms(1) c] delete_inv [OF cat c],
        of "\<lambda>x. ok_json (ExportBody x)"] assms(4) DeleteExportId c
    show ?thesis by (auto simp: delete_export_def sync_exports_effect s split: sum.splits)
  next
    case (PostState i body)
    show ?thesis
    proof (cases "catalog_get ?st i")
      case None
      with PostState assms(2,4) show ?thesis
        by (auto simp: keep_disk_def push_state_def spec_push_def s service_of_def catalog_err_def error_response_def)
    next
      case (Some x)
      then have "i \<in> known_ids (app_backend app)" using assms(2) by (auto simp: serves_def in_sync_def catalog_get_abs)
      note applied = apply_known [OF good this]
      from Some PostState assms(2,4) keep [OF apply_inv [OF good] apply_frame(1) apply_shown [OF good]] show ?thesis
        by (auto simp: keep_disk_def push_state_def spec_push_def s service_of_def on_backend_eq applied error_response_def
            apply_frame(2) split: sum.splits)
    qed
  next
    case GetCommands
    with assms(4) keep [OF take_inv [OF good] take_frame(2) take_shown] show ?thesis
      by (auto simp: keep_disk_def take_commands_handler_def on_backend_eq take_frame(1) take_result s service_of_def)
  next
    case (PostPairingOpen body)
    with assms(2,4) keep [OF open_inv [OF good] open_frame(1) open_shown] same show ?thesis
      by (auto simp: keep_disk_def open_pairing_def on_backend_eq Let_def open_frame(2) split: sum.splits if_splits)
  next
    case PostPairingClose
    with assms(2,4) keep [OF close_inv [OF good] close_frame(1) close_shown] same show ?thesis
      by (auto simp: keep_disk_def close_pairing_def on_backend_eq close_frame(2) split: sum.splits)
  next
    case GetStatus
    with assms(2,4) catalog_counts [OF cat] show ?thesis
      by (auto simp: status_def Let_def s service_of_def)
  next
    case GetExports
    with assms(2,4) catalog_list_sorted [OF cat] show ?thesis
      by (auto simp: list_exports_def s service_of_def)
  next
    case (GetExportId i)
    with assms(2,4) show ?thesis
      by (auto simp: get_export_def s service_of_def catalog_err_def error_response_def split: option.splits)
  qed (use assms(2,4) in auto)
qed

end

text \<open>A request together with its surroundings, and what of them the agreement needs.\<close>

type_synonym ('t, 'b) call = "'t ipc_env \<times> 'b backend_ops \<times> ipc_request"

definition call_step :: "('t, 'b) call \<Rightarrow> 'b app_state \<times> 't disk \<Rightarrow> response \<times> 'b app_state \<times> 't disk" where
  "call_step c s = (case c of (env, ops, req) \<Rightarrow> route env ops req s)"

definition spec_call :: "('t, 'b) call \<Rightarrow> service \<Rightarrow> reply \<times> service" where
  "spec_call c s = (case c of (env, ops, req) \<Rightarrow> spec_route (ie_de_state env) req s)"

definition call_ok :: "('b backend_ops \<Rightarrow> bool) \<Rightarrow> ('t, 'b) call \<Rightarrow> bool" where
  "call_ok P c \<longleftrightarrow> (case c of (env, ops, req) \<Rightarrow> P ops \<and> total_io env \<and>
     (case req of PatchExportId i body \<Rightarrow> atomic_patch body | _ \<Rightarrow> True))"

lemma serve_all_run_steps: "serve_all xs s = run_steps call_step xs s"
proof (induction xs arbitrary: s)
  case (Cons x xs)
  then show ?case by (cases x) (simp add: call_step_def split_beta)
qed simp

interpretation service: simulation call_step spec_call
  "call_ok (\<lambda>ops. showing_backend ops known_ids queued good shown view)"
  "\<lambda>(app, d). serves known_ids queued good shown view app" answers
  for known_ids queued good shown view
proof unfold_locales
  fix c :: "('t, 'b) call" and s :: "'b app_state \<times> 't disk" and a
  obtain env ops req where c: "c = (env, ops, req)" by (rule prod_cases3)
  obtain app d where s: "s = (app, d)" by fastforce
  assume ok: "call_ok (\<lambda>ops. showing_backend ops known_ids queued good shown view) c"
    and sim: "(case s of (app, d) \<Rightarrow> serves known_ids queued good shown view app) a"
  obtain r app' d' where r: "route env ops req (app, d) = (r, app', d')" using prod_cases3 by blast
  have b: "showing_backend ops known_ids queued good shown view" and env: "total_io env"
    and patch: "\<And>i body. req = PatchExportId i body \<Longrightarrow> atomic_patch body"
    using ok by (auto simp: call_ok_def c)
  show "answers (fst (call_step c s)) (fst (spec_call c a)) \<and>
      (case snd (call_step c s) of (app, d) \<Rightarrow> serves known_ids queued good shown view app) (snd (spec_call c a))"
    using showing_backend.route_serves [OF b env _ patch r] sim by (simp add: c s call_step_def spec_call_def r)
qed

interpretation dev_shows: showing_backend "dev_ops dir now" dev_known dv_commands "\<lambda>_. True" dev_known dom for dir now
proof unfold_locales
  fix st b
  assume "catalog_inv st"
  then show "dev_known (snd (be_set_exports (dev_ops dir now) (catalog_list st) b)) = dom (catalog_get st)"
    by (simp add: dev_contract.set_exports_known catalog_list_ids(2) catalog_get_abs)
qed (simp_all add: dev_contract.apply_frame dev_contract.take_frame dev_contract.open_frame dev_contract.close_frame)

end
