(* ===== verification/Plane_Handler.thy ===== *)
theory Plane_Handler
  imports Plane_Invariant
begin

text \<open>
  The data-model side of the plane: the dispatch of reads, writes and commands by endpoint and
  cluster, and the cluster handlers of a slot (\<open>BridgedInfoHandler\<close>, \<open>SlotOnOffHandler\<close>,
  \<open>SlotBooleanStateHandler\<close>, \<open>SlotOccupancyHandler\<close>, \<open>SlotWindowCoveringHandler\<close>).
  A handler works on the slot of the snapshot it was dispatched with and on the current plane, which
  may have been rebuilt in between. The adaptors that decode a request are the library's: they are
  present as the attribute or command the request names, its decoded argument, and the library's own
  answer to an attribute the bridge has no method for.
\<close>

section \<open>Reading\<close>

datatype attr_value =
    VBool bool
  | VText string
  | VPercent u16
  | VBits u8
  | VConfig "config_flag set"
  | VOccupancy "occupancy_flag set"
  | VSensor occupancy_sensor
  | VSensorBits "occupancy_sensor set"
  | VCoverType covering_type
  | VEndProduct end_product

definition is_garage :: "export_slot \<Rightarrow> bool" where
  "is_garage s \<longleftrightarrow> ex_type (sl_export s) = Garage"

definition bridged_info_read :: "export_slot \<Rightarrow> attr_id \<Rightarrow> attr_value option" where
  "bridged_info_read s a =
     (case a of
        AReachable \<Rightarrow> Some (VBool True)
      | AUniqueId \<Rightarrow> Some (VText (unique_id s))
      | ANodeLabel \<Rightarrow> Some (VText (node_label s))
      | _ \<Rightarrow> None)"

definition on_off_read :: "export_slot \<Rightarrow> attr_id \<Rightarrow> attr_value option" where
  "on_off_read s a = (case a of AOnOff \<Rightarrow> Some (VBool (slot_on s)) | _ \<Rightarrow> None)"

definition boolean_state_read :: "export_slot \<Rightarrow> attr_id \<Rightarrow> attr_value option" where
  "boolean_state_read s a = (case a of AStateValue \<Rightarrow> Some (VBool (contact_closed s)) | _ \<Rightarrow> None)"

definition occupancy_read :: "export_slot \<Rightarrow> attr_id \<Rightarrow> attr_value option" where
  "occupancy_read s a =
     (case a of
        AOccupancy \<Rightarrow> Some (VOccupancy (occupancy_bitmap (motion_occupied s)))
      | AOccupancySensorType \<Rightarrow> Some (VSensor sensor_type)
      | AOccupancySensorTypeBitmap \<Rightarrow> Some (VSensorBits sensor_type_bitmap)
      | _ \<Rightarrow> None)"

definition window_covering_read :: "u8 \<Rightarrow> export_slot \<Rightarrow> attr_id \<Rightarrow> attr_value option" where
  "window_covering_read known_flags s a =
     (case a of
        AType \<Rightarrow> Some (VCoverType (cover_type (is_garage s)))
      | AConfigStatus \<Rightarrow> Some (VConfig config_status)
      | AOperationalStatus \<Rightarrow>
          Some (VBits (operational_status known_flags (cover_position s) (cover_target s) (cover_moving s)))
      | AEndProductType \<Rightarrow> Some (VEndProduct (end_product_type (is_garage s)))
      | ACurrentPositionLiftPercent100ths \<Rightarrow> Some (VPercent (ha_position_to_percent100ths (cover_position s)))
      | ATargetPositionLiftPercent100ths \<Rightarrow> Some (VPercent (ha_position_to_percent100ths (cover_target s)))
      | AMode \<Rightarrow> Some (VBits cover_mode)
      | _ \<Rightarrow> None)"

text \<open>
  A read ends in an error of the dispatch, in the library's descriptor handler (with the bridge's
  data version), or in a method of a cluster handler of the bridge, \<open>None\<close> when it has none for
  the attribute.
\<close>

datatype read_reply =
    AggregatorDescriptor u32
  | SlotDescriptor u32
  | ClusterAttr u32 "attr_value option"

definition plane_read :: "u8 \<Rightarrow> u16 \<Rightarrow> cluster_id \<Rightarrow> attr_id \<Rightarrow> export_plane \<Rightarrow> error_code + read_reply" where
  "plane_read known_flags ep cl a p =
     (if ep = AGGREGATOR_ENDPOINT_ID then
        (if cl \<noteq> cl_id desc_cluster then Inl ClusterNotFound
         else Inr (AggregatorDescriptor (aggregator_dataver p)))
      else case slot_at (pl_state p) ep of
        None \<Rightarrow> Inl EndpointNotFound
      | Some s \<Rightarrow>
          if cl = cl_id desc_cluster then Inr (SlotDescriptor (desc_dataver s))
          else if cl = cl_id bridged_info_cluster
            then Inr (ClusterAttr (bridged_info_dataver s) (bridged_info_read s a))
          else if cl = cl_id on_off_cluster \<and> is_KOnOff (kind s)
            then Inr (ClusterAttr (functional_dataver s) (on_off_read s a))
          else if cl = cl_id boolean_state_cluster \<and> is_KContact (kind s)
            then Inr (ClusterAttr (functional_dataver s) (boolean_state_read s a))
          else if cl = cl_id occupancy_cluster \<and> is_KMotion (kind s)
            then Inr (ClusterAttr (functional_dataver s) (occupancy_read s a))
          else if cl = cl_id window_covering_cluster \<and> is_KCover (kind s)
            then Inr (ClusterAttr (functional_dataver s) (window_covering_read known_flags s a))
          else Inl ClusterNotFound)"

section \<open>Writing\<close>

text \<open>\<open>other\<close> is the library's answer to a write of an attribute without a setter.\<close>

definition apply_mode_write :: "u8 \<Rightarrow> error_code + unit" where
  "apply_mode_write bits = accept_mode_write bits"

definition plane_write ::
  "(attr_id \<Rightarrow> error_code + unit) \<Rightarrow> u16 \<Rightarrow> cluster_id \<Rightarrow> attr_id \<Rightarrow> u8 \<Rightarrow> export_plane \<Rightarrow> error_code + unit" where
  "plane_write other ep cl a bits p =
     (case slot_at (pl_state p) ep of
        None \<Rightarrow> Inl EndpointNotFound
      | Some s \<Rightarrow>
          if cl = cl_id window_covering_cluster \<and> is_KCover (kind s)
          then (if a = AMode then apply_mode_write bits else other a)
          else Inl AttributeNotFound)"

section \<open>Commands\<close>

text \<open>The outcome of a command: its result, the attributes it notifies as changed, the plane after it.\<close>

type_synonym invoke_result = "(error_code + unit) \<times> attr_id list \<times> export_plane"

definition on_off_set :: "export_slot \<Rightarrow> bool \<Rightarrow> export_plane \<Rightarrow> invoke_result" where
  "on_off_set s on p =
     (case apply_controller_on_off (matter_endpoint s) on p of
        (False, p') \<Rightarrow> (Inl EndpointNotFound, [], p')
      | (True, p') \<Rightarrow> (Inr (), [AOnOff], p'))"

definition on_off_invoke :: "export_slot \<Rightarrow> command_id \<Rightarrow> export_plane \<Rightarrow> invoke_result" where
  "on_off_invoke s c p =
     (case c of
        MOff \<Rightarrow> on_off_set s False p
      | MOn \<Rightarrow> on_off_set s True p
      | MToggle \<Rightarrow> on_off_set s (\<not> slot_on s) p
      | _ \<Rightarrow> (Inl CommandNotFound, [], p))"

definition apply_motion_command :: "export_slot \<Rightarrow> command_kind \<Rightarrow> export_plane \<Rightarrow> (error_code + unit) \<times> export_plane" where
  "apply_motion_command s ck p =
     (case apply_controller_cover (matter_endpoint s) ck None p of
        (False, p') \<Rightarrow> (Inl EndpointNotFound, p')
      | (True, p') \<Rightarrow> (Inr (), p'))"

definition apply_go_to_lift_percentage :: "export_slot \<Rightarrow> u16 \<Rightarrow> export_plane \<Rightarrow> (error_code + unit) \<times> export_plane" where
  "apply_go_to_lift_percentage s percent100ths p =
     (case validate_lift_percent100ths percent100ths of
        Inl e \<Rightarrow> (Inl e, p)
      | Inr percent \<Rightarrow>
          (case apply_controller_cover (matter_endpoint s) CoverPosition (Some (percent100ths_to_ha_position percent)) p of
             (False, p') \<Rightarrow> (Inl EndpointNotFound, p')
           | (True, p') \<Rightarrow> (Inr (), p')))"

definition notify_position_attrs :: "(error_code + unit) \<times> export_plane \<Rightarrow> invoke_result" where
  "notify_position_attrs r =
     (case r of
        (Inl e, p) \<Rightarrow> (Inl e, [], p)
      | (Inr _, p) \<Rightarrow>
          (Inr (), [ACurrentPositionLiftPercent100ths, ATargetPositionLiftPercent100ths, AOperationalStatus], p))"

text \<open>\<open>arg\<close> is the decoded argument of GoToLiftPercentage, or the library's decoding error.\<close>

definition window_covering_invoke :: "export_slot \<Rightarrow> command_id \<Rightarrow> error_code + u16 \<Rightarrow> export_plane \<Rightarrow> invoke_result" where
  "window_covering_invoke s c arg p =
     (case c of
        MUpOrOpen \<Rightarrow> notify_position_attrs (apply_motion_command s CoverOpen p)
      | MDownOrClose \<Rightarrow> notify_position_attrs (apply_motion_command s CoverClose p)
      | MStopMotion \<Rightarrow> notify_position_attrs (apply_motion_command s CoverStop p)
      | MGoToLiftPercentage \<Rightarrow>
          (case arg of
             Inl e \<Rightarrow> (Inl e, [], p)
           | Inr percent \<Rightarrow> notify_position_attrs (apply_go_to_lift_percentage s percent p))
      | _ \<Rightarrow> (Inl CommandNotFound, [], p))"

definition plane_invoke :: "u16 \<Rightarrow> cluster_id \<Rightarrow> command_id \<Rightarrow> error_code + u16 \<Rightarrow> export_plane \<Rightarrow> invoke_result" where
  "plane_invoke ep cl c arg p =
     (case slot_at (pl_state p) ep of
        None \<Rightarrow> (Inl EndpointNotFound, [], p)
      | Some s \<Rightarrow>
          if cl = cl_id on_off_cluster \<and> is_KOnOff (kind s) then on_off_invoke s c p
          else if cl = cl_id window_covering_cluster \<and> is_KCover (kind s) then window_covering_invoke s c arg p
          else (Inl CommandNotFound, [], p))"

text \<open>The matcher that routes an operation to the plane: everything but the root endpoint.\<close>

definition bridged_endpoint_matches :: "u16 option \<Rightarrow> bool" where
  "bridged_endpoint_matches ep \<longleftrightarrow> (case ep of None \<Rightarrow> True | Some e \<Rightarrow> e \<ge> AGGREGATOR_ENDPOINT_ID)"

end
