(* ===== verification/Plane_Properties.thy ===== *)
theory Plane_Properties
  imports Plane_Invariant
begin

text \<open>
  The properties of the export plane: what a rebuild exposes, the invariant of the node over every
  sequence of operations, and the effect of each operation on values, commands and reports.
\<close>

section \<open>Reachable planes\<close>

datatype plane_op =
    PSetExports "u16 \<Rightarrow> u32 \<times> u32 \<times> u32" "export list"
  | PApplyState uuid "ha_state_value list"
  | POnOff u16 bool
  | PCover u16 command_kind "u8 option"
  | PTakeCommands
  | PDrainReports
  | PBumpDataver "u16 option" "cluster_id option"

fun plane_op_ok :: "plane_op \<Rightarrow> bool" where
  "plane_op_ok (PSetExports rnd exports) = distinct (map export_id exports)"
| "plane_op_ok _ = True"

fun plane_step :: "plane_op \<Rightarrow> export_plane \<Rightarrow> export_plane" where
  "plane_step (PSetExports rnd exports) p = set_exports rnd exports p"
| "plane_step (PApplyState i states) p = snd (apply_state i states p)"
| "plane_step (POnOff ep on) p = snd (apply_controller_on_off ep on p)"
| "plane_step (PCover ep ck x) p = snd (apply_controller_cover ep ck x p)"
| "plane_step PTakeCommands p = snd (take_commands p)"
| "plane_step PDrainReports p = snd (drain_reports p)"
| "plane_step (PBumpDataver ep cl) p = bump_dataver ep cl p"

lemma plane_step_inv:
  "state_inv (pl_state p) \<Longrightarrow> plane_op_ok x \<Longrightarrow> state_inv (pl_state (plane_step x p))"
  by (cases x) (simp_all add: set_exports_inv apply_state_inv apply_controller_on_off_inv apply_controller_cover_inv
      drain_reports_inv bump_dataver_inv take_commands_def)

lemma plane_run_inv:
  "state_inv (pl_state p) \<Longrightarrow> list_all plane_op_ok ops \<Longrightarrow> state_inv (pl_state (fold plane_step ops p))"
  by (induction ops arbitrary: p) (simp_all add: plane_step_inv)

definition demo_blind :: export where
  "demo_blind = \<lparr>export_id = 2, ex_name = ''Blind'', ex_type = Cover, primary_entity_id = ''cover.b'', linked = [],
     area_id = None, enabled = True, endpoint_id = Some 9\<rparr>"

definition demo_lamp :: export where
  "demo_lamp = \<lparr>export_id = 1, ex_name = ''Lamp'', ex_type = Light, primary_entity_id = ''light.a'', linked = [],
     area_id = None, enabled = True, endpoint_id = Some 4\<rparr>"

definition demo_off :: export where
  "demo_off = \<lparr>export_id = 3, ex_name = ''Off'', ex_type = Light, primary_entity_id = ''light.c'', linked = [],
     area_id = None, enabled = False, endpoint_id = Some 5\<rparr>"

lemma demo_export_fields [simp]:
  "export_id demo_blind = 2" "enabled demo_blind" "endpoint_id demo_blind = Some 9" "ex_type demo_blind = Cover"
  "primary_entity_id demo_blind = ''cover.b''"
  "export_id demo_lamp = 1" "enabled demo_lamp" "endpoint_id demo_lamp = Some 4" "ex_type demo_lamp = Light"
  "primary_entity_id demo_lamp = ''light.a''"
  "export_id demo_off = 3" "\<not> enabled demo_off" "endpoint_id demo_off = Some 5"
  by (simp_all add: demo_blind_def demo_lamp_def demo_off_def)

definition demo_exports :: "export list" where
  "demo_exports = [demo_blind, demo_lamp, demo_off]"

definition demo_rnd :: "u16 \<Rightarrow> u32 \<times> u32 \<times> u32" where
  "demo_rnd ep = (ucast ep, 100, 200)"

definition demo_plane :: export_plane where
  "demo_plane = set_exports demo_rnd demo_exports (plane_new 5)"

lemma demo_exports_distinct: "distinct (map export_id demo_exports)"
  by (simp add: demo_exports_def)

lemma demo_plane_slots:
  "slots (pl_state demo_plane) = [rebuild (demo_rnd 5) demo_lamp 5 None, rebuild (demo_rnd 10) demo_blind 10 None]"
proof -
  have "bridged_exports demo_exports = [demo_lamp, demo_blind]"
    by (simp add: bridged_exports_def demo_exports_def sort_key_of_def)
  moreover have "choose_bridged [demo_lamp, demo_blind] {} = [demo_lamp, demo_blind]"
    by (simp add: matter_endpoint_of_def checked_add_def AGGREGATOR_ENDPOINT_ID_def word_le_nat_alt)
  ultimately show ?thesis
    by (simp add: demo_plane_def set_exports_state plane_state_new_def plane_new_def slot_of_def
        matter_endpoint_of_def checked_add_def slot_for_def)
qed

lemma demo_plane_inv: "state_inv (pl_state demo_plane)"
  unfolding demo_plane_def by (rule set_exports_inv [OF plane_new_inv demo_exports_distinct])

text \<open>C2: After any sequence of plane operations the node is well formed: root and aggregator first, endpoint numbers
  strictly ascending, one endpoint per slot; every slot belongs to an enabled, known export, sits at its
  catalog endpoint id plus one, holds a state that fits its type, and no export has two slots.\<close>

theorem plane_always_well_formed:
  assumes "list_all plane_op_ok ops"
  shows "let st = pl_state (fold plane_step ops (plane_new rnd))
    in sorted_wrt (<) (map endpoint_number (endpoints st)) \<and>
       map endpoint_number (endpoints st) = 0 # 1 # map matter_endpoint (slots st) \<and>
       distinct (map sl_export_id (slots st)) \<and>
       list_all (\<lambda>s. enabled (sl_export s) \<and> sl_export_id s = export_id (sl_export s) \<and> sl_export_id s \<in> known st \<and>
         kind_fits (ex_type (sl_export s)) (kind s) \<and>
         (\<exists>i. endpoint_id (sl_export s) = Some i \<and> unat (matter_endpoint s) = unat i + 1)) (slots st)"
proof -
  define st where "st = pl_state (fold plane_step ops (plane_new rnd))"
  have inv: "state_inv st" unfolding st_def by (rule plane_run_inv [OF plane_new_inv assms])
  then have e: "map endpoint_number (endpoints st) = 0 # 1 # map matter_endpoint (slots st)"
    by (simp add: state_inv_def endpoint_number_def aggregator_endpoint_def AGGREGATOR_ENDPOINT_ID_def
        slot_endpoint_def comp_def)
  have "\<forall>s \<in> set (slots st). 0 < matter_endpoint s \<and> 1 < matter_endpoint s"
    using inv by (auto simp: state_inv_def list_all_iff slot_placed_def word_less_nat_alt)
  then have "sorted_wrt (<) (map endpoint_number (endpoints st))"
    unfolding e using inv by (auto simp: state_inv_def)
  with inv e show ?thesis
    by (auto simp: st_def [symmetric] Let_def state_inv_def list_all_iff slot_placed_def slot_ok_def matter_endpoint_of_Some)
qed

theorem plane_always_well_formed_witness:
  "sorted_wrt (<) (map endpoint_number (endpoints (pl_state
     (fold plane_step [PSetExports demo_rnd demo_exports, POnOff 5 True, PDrainReports] (plane_new 5)))))"
proof -
  have "list_all plane_op_ok [PSetExports demo_rnd demo_exports, POnOff 5 True, PDrainReports]"
    using demo_exports_distinct by simp
  from plane_always_well_formed [OF this, of 5] show ?thesis unfolding Let_def by (rule conjunct1)
qed

section \<open>Rebuilding\<close>

text \<open>C21: A rebuild gives a slot to exactly the enabled exports whose endpoint id plus one is above the aggregator and
  fits in 16 bits, and among enabled exports with the same endpoint id to the one with the smallest id;
  slots come in ascending endpoint order, each rebuilt from its export and from the slot its export had.\<close>

theorem set_exports_slots:
  assumes "distinct (map export_id exports)"
  shows "\<exists>chosen. slots (pl_state (set_exports rnd exports p)) =
      map (\<lambda>e. rebuild (rnd (the (matter_endpoint_of e))) e (the (matter_endpoint_of e))
                 (slot_for (pl_state p) (export_id e))) chosen \<and>
    sorted_wrt (<) (map (the \<circ> matter_endpoint_of) chosen) \<and>
    (\<forall>e. e \<in> set chosen \<longleftrightarrow> e \<in> set exports \<and> enabled e \<and>
       (\<exists>i. endpoint_id e = Some i \<and> 0 < unat i \<and> unat i < 65535 \<and>
          (\<forall>e' \<in> set exports. enabled e' \<longrightarrow> endpoint_id e' = Some i \<longrightarrow> export_id e \<le> export_id e')))"
proof -
  let ?b = "bridged_exports exports"
  have it: "e \<in> set (choose_bridged ?b {}) \<longleftrightarrow> e \<in> set exports \<and> enabled e \<and>
      (\<exists>i. endpoint_id e = Some i \<and> 0 < unat i \<and> unat i < 65535 \<and>
        (\<forall>e' \<in> set exports. enabled e' \<longrightarrow> endpoint_id e' = Some i \<longrightarrow> export_id e \<le> export_id e'))" for e
  proof (cases "endpoint_id e")
    case None
    then have "matter_endpoint_of e = None" by (simp add: matter_endpoint_of_def)
    then show ?thesis using None pick_endpoint [of e ?b "{}"] by auto
  next
    case (Some i)
    have same: "matter_endpoint_of e' = Some ep \<longleftrightarrow> endpoint_id e' = Some i" if "matter_endpoint_of e = Some ep" for e' ep
      using that Some by (auto simp: matter_endpoint_of_Some word_unat_eq_iff)
    have gt: "1 < ep \<longleftrightarrow> 0 < unat i" if "matter_endpoint_of e = Some ep" for ep
      using that Some by (auto simp: matter_endpoint_of_Some word_less_nat_alt)
    have ex: "(\<exists>ep. matter_endpoint_of e = Some ep) \<longleftrightarrow> unat i < 65535"
      using Some unat_of_nat_u16 [of "unat i + 1"] by (auto simp: matter_endpoint_of_Some)
    show ?thesis
      unfolding pick_iff [OF bridged_exports_facts(1) bridged_exports_facts(3) [OF assms]] bridged_exports_facts(2)
      using Some same gt ex by auto
  qed
  have s: "slots (pl_state (set_exports rnd exports p)) = map (slot_of rnd (pl_state p)) (choose_bridged ?b {})"
    by (simp add: set_exports_state plane_state_new_def)
  show ?thesis
    using it s pick_ascending [OF bridged_exports_facts(1), of exports "{}"]
    by (intro exI [of _ "choose_bridged ?b {}"]) (simp add: slot_of_def [abs_def] Let_def)
qed

theorem set_exports_slots_witness:
  "\<exists>chosen. slots (pl_state demo_plane) =
      map (\<lambda>e. rebuild (demo_rnd (the (matter_endpoint_of e))) e (the (matter_endpoint_of e)) None) chosen \<and>
    set chosen = {demo_blind, demo_lamp}"
proof -
  have none: "slot_for (pl_state (plane_new 5)) i = None" for i
    by (simp add: slot_for_def plane_new_def plane_state_new_def)
  obtain chosen where c: "slots (pl_state demo_plane) =
      map (\<lambda>e. rebuild (demo_rnd (the (matter_endpoint_of e))) e (the (matter_endpoint_of e)) None) chosen"
    and iff: "\<forall>e. e \<in> set chosen \<longleftrightarrow> e \<in> set demo_exports \<and> enabled e \<and>
       (\<exists>i. endpoint_id e = Some i \<and> 0 < unat i \<and> unat i < 65535 \<and>
          (\<forall>e' \<in> set demo_exports. enabled e' \<longrightarrow> endpoint_id e' = Some i \<longrightarrow> export_id e \<le> export_id e'))"
    using set_exports_slots [OF demo_exports_distinct, of demo_rnd "plane_new 5", unfolded none, folded demo_plane_def]
    by (elim exE conjE) (rule that)
  have "set chosen = {demo_blind, demo_lamp}"
    by (rule set_eqI, subst iff [rule_format]) (auto simp: demo_exports_def)
  with c show ?thesis by blast
qed

text \<open>A rebuild requests a bump of the configuration version (and bumps the aggregator's descriptor version)
  exactly when the list of endpoint, export and device type of the slots changed; it wakes the stack
  exactly then or when reports are owed, and touches no queued command and no pairing state.\<close>

lemma set_exports_requests_bump:
  "let p' = set_exports rnd exports p;
       changed = (map surface (slots (pl_state p')) \<noteq> map surface (slots (pl_state p)))
   in config_requested p' = config_requested p + (if changed then 1 else 0) \<and>
      aggregator_dataver p' = aggregator_dataver p + (if changed then 1 else 0) \<and>
      wake p' = (wake p \<or> changed \<or> list_ex (\<lambda>s. pending_reports s \<noteq> 0) (slots (pl_state p'))) \<and>
      commands p' = commands p \<and> config_applied p' = config_applied p \<and>
      window_deadline p' = window_deadline p \<and> fabric_count p' = fabric_count p \<and>
      window_request p' = window_request p"
  unfolding Let_def set_exports_state
  by (auto simp: set_exports_def Let_def surfaces_differ_iff slot_loop_pick plane_state_new_def list_ex_iff)

section \<open>The effect of states and commands on a concrete plane\<close>

text \<open>The general statements are \<open>slot_at_find\<close>, \<open>apply_state_spec\<close>, \<open>apply_controller_on_off_spec\<close> and
  \<open>apply_controller_cover_spec\<close>; here they are read off a plane with a lamp and a blind.\<close>

lemma demo_plane_slot_at: "slot_at (pl_state demo_plane) 5 = Some (rebuild (demo_rnd 5) demo_lamp 5 None)"
  "slot_at (pl_state demo_plane) 10 = Some (rebuild (demo_rnd 10) demo_blind 10 None)"
  unfolding slot_at_find(1) [OF demo_plane_inv] by (simp_all add: demo_plane_slots rebuild_fields)

lemma demo_plane_commands: "commands demo_plane = []"
  by (simp add: demo_plane_def set_exports_def Let_def plane_new_def)

lemma demo_apply_state:
  "\<exists>s'. slot_for (pl_state (snd (apply_state 1
       [\<lparr>entity_id = ''light.a'', ha_state = ''on'', attributes = []\<rparr>] demo_plane))) 1 = Some s' \<and>
     kind s' = KOnOff True \<and> functional_dataver s' = 201"
proof -
  let ?states = "[\<lparr>entity_id = ''light.a'', ha_state = ''on'', attributes = []\<rparr>]"
  let ?s = "rebuild (demo_rnd 5) demo_lamp 5 None"
  have s: "slot_for (pl_state demo_plane) 1 = Some ?s"
    by (simp add: slot_for_def demo_plane_slots rebuild_fields)
  have k: "kind ?s = KOnOff False" by (simp add: rebuild_fields rebuild_kind_def)
  have "ha_state_is_on ''on'' = Some True" by code_simp
  then have v: "on_off_from_states (sl_export ?s) ?states = Some True"
    by (simp add: rebuild_fields on_off_from_states_def primary_state_def is_on_off_capable_def)
  have d: "functional_dataver ?s = 200" by (simp add: rebuild_fields demo_rnd_def)
  obtain a p' where "apply_state 1 ?states demo_plane = (a, p')" by fastforce
  with apply_state_spec [OF demo_plane_inv this] s k v d show ?thesis by auto
qed

lemma demo_controller_on_off:
  "commands (snd (apply_controller_on_off 5 True demo_plane)) = [on_off_command 1 True] \<and>
   apply_controller_on_off 10 True demo_plane = (False, demo_plane)"
proof -
  obtain a p' b q' where "apply_controller_on_off 5 True demo_plane = (a, p')"
    "apply_controller_on_off 10 True demo_plane = (b, q')" by fastforce
  with apply_controller_on_off_spec [OF demo_plane_inv this(1)] apply_controller_on_off_spec [OF demo_plane_inv this(2)]
  show ?thesis by (auto simp: demo_plane_slot_at demo_plane_commands rebuild_fields rebuild_kind_def)
qed

lemma demo_controller_cover:
  "map cmd_position (commands (snd (apply_controller_cover 10 CoverPosition (Some 130) demo_plane))) = [Some 100]"
proof -
  obtain a p' where p': "apply_controller_cover 10 CoverPosition (Some 130) demo_plane = (a, p')" by fastforce
  have "kind (rebuild (demo_rnd 10) demo_blind 10 None) = KCover 100 100 False" by (simp add: rebuild_fields rebuild_kind_def)
  with apply_controller_cover_spec [OF demo_plane_inv p'] p' show ?thesis
    by (simp add: demo_plane_slot_at demo_plane_commands Let_def)
qed

section \<open>Reports to subscribers\<close>

text \<open>C31: A change that is owed to subscribers is not lost by a rebuild: if the export still has a slot, its functional
  report is among the next drained ones, at the slot's new endpoint and for its new kind, and the stack is
  awake to drain it; a second drain right after reports nothing again.\<close>

theorem reports_survive_rebuild:
  assumes "slot_for (pl_state p) i = Some s"
    and "slot_for (pl_state (set_exports rnd exports p)) i = Some s'"
    and "pending_reports s AND REPORT_FUNCTIONAL \<noteq> 0"
  shows "set (functional_reports s') \<subseteq> set (fst (drain_reports (set_exports rnd exports p))) \<and>
    wake (set_exports rnd exports p) \<and>
    fst (drain_reports (snd (drain_reports (set_exports rnd exports p)))) = []"
proof -
  let ?p' = "set_exports rnd exports p"
  have s': "s' \<in> set (slots (pl_state ?p'))" "sl_export_id s' = i" using slot_for_Some [OF assms(2)] by auto
  then obtain e where e: "s' = slot_of rnd (pl_state p) e"
    by (auto simp: set_exports_state plane_state_new_def)
  then have "export_id e = i" using s'(2) by (simp add: slot_of_def Let_def rebuild_fields)
  then have "pending_reports s AND pending_reports s' = pending_reports s"
    using assms(1) by (simp add: e slot_of_def Let_def rebuild_keeps(2))
  then have "pending_reports s AND REPORT_FUNCTIONAL = pending_reports s AND (pending_reports s' AND REPORT_FUNCTIONAL)"
    by (simp flip: and.assoc)
  then have f: "pending_reports s' AND REPORT_FUNCTIONAL \<noteq> 0"
    using assms(3) by auto
  then have "set (functional_reports s') \<subseteq> set (slot_reports s')" "pending_reports s' \<noteq> 0"
    by (auto simp: slot_reports_def Let_def)
  moreover have "wake ?p'"
  proof -
    have "list_ex (\<lambda>s. pending_reports s \<noteq> 0) (slots (pl_state ?p'))"
      using s'(1) \<open>pending_reports s' \<noteq> 0\<close> by (auto simp: list_ex_iff)
    then show ?thesis by (auto simp: set_exports_def Let_def slot_loop_pick plane_state_new_def)
  qed
  ultimately show ?thesis using s'(1) by (auto simp: drain_reports_def slot_reports_def)
qed

theorem reports_survive_rebuild_witness:
  "(5, COnOff, AOnOff) \<in> set (fst (drain_reports (set_exports demo_rnd demo_exports
     (put_slot 0 ((rebuild (demo_rnd 5) demo_lamp 5 None)\<lparr>pending_reports := 1\<rparr>) demo_plane))))"
proof -
  let ?s = "(rebuild (demo_rnd 5) demo_lamp 5 None)\<lparr>pending_reports := 1\<rparr>"
  let ?p = "put_slot 0 ?s demo_plane"
  let ?p' = "set_exports demo_rnd demo_exports ?p"
  have s: "slot_for (pl_state ?p) 1 = Some ?s"
    by (simp add: slot_for_def put_slot_def demo_plane_slots rebuild_fields)
  have "choose_bridged (bridged_exports demo_exports) {} = [demo_lamp, demo_blind]"
    by (simp add: bridged_exports_def demo_exports_def sort_key_of_def matter_endpoint_of_def checked_add_def
        AGGREGATOR_ENDPOINT_ID_def word_le_nat_alt)
  then have "slot_for (pl_state ?p') 1 = Some (slot_of demo_rnd (pl_state ?p) demo_lamp)"
    by (simp add: slot_for_def set_exports_state plane_state_new_def slot_of_def Let_def rebuild_fields)
  from reports_survive_rebuild [OF s this]
  have "set (functional_reports (slot_of demo_rnd (pl_state ?p) demo_lamp)) \<subseteq> set (fst (drain_reports ?p'))"
    by (simp add: REPORT_FUNCTIONAL_def)
  moreover have "functional_reports (slot_of demo_rnd (pl_state ?p) demo_lamp) = [(5, COnOff, AOnOff)]"
    by (simp add: functional_reports_def slot_of_def Let_def rebuild_fields rebuild_kind_def matter_endpoint_of_def
        checked_add_def on_off_cluster_def)
  ultimately show ?thesis by simp
qed

end
