(* ===== verification/Handler_Properties.thy ===== *)
theory Handler_Properties
  imports Plane_Handler Plane_Properties
begin

text \<open>
  The properties of the data-model handlers: the dispatch serves exactly what the node's metadata
  declares, a command either does nothing or does everything, and a controller reads what it wrote.
\<close>

lemma cluster_ids [simp]:
  "cl_id desc_cluster = CDesc" "cl_id bridged_info_cluster = CBridgedInfo" "cl_id on_off_cluster = COnOff"
  "cl_id boolean_state_cluster = CBooleanState" "cl_id occupancy_cluster = COccupancy"
  "cl_id window_covering_cluster = CWindowCovering"
  by (simp_all add: desc_cluster_def bridged_info_cluster_def on_off_cluster_def boolean_state_cluster_def
      occupancy_cluster_def window_covering_cluster_def)

lemma functional_cluster_cases:
  "functional_cluster_id s = COnOff \<longleftrightarrow> is_KOnOff (kind s)"
  "functional_cluster_id s = CBooleanState \<longleftrightarrow> is_KContact (kind s)"
  "functional_cluster_id s = COccupancy \<longleftrightarrow> is_KMotion (kind s)"
  "functional_cluster_id s = CWindowCovering \<longleftrightarrow> is_KCover (kind s)"
  by (cases "kind s"; simp add: functional_cluster_id_def functional_cluster_def)+

lemma on_off_set_cases:
  assumes "state_inv (pl_state p)" "slot_at (pl_state p) ep = Some s" "is_KOnOff (kind s)"
  obtains p' where "on_off_set s on p = (Inr (), [AOnOff], p')"
    "commands p' = commands p @ [on_off_command (sl_export_id s) on]"
    "slot_for (pl_state p') (sl_export_id s) =
       Some (s\<lparr>kind := KOnOff on, functional_dataver := functional_dataver s + (if slot_on s = on then 0 else 1)\<rparr>)"
    "state_inv (pl_state p')"
proof -
  obtain ok p' where r: "apply_controller_on_off ep on p = (ok, p')" by fastforce
  have ep: "matter_endpoint s = ep" using slot_at_find(2) [OF assms(1), of ep s] assms(2) by simp
  from apply_controller_on_off_spec [OF assms(1) r] assms(2,3)
  have "ok" "commands p' = commands p @ [on_off_command (sl_export_id s) on]"
    "slot_for (pl_state p') (sl_export_id s) =
       Some (s\<lparr>kind := KOnOff on, functional_dataver := functional_dataver s + (if slot_on s = on then 0 else 1)\<rparr>)"
    by (auto simp: slot_on_def is_KOnOff_def split: slot_kind.splits)
  moreover have "state_inv (pl_state p')" using apply_controller_on_off_inv [OF assms(1), of ep on] r by simp
  ultimately show ?thesis using that r ep by (simp add: on_off_set_def)
qed

lemma cover_command_cases:
  assumes "state_inv (pl_state p)" "slot_at (pl_state p) ep = Some s" "is_KCover (kind s)"
    and "ck \<in> {CoverOpen, CoverClose, CoverStop, CoverPosition}"
  obtains p' cmd goal where "apply_controller_cover ep ck x p = (True, p')"
    "commands p' = commands p @ [cmd]" "cmd_export_id cmd = sl_export_id s" "cmd_kind cmd = ck"
    "slot_for (pl_state p') (sl_export_id s) =
       Some (s\<lparr>kind := KCover (cover_position s) goal (ck \<noteq> CoverStop), functional_dataver := functional_dataver s + 1\<rparr>)"
    "\<And>y. ck = CoverPosition \<Longrightarrow> x = Some y \<Longrightarrow> goal = min y 100" "state_inv (pl_state p')"
proof -
  obtain ok p' where r: "apply_controller_cover ep ck x p = (ok, p')" by fastforce
  have "state_inv (pl_state p')" using apply_controller_cover_inv [OF assms(1), of ep ck x] r by simp
  with apply_controller_cover_spec [OF assms(1) r assms(4)] assms(2,3) show ?thesis
    by (auto simp: is_KCover_def cover_position_def Let_def r intro!: that)
qed

section \<open>Dispatch\<close>

definition endpoint_clusters :: "node_endpoint \<Rightarrow> cluster_id set" where
  "endpoint_clusters e = (case e of RootEndpoint \<Rightarrow> {} | Endpoint _ _ cs \<Rightarrow> cl_id ` set cs)"

text \<open>C32: The plane answers a read exactly for the endpoints and clusters its node metadata declares (the root
  endpoint, which the stack serves itself, apart); every other read is refused.\<close>

theorem plane_read_serves_metadata:
  assumes "state_inv (pl_state p)"
  shows "(\<exists>r. plane_read known_flags ep cl a p = Inr r) \<longleftrightarrow>
    (\<exists>e \<in> set (endpoints (pl_state p)). endpoint_number e = ep \<and> cl \<in> endpoint_clusters e)"
proof -
  let ?st = "pl_state p"
  have eps: "set (endpoints ?st) = insert RootEndpoint (insert aggregator_endpoint (slot_endpoint ` set (slots ?st)))"
    using assms by (simp add: state_inv_def)
  have gt: "1 < matter_endpoint s" if "s \<in> set (slots ?st)" for s
    using assms that by (auto simp: state_inv_def list_all_iff slot_placed_def)
  have slot_clusters: "endpoint_clusters (slot_endpoint s) = {CDesc, CBridgedInfo, functional_cluster_id s}" for s
    by (auto simp: endpoint_clusters_def slot_endpoint_def clusters_def functional_cluster_id_def)
  have meta: "(\<exists>e \<in> set (endpoints ?st). endpoint_number e = ep \<and> cl \<in> endpoint_clusters e) \<longleftrightarrow>
    (ep = 1 \<and> cl = CDesc) \<or>
    (\<exists>s. slot_at ?st ep = Some s \<and> cl \<in> {CDesc, CBridgedInfo, functional_cluster_id s})"
    unfolding eps slot_at_find(2) [OF assms]
    by (auto simp: slot_clusters)
      (auto simp: endpoint_number_def aggregator_endpoint_def endpoint_clusters_def AGGREGATOR_ENDPOINT_ID_def
        slot_endpoint_def split: node_endpoint.splits)
  show ?thesis
  proof (cases "ep = 1")
    case True
    have "slot_at ?st 1 = None"
      using gt slot_at_find(2) [OF assms, of 1] by (cases "slot_at ?st 1") fastforce+
    with True show ?thesis unfolding meta by (simp add: plane_read_def AGGREGATOR_ENDPOINT_ID_def)
  next
    case False
    show ?thesis
    proof (cases "slot_at ?st ep")
      case None
      with False show ?thesis unfolding meta by (simp add: plane_read_def AGGREGATOR_ENDPOINT_ID_def)
    next
      case (Some s)
      with False show ?thesis
        unfolding meta by (cases "kind s")
          (auto simp: plane_read_def AGGREGATOR_ENDPOINT_ID_def functional_cluster_id_def functional_cluster_def)
    qed
  qed
qed

theorem plane_read_serves_metadata_witness:
  "\<exists>r. plane_read 63 10 CWindowCovering AMode demo_plane = Inr r"
proof -
  have "slot_endpoint (rebuild (demo_rnd 10) demo_blind 10 None) \<in> set (endpoints (pl_state demo_plane))"
    using demo_plane_inv by (simp add: state_inv_def demo_plane_slots)
  moreover have "CWindowCovering \<in> endpoint_clusters (slot_endpoint (rebuild (demo_rnd 10) demo_blind 10 None))"
    by (simp add: endpoint_clusters_def slot_endpoint_def clusters_def functional_cluster_def rebuild_fields rebuild_kind_def)
  moreover have "endpoint_number (slot_endpoint (rebuild (demo_rnd 10) demo_blind 10 None)) = 10"
    by (simp add: endpoint_number_def slot_endpoint_def rebuild_fields)
  ultimately show ?thesis using plane_read_serves_metadata [OF demo_plane_inv, of 63 10 CWindowCovering AMode] by blast
qed

section \<open>Commands\<close>

text \<open>A command that is accepted queues one command of the slot and notifies; one that is not does nothing.\<close>

definition invoke_outcome :: "export_slot \<Rightarrow> export_plane \<Rightarrow> bool \<Rightarrow> invoke_result \<Rightarrow> bool" where
  "invoke_outcome s p accepted res \<longleftrightarrow>
     (case res of (r, notes, p') \<Rightarrow>
        if accepted
        then r = Inr () \<and> notes \<noteq> [] \<and> (\<exists>cmd. commands p' = commands p @ [cmd] \<and> cmd_export_id cmd = sl_export_id s)
        else r \<noteq> Inr () \<and> notes = [] \<and> p' = p)"

definition accepts :: "export_slot \<Rightarrow> command_id \<Rightarrow> error_code + u16 \<Rightarrow> bool" where
  "accepts s c arg \<longleftrightarrow> c \<in> set (cl_cmds (functional_cluster s)) \<and>
     (c = MGoToLiftPercentage \<longrightarrow> (\<exists>x. arg = Inr x \<and> x \<le> 10000))"

lemma on_off_invoke_outcome:
  assumes "state_inv (pl_state p)" "slot_at (pl_state p) ep = Some s" "is_KOnOff (kind s)"
  shows "invoke_outcome s p (accepts s c arg) (on_off_invoke s c p)"
proof -
  have f: "functional_cluster s = on_off_cluster" using assms(3) by (auto simp: functional_cluster_def is_KOnOff_def)
  have set_ok: "invoke_outcome s p True (on_off_set s on p)" for on
  proof -
    obtain q where "on_off_set s on p = (Inr (), [AOnOff], q)"
      "commands q = commands p @ [on_off_command (sl_export_id s) on]" by (rule on_off_set_cases [OF assms])
    then show ?thesis by (simp add: invoke_outcome_def on_off_command_def)
  qed
  show ?thesis
  proof (cases "c \<in> {MOff, MOn, MToggle}")
    case True
    then show ?thesis using set_ok f by (auto simp: on_off_invoke_def accepts_def on_off_cluster_def)
  next
    case False
    then have "on_off_invoke s c p = (Inl CommandNotFound, [], p)" by (cases c) (simp_all add: on_off_invoke_def)
    with False f show ?thesis by (auto simp: invoke_outcome_def accepts_def on_off_cluster_def)
  qed
qed

lemma window_covering_invoke_outcome:
  assumes "state_inv (pl_state p)" "slot_at (pl_state p) ep = Some s" "is_KCover (kind s)"
  shows "invoke_outcome s p (accepts s c arg) (window_covering_invoke s c arg p)"
proof -
  have ep: "matter_endpoint s = ep" using slot_at_find(2) [OF assms(1), of ep s] assms(2) by simp
  have f: "cl_cmds (functional_cluster s) = [MUpOrOpen, MDownOrClose, MStopMotion, MGoToLiftPercentage]"
    using assms(3) by (auto simp: functional_cluster_def window_covering_cluster_def is_KCover_def)
  have notify: "invoke_outcome s p True (notify_position_attrs (Inr (), q))"
    if "commands q = commands p @ [cmd]" "cmd_export_id cmd = sl_export_id s" for q cmd
    using that by (simp add: invoke_outcome_def notify_position_attrs_def)
  have motion: "invoke_outcome s p True (notify_position_attrs (apply_motion_command s ck p))"
    if "ck \<in> {CoverOpen, CoverClose, CoverStop}" for ck
  proof -
    have "ck \<in> {CoverOpen, CoverClose, CoverStop, CoverPosition}" using that by blast
    then obtain q cmd where "apply_controller_cover ep ck None p = (True, q)"
      "commands q = commands p @ [cmd]" "cmd_export_id cmd = sl_export_id s"
      by (rule cover_command_cases [OF assms, of ck None])
    then show ?thesis by (simp add: apply_motion_command_def ep notify)
  qed
  have goto: "invoke_outcome s p (x \<le> 10000) (notify_position_attrs (apply_go_to_lift_percentage s x p))" for x
  proof (cases "x \<le> 10000")
    case True
    obtain q cmd where "apply_controller_cover ep CoverPosition (Some (percent100ths_to_ha_position x)) p = (True, q)"
      "commands q = commands p @ [cmd]" "cmd_export_id cmd = sl_export_id s"
      by (rule cover_command_cases [OF assms, of CoverPosition "Some (percent100ths_to_ha_position x)"]) simp_all
    with True leD [OF True] show ?thesis
      by (simp add: apply_go_to_lift_percentage_def validate_lift_percent100ths_def ep notify)
  next
    case False
    then show ?thesis
      by (simp add: apply_go_to_lift_percentage_def validate_lift_percent100ths_def notify_position_attrs_def
          invoke_outcome_def not_le)
  qed
  show ?thesis
    using motion goto
    by (cases c; cases arg)
      (auto simp: window_covering_invoke_def accepts_def f invoke_outcome_def [of _ _ False])
qed

text \<open>C23: A controller command succeeds exactly when the endpoint has a slot whose functional cluster is the addressed
  one and lists the command, and a go-to-lift position is decoded and at most 10000; then exactly one
  command for that slot's export is queued and at least one attribute change is notified. A command that
  does not succeed leaves the plane as it was and notifies nothing.\<close>

theorem plane_invoke_all_or_nothing:
  assumes "state_inv (pl_state p)" and "plane_invoke ep cl c arg p = (r, notes, p')"
  shows "(r = Inr () \<longleftrightarrow> (\<exists>s. slot_at (pl_state p) ep = Some s \<and> cl = functional_cluster_id s \<and>
        c \<in> set (cl_cmds (functional_cluster s)) \<and>
        (c = MGoToLiftPercentage \<longrightarrow> (\<exists>x. arg = Inr x \<and> x \<le> 10000)))) \<and>
    (if r = Inr ()
     then notes \<noteq> [] \<and> (\<exists>s cmd. slot_at (pl_state p) ep = Some s \<and> commands p' = commands p @ [cmd] \<and>
            cmd_export_id cmd = sl_export_id s)
     else notes = [] \<and> p' = p)"
proof (cases "slot_at (pl_state p) ep")
  case None
  with assms(2) show ?thesis by (auto simp: plane_invoke_def)
next
  case (Some s)
  have "invoke_outcome s p (cl = functional_cluster_id s \<and> accepts s c arg) (plane_invoke ep cl c arg p)"
    using on_off_invoke_outcome [OF assms(1) Some, of c arg] window_covering_invoke_outcome [OF assms(1) Some, of c arg] Some
    by (cases "kind s")
      (auto simp: plane_invoke_def functional_cluster_id_def functional_cluster_def accepts_def invoke_outcome_def
        boolean_state_cluster_def occupancy_cluster_def)
  with assms(2) Some show ?thesis by (auto simp: invoke_outcome_def accepts_def split: if_splits)
qed

theorem plane_invoke_all_or_nothing_witness:
  "\<exists>notes p'. plane_invoke 5 COnOff MToggle (Inl ConstraintError) demo_plane = (Inr (), notes, p') \<and> notes \<noteq> []"
proof -
  obtain r ns p' where r: "plane_invoke 5 COnOff MToggle (Inl ConstraintError) demo_plane = (r, ns, p')"
    using prod_cases3 by blast
  have "functional_cluster (rebuild (demo_rnd 5) demo_lamp 5 None) = on_off_cluster"
    by (simp add: functional_cluster_def rebuild_fields rebuild_kind_def)
  with plane_invoke_all_or_nothing [OF demo_plane_inv r] r show ?thesis
    by (auto simp: demo_plane_slot_at functional_cluster_id_def on_off_cluster_def split: if_splits)
qed

text \<open>A slot is found at its endpoint after an update in place.\<close>

lemma updated_slot_at:
  assumes "state_inv (pl_state p)" and "slot_at (pl_state p) ep = Some s" and "state_inv (pl_state q)"
    and "slot_for (pl_state q) (sl_export_id s) = Some s'" and "matter_endpoint s' = matter_endpoint s"
  shows "slot_at (pl_state q) ep = Some s'" and "ep \<noteq> 1"
proof -
  have s: "s \<in> set (slots (pl_state p))" "matter_endpoint s = ep" using slot_at_find(2) [OF assms(1), of ep s] assms(2) by auto
  then show "ep \<noteq> 1" using assms(1) by (auto simp: state_inv_def list_all_iff slot_placed_def)
  show "slot_at (pl_state q) ep = Some s'"
    using s(2) assms(4,5) slot_for_Some slot_at_find(2) [OF assms(3)] by metis
qed

lemma on_off_reads_back:
  assumes "state_inv (pl_state p)" and "slot_at (pl_state p) ep = Some s" and k: "is_KOnOff (kind s)"
    and c: "c \<in> {MOff, MOn, MToggle}"
  shows "\<exists>dv notes p'. plane_invoke ep COnOff c arg p = (Inr (), notes, p') \<and>
    plane_read known_flags ep COnOff AOnOff p' =
      Inr (ClusterAttr dv (Some (VBool (if c = MToggle then \<not> slot_on s else c = MOn))))"
proof -
  let ?on = "if c = MToggle then \<not> slot_on s else c = MOn"
  obtain q where q: "on_off_set s ?on p = (Inr (), [AOnOff], q)" "state_inv (pl_state q)"
    "slot_for (pl_state q) (sl_export_id s) = Some (s\<lparr>kind := KOnOff ?on,
       functional_dataver := functional_dataver s + (if slot_on s = ?on then 0 else 1)\<rparr>)"
    by (rule on_off_set_cases [OF assms(1,2) k])
  have "on_off_invoke s c p = on_off_set s ?on p" using c by (auto simp: on_off_invoke_def)
  with q updated_slot_at [OF assms(1,2) q(2,3)] k assms(2) show ?thesis
    by (simp add: plane_invoke_def plane_read_def AGGREGATOR_ENDPOINT_ID_def on_off_read_def slot_on_def)
qed

lemma rounded_up_position:
  assumes "x \<le> 10000"
  shows "unat x \<le> unat (ha_position_to_percent100ths (percent100ths_to_ha_position x)) \<and>
    unat (ha_position_to_percent100ths (percent100ths_to_ha_position x)) < unat x + 100 \<and>
    100 dvd unat (ha_position_to_percent100ths (percent100ths_to_ha_position x))"
proof -
  have "unat x \<le> 10000" using assms by (simp add: word_le_nat_alt)
  then have "unat x \<le> unat (ha_position_to_percent100ths (percent100ths_to_ha_position x)) \<and>
    unat (ha_position_to_percent100ths (percent100ths_to_ha_position x)) < unat x + 100"
    using percent_round_up [of "unat x"] mod_less_divisor [of 100 "10000 - unat x"]
    by (simp add: unat_percent unat_ha_position)
  moreover have "100 dvd unat (ha_position_to_percent100ths p)" for p by (simp add: unat_percent)
  ultimately show ?thesis by blast
qed

lemma go_to_lift_reads_back:
  assumes "state_inv (pl_state p)" and "slot_at (pl_state p) ep = Some s" and k: "is_KCover (kind s)" and x: "x \<le> 10000"
  shows "\<exists>dv notes p' t. plane_invoke ep CWindowCovering MGoToLiftPercentage (Inr x) p = (Inr (), notes, p') \<and>
    plane_read known_flags ep CWindowCovering ATargetPositionLiftPercent100ths p' =
      Inr (ClusterAttr dv (Some (VPercent t))) \<and> unat x \<le> unat t \<and> unat t < unat x + 100 \<and> 100 dvd unat t"
proof -
  let ?y = "percent100ths_to_ha_position x"
  obtain q cmd goal where q: "apply_controller_cover ep CoverPosition (Some ?y) p = (True, q)" "state_inv (pl_state q)"
    "slot_for (pl_state q) (sl_export_id s) = Some (s\<lparr>kind := KCover (cover_position s) goal True,
       functional_dataver := functional_dataver s + 1\<rparr>)" "goal = min ?y 100"
    by (rule cover_command_cases [OF assms(1,2) k, of CoverPosition "Some ?y"]) simp_all
  have "goal = ?y" using q(4) ha_position_range [of x] by (simp add: min_absorb1)
  moreover have "matter_endpoint s = ep" using slot_at_find(2) [OF assms(1), of ep s] assms(2) by auto
  moreover have "\<not> is_KOnOff (kind s)" using k by (auto simp: is_KCover_def)
  ultimately show ?thesis
    using q updated_slot_at [OF assms(1,2) q(2,3)] k assms(2) leD [OF x] rounded_up_position [OF x]
    by (simp add: plane_invoke_def window_covering_invoke_def apply_go_to_lift_percentage_def validate_lift_percent100ths_def
        notify_position_attrs_def plane_read_def AGGREGATOR_ENDPOINT_ID_def window_covering_read_def cover_target_def)
qed

text \<open>C30: A controller reads what it commanded: after On, Off or Toggle the OnOff attribute has the commanded value
  (for Toggle the opposite of the old one), and after a go-to-lift the target attribute is the requested
  position rounded up to a whole percent: the multiple of 100 (hundredths of a percent) that is not below it and
  less than 100 above it.\<close>

theorem read_after_command:
  assumes "state_inv (pl_state p)" and "slot_at (pl_state p) ep = Some s"
  shows "(is_KOnOff (kind s) \<longrightarrow> c \<in> {MOff, MOn, MToggle} \<longrightarrow>
      (\<exists>dv notes p'. plane_invoke ep COnOff c arg p = (Inr (), notes, p') \<and>
         plane_read known_flags ep COnOff AOnOff p' =
           Inr (ClusterAttr dv (Some (VBool (if c = MToggle then \<not> slot_on s else c = MOn)))))) \<and>
    (is_KCover (kind s) \<longrightarrow> x \<le> 10000 \<longrightarrow>
      (\<exists>dv notes p' t. plane_invoke ep CWindowCovering MGoToLiftPercentage (Inr x) p = (Inr (), notes, p') \<and>
         plane_read known_flags ep CWindowCovering ATargetPositionLiftPercent100ths p' =
           Inr (ClusterAttr dv (Some (VPercent t))) \<and> unat x \<le> unat t \<and> unat t < unat x + 100 \<and> 100 dvd unat t))"
  using on_off_reads_back [OF assms] go_to_lift_reads_back [OF assms] by blast

theorem read_after_command_witness:
  "(\<exists>dv ns p'. plane_invoke 5 COnOff MToggle (Inl ConstraintError) demo_plane = (Inr (), ns, p') \<and>
     plane_read 63 5 COnOff AOnOff p' = Inr (ClusterAttr dv (Some (VBool True)))) \<and>
   (\<exists>dv ns p'. plane_invoke 10 CWindowCovering MGoToLiftPercentage (Inr 4250) demo_plane = (Inr (), ns, p') \<and>
     plane_read 63 10 CWindowCovering ATargetPositionLiftPercent100ths p' = Inr (ClusterAttr dv (Some (VPercent 4300))))"
proof (intro conjI)
  have "kind (rebuild (demo_rnd 5) demo_lamp 5 None) = KOnOff False" by (simp add: rebuild_fields rebuild_kind_def)
  with read_after_command [OF demo_plane_inv demo_plane_slot_at(1), of MToggle "Inl ConstraintError" 63 0]
  show "\<exists>dv ns p'. plane_invoke 5 COnOff MToggle (Inl ConstraintError) demo_plane = (Inr (), ns, p') \<and>
     plane_read 63 5 COnOff AOnOff p' = Inr (ClusterAttr dv (Some (VBool True)))"
    by (simp add: slot_on_def)
next
  have "is_KCover (kind (rebuild (demo_rnd 10) demo_blind 10 None))"
    by (simp add: rebuild_fields rebuild_kind_def)
  moreover have "t = 4300" if "4250 \<le> unat t" "unat t < 4350" "100 dvd unat t" for t :: u16
  proof -
    from that(3) obtain k where "unat t = 100 * k" by (elim dvdE)
    with that have "unat t = 4300" by presburger
    then have "unat t = unat (4300 :: u16)" by simp
    then show ?thesis by (rule word_eq_unatI)
  qed
  ultimately show "\<exists>dv ns p'. plane_invoke 10 CWindowCovering MGoToLiftPercentage (Inr 4250) demo_plane = (Inr (), ns, p') \<and>
     plane_read 63 10 CWindowCovering ATargetPositionLiftPercent100ths p' = Inr (ClusterAttr dv (Some (VPercent 4300)))"
    using read_after_command [OF demo_plane_inv demo_plane_slot_at(2), of MOn "Inl ConstraintError" 63 4250]
    by (fastforce simp: word_le_nat_alt)
qed

end
