(* ===== verification/Bridge_Surface.thy ===== *)
theory Bridge_Surface
  imports Control_Spec Handler_Properties
begin

text \<open>
  Catalog, control plane and export plane together. The specification of what the bridge shows is a map from
  export ids to exports (\<open>bridged_view\<close>): the enabled exports whose endpoint id leaves room for the
  aggregator. \<open>surface_view\<close> reads the same map off the slot table, and a synchronised plane refines
  the specification. Then \<open>main.rs\<close>, the start of the process. The instances at the end serve the concrete inputs of the properties.
\<close>

section \<open>The surface as a map\<close>

definition bridged_view :: "catalog_store \<Rightarrow> uuid \<rightharpoonup> export" where
  "bridged_view st i =
     (case bt_get (by_id st) i of
        None \<Rightarrow> None
      | Some e \<Rightarrow> if enabled e \<and> endpoint_id e \<noteq> Some 65535 then Some e else None)"

definition surface_view :: "export_plane \<Rightarrow> uuid \<rightharpoonup> export" where
  "surface_view p i = map_option sl_export (slot_for (pl_state p) i)"

lemma catalog_get_ok:
  "catalog_inv st \<Longrightarrow> bt_get (by_id st) i = Some e \<Longrightarrow> export_id e = i \<and> (\<exists>ep. endpoint_id e = Some ep \<and> ep \<noteq> 0)"
  unfolding catalog_inv_def using exports_inv_get [of "by_id st" i e] by (simp add: export_ok_def)

lemma catalog_list_get:
  assumes "catalog_inv st"
  shows "e \<in> set (catalog_list st) \<longleftrightarrow> bt_get (by_id st) (export_id e) = Some e"
proof -
  have sorted: "bt_sorted (by_id st)" using assms by (simp add: catalog_inv_def exports_inv_def)
  have "e \<in> set (catalog_list st) \<longleftrightarrow> (\<exists>i. bt_get (by_id st) i = Some e)"
    by (simp add: catalog_list_def bt_values_ran [OF sorted] ran_def)
  also have "\<dots> \<longleftrightarrow> bt_get (by_id st) (export_id e) = Some e"
    using catalog_get_ok [OF assms] by metis
  finally show ?thesis .
qed

lemma placed_unless_last:
  assumes "catalog_inv st" and "bt_get (by_id st) (export_id e) = Some e"
  shows "(\<exists>ep. matter_endpoint_of e = Some ep \<and> 1 < ep) \<longleftrightarrow> endpoint_id e \<noteq> Some 65535"
proof -
  obtain ep where ep: "endpoint_id e = Some ep" "ep \<noteq> 0" using catalog_get_ok [OF assms] by blast
  have lt: "unat ep < 65536" by (rule unat_u16_less)
  have nz: "0 < unat ep" using ep(2) by (simp add: unat_gt_0)
  have max: "ep = 65535 \<longleftrightarrow> unat ep = 65535" by (auto simp: word_unat_eq_iff)
  show ?thesis
  proof (cases "ep = 65535")
    case True
    with ep(1) show ?thesis by (auto simp: matter_endpoint_of_Some)
  next
    case False
    with lt max have "unat ep < 65535" by linarith
    then have "matter_endpoint_of e = Some (ep + 1) \<and> 1 < ep + 1"
      using ep(1) nz by (simp add: matter_endpoint_of_Some word_less_nat_alt unat_word_ariths)
    with False ep(1) show ?thesis by auto
  qed
qed

text \<open>With endpoint ids unique and non-zero, the choice of the rebuild is the one of the specification.\<close>

lemma chosen_iff:
  assumes "catalog_inv st"
  shows "e \<in> set (choose_bridged (bridged_exports (catalog_list st)) {}) \<longleftrightarrow> bridged_view st (export_id e) = Some e"
proof -
  have get: "e \<in> set (catalog_list st) \<longleftrightarrow> bt_get (by_id st) (export_id e) = Some e" for e
    by (rule catalog_list_get [OF assms])
  have uniq: "export_id e' = export_id e"
    if "e \<in> set (catalog_list st)" "e' \<in> set (catalog_list st)" "endpoint_id e' = endpoint_id e" for e e'
  proof -
    have "exports_inv (by_id st)" using assms by (simp add: catalog_inv_def)
    with that show ?thesis unfolding get exports_inv_def by metis
  qed
  note facts = bridged_exports_facts(1) bridged_exports_facts(3) [OF catalog_list_ids(1) [OF assms]]
  have "e \<in> set (choose_bridged (bridged_exports (catalog_list st)) {}) \<longleftrightarrow>
    e \<in> set (catalog_list st) \<and> enabled e \<and> (\<exists>ep. matter_endpoint_of e = Some ep \<and> 1 < ep \<and>
      (\<forall>e' \<in> set (catalog_list st). enabled e' \<longrightarrow> matter_endpoint_of e' = Some ep \<longrightarrow> export_id e \<le> export_id e'))"
    unfolding pick_iff [OF facts] bridged_exports_facts(2) by auto
  also have "\<dots> \<longleftrightarrow> e \<in> set (catalog_list st) \<and> enabled e \<and> (\<exists>ep. matter_endpoint_of e = Some ep \<and> 1 < ep)"
    using uniq matter_endpoint_of_inj by (metis order_refl)
  also have "\<dots> \<longleftrightarrow> bridged_view st (export_id e) = Some e"
    using placed_unless_last [OF assms] by (auto simp: bridged_view_def get split: option.splits)
  finally show ?thesis .
qed

lemma set_exports_view:
  assumes "catalog_inv st" and "state_inv (pl_state p)"
  shows "surface_view (set_exports rnd (catalog_list st) p) = bridged_view st"
proof
  fix i
  let ?p = "set_exports rnd (catalog_list st) p"
  let ?chosen = "choose_bridged (bridged_exports (catalog_list st)) {}"
  have inv: "state_inv (pl_state ?p)" by (rule set_exports_inv [OF assms(2) catalog_list_ids(1) [OF assms(1)]])
  have slots: "slots (pl_state ?p) = map (slot_of rnd (pl_state p)) ?chosen"
    by (simp add: set_exports_state plane_state_new_def)
  have of: "sl_export (slot_of rnd (pl_state p) e) = e" "sl_export_id (slot_of rnd (pl_state p) e) = export_id e" for e
    by (simp_all add: slot_of_def Let_def rebuild_fields)
  have "distinct (map sl_export_id (slots (pl_state ?p)))" using inv by (simp add: state_inv_def)
  note find = find_unique [OF this, folded slot_for_def]
  have ids: "bridged_view st i = Some e \<Longrightarrow> export_id e = i" for e
    using catalog_get_ok [OF assms(1)] by (auto simp: bridged_view_def split: option.splits if_splits)
  have "surface_view ?p i = Some e \<longleftrightarrow> bridged_view st i = Some e" for e
  proof -
    have "surface_view ?p i = Some e \<longleftrightarrow> (\<exists>s \<in> set (slots (pl_state ?p)). sl_export_id s = i \<and> sl_export s = e)"
      using find [of i] by (auto simp: surface_view_def slot_for_def)
    also have "\<dots> \<longleftrightarrow> e \<in> set ?chosen \<and> export_id e = i" unfolding slots using of by auto
    also have "\<dots> \<longleftrightarrow> bridged_view st i = Some e" using chosen_iff [OF assms(1)] ids by blast
    finally show ?thesis .
  qed
  then show "surface_view ?p i = bridged_view st i" by (metis option.exhaust)
qed

text \<open>The Matter backend shows this view of the service's exports, and only a rebuild changes what it shows.\<close>

definition shown_exports :: "(uuid \<rightharpoonup> export) \<Rightarrow> uuid \<rightharpoonup> export" where
  "shown_exports m i =
     (case m i of None \<Rightarrow> None | Some e \<Rightarrow> if enabled e \<and> endpoint_id e \<noteq> Some 65535 then Some e else None)"

lemma bridged_view_shown: "bridged_view st = shown_exports (catalog_get st)"
  by (rule ext) (simp add: bridged_view_def shown_exports_def catalog_get_def)

lemma apply_state_view:
  assumes "state_inv (pl_state p)"
  shows "surface_view (snd (apply_state i states p)) = surface_view p"
proof (cases "position (\<lambda>s. sl_export_id s = i) (slots (pl_state p))")
  case None
  then show ?thesis by (simp add: apply_state_def)
next
  case (Some k)
  let ?s = "slots (pl_state p) ! k"
  define t where "t = snd (slot_apply_state states ?s)"
  have k: "k < length (slots (pl_state p))" using Some by (simp add: position_Some)
  have t: "sl_export_id t = sl_export_id ?s" "sl_export t = sl_export ?s"
    using slot_apply_state_step [of ?s states] by (simp_all add: t_def slot_step_def same_identity_def)
  have d: "distinct (map sl_export_id (slots (pl_state p)))" using assms by (simp add: state_inv_def)
  have "slot_for (pl_state p) (sl_export_id ?s) = Some ?s"
    using find_unique [OF d, of "sl_export_id ?s"] k by (auto simp: slot_for_def)
  moreover have "pl_state (snd (apply_state i states p)) = pl_state (put_slot k t p)"
    using Some by (auto simp: apply_state_def Let_def t_def split: prod.splits)
  ultimately show ?thesis
    using slot_for_put [OF d k t(1)] t by (auto simp: surface_view_def fun_eq_iff)
qed

interpretation rs_shows: showing_backend "rs_ops env" rs_known rs_queued rs_inv "\<lambda>b. surface_view (rs_plane b)" shown_exports for env
proof unfold_locales
  fix st b
  assume "catalog_inv st" "rs_inv b"
  then show "surface_view (rs_plane (snd (be_set_exports (rs_ops env) (catalog_list st) b))) = shown_exports (catalog_get st)"
    by (simp add: rs_ops_def rs_set_exports_def snd_on_plane rs_inv_def set_exports_view bridged_view_shown)
next
  fix i sts b
  assume "rs_inv b"
  then show "surface_view (rs_plane (snd (be_apply_state (rs_ops env) i sts b))) = surface_view (rs_plane b)"
    by (simp add: rs_ops_def rs_apply_result rs_inv_def apply_state_view)
qed (simp_all add: rs_ops_def surface_view_def [abs_def] rs_window_frame rs_take_commands_def snd_on_plane take_commands_def)

section \<open>The start of the process\<close>

datatype startup_error =
    SConfig string
  | SDataDir
  | SCatalog catalog_error
  | SBackend commissioning_error
  | SStart string
  | SExports string

text \<open>
  \<open>main\<close> up to the control plane. Its two arms differ in the backend only: \<open>new\<close> constructs it
  and \<open>ops\<close> is its implementation of the trait. \<open>None\<close>: the passcode loop of \<open>new\<close> does not end.
\<close>

definition main_start ::
  "(socket_addr \<Rightarrow> string) \<Rightarrow> config \<Rightarrow> 't codec \<Rightarrow> 't fs_env \<Rightarrow> 'b backend_ops \<Rightarrow>
     ('t disk \<Rightarrow> ((commissioning_error + 'b) \<times> 't disk) option) \<Rightarrow> 't disk \<Rightarrow>
     ((startup_error + 'b app_state) \<times> 't disk) option" where
  "main_start display cfg c env ops new d =
     (case ensure_loopback display cfg of
        Inl e \<Rightarrow> Some (Inl (SConfig e), d)
      | Inr _ \<Rightarrow>
     (case fs_create_dir_all SDataDir env d of
        (Inl e, d) \<Rightarrow> Some (Inl e, d)
      | (Inr _, d) \<Rightarrow>
     (case load_or_new c env (cfg_data_dir cfg) (cfg_bridge_name cfg) d of
        (Inl e, d) \<Rightarrow> Some (Inl (SCatalog e), d)
      | (Inr catalog, d) \<Rightarrow>
     (case new d of
        None \<Rightarrow> None
      | Some (Inl e, d) \<Rightarrow> Some (Inl (SBackend e), d)
      | Some (Inr b, d) \<Rightarrow>
     (case be_start ops b of
        (Inl e, b) \<Rightarrow> Some (Inl (SStart e), d)
      | (Inr _, b) \<Rightarrow>
     (case be_set_exports ops (catalog_list catalog) b of
        (Inl e, b) \<Rightarrow> Some (Inl (SExports e), d)
      | (Inr _, b) \<Rightarrow> Some (Inr (app_new ops catalog b), d)))))))"

text \<open>
  The outcome of \<open>spawn_stack\<close>: the system refuses the thread, or what the caller and the shared state are at
  some end of the start protocol.
\<close>

definition spawn_result :: "stack_env \<Rightarrow> rs_backend \<Rightarrow> (string + unit) \<times> rs_backend \<Rightarrow> bool" where
  "spawn_result env b rb \<longleftrightarrow> (\<exists>e. rb = (Inl e, b)) \<or>
     (\<exists>s. rs_reachable env (rs_mdns_interface b) (rs_plane b) s \<and>
        snd rb = b\<lparr>rs_plane := sy_plane s, rs_running := sy_running s, rs_error := sy_error s\<rparr> \<and>
        (case fst rb of Inr _ \<Rightarrow> sy_caller s = CStarted | Inl e \<Rightarrow> sy_caller s = CFailed e))"

lemma stack_prepare_state:
  "pl_state (snd (stack_prepare env pin p)) = pl_state p" "commands (snd (stack_prepare env pin p)) = commands p"
  by (auto simp: stack_prepare_def and_then_def note_startup_commissioning_state_def Let_def
      split: sum.splits)

lemma rs_reachable_state:
  "rs_reachable env pin p s \<Longrightarrow> pl_state (sy_plane s) = pl_state p \<and> commands (sy_plane s) = commands p"
proof (induction rule: rs_reachable.induct)
  case spawned
  show ?case by (simp add: rs_spawned_def)
next
  case (step s s')
  have "pl_state (sy_plane s') = pl_state (sy_plane s) \<and> commands (sy_plane s') = commands (sy_plane s)"
    using step.hyps(2) stack_prepare_state [of env pin "sy_plane s"] by (cases rule: stack_stepE) auto
  with step.IH show ?case by simp
qed

lemma main_start_steps:
  assumes "main_start display cfg c env ops new d = Some (Inr app, d')"
  obtains st b b' d1 where "allow_non_loopback cfg \<or> ip_is_loopback (sock_ip (listen cfg))"
    "load_or_new c env (cfg_data_dir cfg) (cfg_bridge_name cfg) d = (Inr st, d1)" "new d1 = Some (Inr b, d')"
    "be_start ops b = (Inr (), b')" "app = app_new ops st (snd (be_set_exports ops (catalog_list st) b'))"
proof -
  obtain u where u: "ensure_loopback display cfg = Inr u"
    using assms by (cases "ensure_loopback display cfg") (auto simp: main_start_def)
  have dir: "fs_create_dir_all SDataDir env d = (Inr (), d)"
    using assms u by (auto simp: main_start_def fs_create_dir_all_def split: if_splits)
  obtain st d1 where st: "load_or_new c env (cfg_data_dir cfg) (cfg_bridge_name cfg) d = (Inr st, d1)"
    using assms u dir by (auto simp: main_start_def split: sum.splits prod.splits)
  obtain b d2 where b: "new d1 = Some (Inr b, d2)"
    using assms u dir st by (auto simp: main_start_def split: option.splits sum.splits prod.splits)
  obtain b' where b': "be_start ops b = (Inr (), b')"
    using assms u dir st b by (auto simp: main_start_def split: sum.splits prod.splits)
  have "app = app_new ops st (snd (be_set_exports ops (catalog_list st) b'))" "d' = d2"
    using assms u dir st b b' by (auto simp: main_start_def split: sum.splits prod.splits)
  with that [of st d1 b b'] u st b b' show thesis by (simp add: ensure_loopback_Inr)
qed

text \<open>
  \<open>serve\<close> of \<open>ipc/server.rs\<close> and the end of \<open>main\<close>: the address is bound, then requests are
  answered by \<open>route\<close> until the server ends. The second result is the address that was listened on.
\<close>

record serve_env =
  sr_bind :: "socket_addr \<Rightarrow> string + unit"
  sr_local_addr :: "string + socket_addr"
  sr_serve :: "string + unit"

definition serve :: "serve_env \<Rightarrow> socket_addr \<Rightarrow> (string + unit) \<times> socket_addr option" where
  "serve env addr =
     (case sr_bind env addr of
        Inl e \<Rightarrow> (Inl e, None)
      | Inr _ \<Rightarrow> (case sr_local_addr env of
          Inl e \<Rightarrow> (Inl e, Some addr)
        | Inr _ \<Rightarrow> (sr_serve env, Some addr)))"

datatype process_error = StartFailed startup_error | ServeFailed string

definition main_process ::
  "(socket_addr \<Rightarrow> string) \<Rightarrow> config \<Rightarrow> 't codec \<Rightarrow> 't fs_env \<Rightarrow> 'b backend_ops \<Rightarrow>
     ('t disk \<Rightarrow> ((commissioning_error + 'b) \<times> 't disk) option) \<Rightarrow> serve_env \<Rightarrow> 't disk \<Rightarrow>
     ((process_error + unit) \<times> socket_addr option) option" where
  "main_process display cfg c env ops new senv d =
     (case main_start display cfg c env ops new d of
        None \<Rightarrow> None
      | Some (Inl e, _) \<Rightarrow> Some (Inl (StartFailed e), None)
      | Some (Inr app, _) \<Rightarrow>
          (case serve senv (listen cfg) of (r, l) \<Rightarrow> Some (map_sum ServeFailed id r, l)))"

text \<open>The control plane listens only after a complete start, on the configured address, which is loopback unless waived.\<close>

lemma listening_is_local:
  assumes "main_process display cfg c env ops new senv d = Some (r, Some addr)"
  shows "addr = listen cfg \<and> (allow_non_loopback cfg \<or> ip_is_loopback (sock_ip addr)) \<and>
    (\<exists>app d'. main_start display cfg c env ops new d = Some (Inr app, d'))"
proof -
  obtain app d' where m: "main_start display cfg c env ops new d = Some (Inr app, d')" "addr = listen cfg"
    using assms by (auto simp: main_process_def serve_def split: option.splits prod.splits sum.splits)
  then show ?thesis using main_start_steps [OF m(1)] by blast
qed

text \<open>The Matter backend right after a successful start shows the catalog it loaded, with an empty queue.\<close>

lemma main_start_rs:
  assumes "\<And>b. spawn_result senv b (rv_spawn re b)"
    and "main_start display cfg c env (rs_ops re) (rs_new mc env rng n codes rnd (mdns_interface cfg)) d = Some (Inr app, d')"
  obtains st d1 where "allow_non_loopback cfg \<or> ip_is_loopback (sock_ip (listen cfg))"
    "load_or_new c env (cfg_data_dir cfg) (cfg_bridge_name cfg) d = (Inr st, d1)" "app_catalog app = st"
    "catalog_inv st \<longrightarrow> app_inv rs_inv app \<and> in_sync rs_known app \<and> surface_view (rs_plane (app_backend app)) = bridged_view st"
    "rs_queued (app_backend app) = []"
proof -
  obtain st b b' d1 where s: "allow_non_loopback cfg \<or> ip_is_loopback (sock_ip (listen cfg))"
    "load_or_new c env (cfg_data_dir cfg) (cfg_bridge_name cfg) d = (Inr st, d1)"
    "rs_new mc env rng n codes rnd (mdns_interface cfg) d1 = Some (Inr b, d')"
    "be_start (rs_ops re) b = (Inr (), b')"
    "app = app_new (rs_ops re) st (snd (be_set_exports (rs_ops re) (catalog_list st) b'))"
    by (rule main_start_steps [OF assms(2)])
  have b: "rs_plane b = plane_new rnd" "\<not> rs_running b"
    using rs_new_fields [OF s(3)] by simp_all
  have "rv_spawn re (b\<lparr>rs_error := None\<rparr>) = (Inr (), b')"
    using s(4) b(2) by (auto simp: rs_ops_def rs_start_def split: sum.splits)
  with assms(1) [of "b\<lparr>rs_error := None\<rparr>"] obtain y where
    "rs_reachable senv (rs_mdns_interface b) (rs_plane b) y" "rs_plane b' = sy_plane y"
    by (auto simp: spawn_result_def)
  from rs_reachable_state [OF this(1)] this(2) b(1)
  have b': "pl_state (rs_plane b') = pl_state (plane_new rnd)" "commands (rs_plane b') = []" by (simp_all add: plane_new_def)
  then have inv: "rs_inv b'" using plane_new_inv by (simp add: rs_inv_def)
  have app: "app = snd (sync_exports (rs_ops re) (app_new (rs_ops re) st b' \<lparr>app_catalog := st\<rparr>))"
    by (simp add: s(5) rs_contract.sync_exports_effect app_new_def)
  have good: "app_inv rs_inv app \<and> in_sync rs_known app \<and> surface_view (rs_plane (app_backend app)) = bridged_view st"
    if cat: "catalog_inv st"
    using rs_contract.synced [OF cat, of "app_new (rs_ops re) st b'" re] inv rs_shows.set_exports_shown [OF cat inv, of re]
    by (simp flip: app) (simp add: s(5) app_new_def bridged_view_shown)
  have "rs_queued (app_backend app) = []"
    using b'(2) by (simp add: s(5) app_new_def rs_contract.set_exports_queued) (simp add: rs_queued_def)
  with that [of st d1] s(1,2) good show thesis by (simp add: s(5) app_new_def)
qed

lemma create_new_id:
  assumes "create c env v4 body (st, d) = (Inr e, st', d')"
  shows "by_id st' = bt_insert (export_id e) e (by_id st)" "bt_get (by_id st) (export_id e) = None"
  using assms by (cases rule: create_store; auto simp: persist_then_def split: sum.splits prod.splits)+

section \<open>Instances\<close>

definition demo_spawn :: "rs_backend \<Rightarrow> (string + unit) \<times> rs_backend" where
  "demo_spawn b =
     (case stack_prepare demo_stack_env (rs_mdns_interface b) (rs_plane b) of
        (Inr m, p) \<Rightarrow> (Inr (), b\<lparr>rs_plane := p, rs_running := True, rs_error := None\<rparr>)
      | (Inl e, p) \<Rightarrow> (Inl timed_out_message, b\<lparr>rs_running := False, rs_error := Some timed_out_message\<rparr>))"

lemma demo_spawn_result: "spawn_result demo_stack_env b (demo_spawn b)"
proof -
  obtain r p where r: "stack_prepare demo_stack_env (rs_mdns_interface b) (rs_plane b) = (r, p)" by fastforce
  show ?thesis
  proof (cases r)
    case (Inr m)
    with serving_sys_reachable [OF r [unfolded Inr]] r show ?thesis
      unfolding spawn_result_def demo_spawn_def by (intro disjI2 exI [of _ "serving_sys m p"]) (simp add: serving_sys_def)
  next
    case (Inl e)
    define s1 where "s1 = (rs_spawned (rs_plane b))\<lparr>sy_error := Some timed_out_message, sy_caller := CErrorSet timed_out_message\<rparr>"
    define s2 where "s2 = s1\<lparr>sy_running := False, sy_caller := CFailed timed_out_message\<rparr>"
    have "rs_reachable demo_stack_env (rs_mdns_interface b) (rs_plane b) s1"
      unfolding s1_def by (rule rs_reachable.step [OF spawned recv_timeout]) (simp_all add: rs_spawned_def)
    then have "rs_reachable demo_stack_env (rs_mdns_interface b) (rs_plane b) s2"
      unfolding s2_def by (rule rs_reachable.step [OF _ caller_clear]) (simp add: s1_def)
    moreover have "demo_spawn b = (Inl timed_out_message, b\<lparr>rs_running := False, rs_error := Some timed_out_message\<rparr>)"
      using r Inl by (simp add: demo_spawn_def)
    ultimately show ?thesis
      unfolding spawn_result_def by (intro disjI2 exI [of _ s2]) (simp add: s2_def s1_def rs_spawned_def)
  qed
qed

definition demo_re :: rs_env where
  "demo_re = \<lparr>rv_dir = Inr (), rv_spawn = demo_spawn, rv_now = 1000, rv_rnd = demo_rnd,
     rv_reply = Served 1000 0 demo_window_env\<rparr>"

definition demo_pairing :: pairing_material where
  "demo_pairing = \<lparr>setup_code = ''3497-0112-332'', qr_payload = [], pm_discriminator = 3840, pm_passcode = 20202021\<rparr>"

definition demo_rs :: rs_backend where
  "demo_rs = \<lparr>rs_plane = demo_ready_plane, rs_running = True, rs_error = None, rs_pairing = demo_pairing,
     rs_mdns_interface = None\<rparr>"

definition demo_app :: "rs_backend app_state" where
  "demo_app = app_new (rs_ops demo_re) (catalog_new ''/data'' ''Home'') demo_rs"

definition demo_ipc_env :: "(persisted_config + persisted_exports) ipc_env" where
  "demo_ipc_env = \<lparr>ie_codec = plain_codec, ie_fs = ok_env, ie_version = ''0.2.4'', ie_detail = [],
     ie_de_open = (\<lambda>_. Inl ''invalid''), ie_de_state = \<lparr>de_update = (\<lambda>_. None), de_value = (\<lambda>_. None)\<rparr>\<rparr>"

lemma demo_app_fields:
  "app_catalog demo_app = catalog_new ''/data'' ''Home''" "app_backend demo_app = demo_rs"
  by (simp_all add: demo_app_def app_new_def)

lemma demo_app_inv: "app_inv rs_inv demo_app"
  using plane_new_inv
  by (simp add: app_inv_def demo_app_fields catalog_inv_def catalog_new_def exports_inv_empty rs_inv_def demo_rs_def
      demo_ready_plane_def note_startup_commissioning_state_def)

lemma demo_app_sync: "in_sync rs_known demo_app"
  by (auto simp add: in_sync_def demo_app_fields catalog_new_def bt_get_def rs_known_def demo_rs_def demo_ready_plane_def
      note_startup_commissioning_state_def plane_new_def plane_state_new_def)

text \<open>Creating a light in an empty catalog.\<close>

definition light_of :: "uuid \<Rightarrow> export" where
  "light_of i = (demo_export i 1)\<lparr>primary_entity_id := ''light.a''\<rparr>"

definition one_light :: "uuid \<Rightarrow> catalog_store" where
  "one_light i = \<lparr>data_dir = ''/data'', bridge_name = ''Home'', by_id = [(i, light_of i)], next_endpoint = 2\<rparr>"

lemma demo_create:
  "create plain_codec ok_env i (demo_body ''Lamp'') (catalog_new ''/data'' ''Home'', d) =
     (Inr (light_of i), one_light i, plain_disk (one_light i) d)"
proof -
  have alloc: "alloc_endpoint (catalog_new ''/data'' ''Home'') =
      (Inr 1, (catalog_new ''/data'' ''Home'')\<lparr>next_endpoint := 2\<rparr>)"
    by (simp add: alloc_endpoint_def used_endpoints_def catalog_new_def catalog_list_def bt_values_def
        List.map_filter_def alloc_loop.simps first_endpoint_id_def)
  have empty: "by_id (catalog_new ''/data'' ''Home'') = []" by (simp add: catalog_new_def)
  have "light_of i = \<lparr>export_id = i, ex_name = ''Lamp'', ex_type = Light, primary_entity_id = ''light.a'', linked = [],
      area_id = None, enabled = True, endpoint_id = Some 1\<rparr>"
    by (simp add: light_of_def demo_export_def)
  then have "create plain_codec ok_env i (demo_body ''Lamp'') (catalog_new ''/data'' ''Home'', d) =
      persist_then plain_codec ok_env (light_of i)
        ((catalog_new ''/data'' ''Home'')\<lparr>next_endpoint := 2, by_id := [(i, light_of i)]\<rparr>) d"
    by (simp add: create_def validate_export_fields_def demo_body_def bt_get_def alloc empty Let_def)
  moreover have "(catalog_new ''/data'' ''Home'')\<lparr>next_endpoint := 2, by_id := [(i, light_of i)]\<rparr> = one_light i"
    by (simp add: catalog_new_def one_light_def)
  ultimately show ?thesis by (simp add: persist_then_plain)
qed

lemma create_fields:
  assumes "create c env v4 body (st, d) = (Inr e, st', d')"
  shows "ex_name e = cr_name body" "enabled e = cr_enabled body" "ex_type e = cr_type body"
  using assms
  by (auto simp: create_def persist_then_def Let_def split: sum.splits prod.splits if_splits)

lemma demo_post:
  "\<exists>app' d'. route demo_ipc_env (rs_ops demo_re) (PostExports i (demo_body ''Lamp'')) (demo_app, Map.empty) =
     (\<lparr>resp_status = 201, resp_body = ExportBody (light_of i)\<rparr>, app', d') \<and> app_catalog app' = one_light i"
  by (simp add: demo_ipc_env_def post_export_def demo_app_fields demo_create rs_contract.sync_exports_effect)

definition demo_config :: config where
  "demo_config = \<lparr>listen = \<lparr>sock_ip = IpV6 1, sock_port = 18465\<rparr>, cfg_data_dir = ''/data'', cfg_bridge_name = ''Home'',
     matter_backend = BackendRsMatter, allow_non_loopback = False, mdns_interface = Some ''enp1s0''\<rparr>"

text \<open>One text type for both kinds of file: the commissioning file holds its value, the catalog files theirs.\<close>

definition any_material :: "(persisted_config + persisted_exports) material_codec" where
  "any_material = \<lparr>ser_material = (\<lambda>m. Some (Inr \<lparr>pe_exports = []\<rparr>)), de_material = (\<lambda>_. None)\<rparr>"

lemma demo_main_start_from:
  assumes "load_or_new plain_codec ok_env ''/data'' ''Home'' d = (Inr st, d)" and "d commissioning_file = None"
  shows "\<exists>app d'. main_start (\<lambda>_. ''[::1]:18465'') demo_config plain_codec ok_env (rs_ops demo_re)
     (rs_new any_material ok_env demo_rng 3840 (\<lambda>_. demo_pairing) 7 (mdns_interface demo_config)) d = Some (Inr app, d') \<and>
     app_catalog app = st"
proof -
  let ?b = "\<lparr>rs_plane = plane_new 7, rs_running = False, rs_error = None, rs_pairing = demo_pairing,
    rs_mdns_interface = Some ''enp1s0''\<rparr>"
  have e: "ensure_loopback (\<lambda>_. ''[::1]:18465'') demo_config = Inr ()"
    by (simp add: ensure_loopback_def demo_config_def ip_is_loopback_def)
  have dir: "fs_create_dir_all err ok_env d = (Inr (), d)" for err :: 'e and d
    by (simp add: fs_create_dir_all_def ok_env_def)
  have load: "load_or_new plain_codec ok_env (cfg_data_dir demo_config) (cfg_bridge_name demo_config) d = (Inr st, d)"
    using assms(1) by (simp add: demo_config_def)
  obtain m where m: "generate demo_rng 3840 = Some m" using generate_valid [OF demo_rng_ok] by blast
  have pin: "Option.bind (map_option trim (mdns_interface demo_config)) (\<lambda>s. if s = [] then None else Some s) = Some ''enp1s0''"
    unfolding demo_config_def by code_simp
  have "load_material any_material ok_env d = Inr None" using assms(2) by (simp add: load_material_def fs_exists_def)
  moreover obtain d' where "persist_material any_material ok_env m d = (Inr (), d')"
    by (simp add: persist_material_def dir any_material_def write_then_rename_healthy [OF ok_env_healthy commissioning_files_differ])
  ultimately have new: "rs_new any_material ok_env demo_rng 3840 (\<lambda>_. demo_pairing) 7 (mdns_interface demo_config) d =
      Some (Inr ?b, d')"
    by (simp add: rs_new_def load_or_generate_def m pin)
  obtain b' where "be_start (rs_ops demo_re) ?b = (Inr (), b')"
    by (simp add: rs_ops_def rs_start_def demo_re_def demo_spawn_def demo_prepare)
  then show ?thesis
    by (simp add: main_start_def e dir load new rs_contract.set_exports_ok split: prod.splits sum.splits)
      (auto simp: app_new_def dest: arg_cong [where f = fst] simp: rs_contract.set_exports_ok)
qed

end
