(* ===== verification/Run_Loop.thy ===== *)
theory Run_Loop
  imports Pairing_Window Plane_Properties
begin

text \<open>
  \<open>ExportPlane::run\<close>, the loop on the Matter stack thread. One iteration samples the fabrics,
  serves a window request, bumps the configuration version until no generation is outstanding and
  reports the pending changes. The first half models an iteration as one function; the second half is
  the generation protocol (\<open>config_requested\<close> against \<open>config_applied\<close>) step by step, with
  rebuilds by the control plane interleaved between any two atomic accesses.
\<close>

section \<open>One iteration\<close>

definition acknowledge_config_generation :: "u64 \<Rightarrow> export_plane \<Rightarrow> export_plane" where
  "acknowledge_config_generation g p =
     (if config_applied p < g then p\<lparr>config_applied := g\<rparr> else p)"

datatype notification = ClusterChanged u16 cluster_id | AttrChanged u16 cluster_id attr_id

text \<open>
  The inner loop: \<open>answers\<close> tells for each call of \<open>bump_configuration_version\<close> whether it
  succeeds; \<open>None\<close> when the loop would make more calls than there are answers.
\<close>

fun config_loop :: "bool list \<Rightarrow> export_plane \<Rightarrow> (notification list \<times> export_plane) option" where
  "config_loop answers p =
     (if config_requested p = config_applied p then Some ([], p)
      else case answers of
             [] \<Rightarrow> None
           | False # rest \<Rightarrow> Some ([], p)
           | True # rest \<Rightarrow>
               (case config_loop rest (acknowledge_config_generation (config_requested p) p) of
                  None \<Rightarrow> None
                | Some (ns, p') \<Rightarrow>
                    Some (ClusterChanged 0 (cl_id desc_cluster) #
                          ClusterChanged AGGREGATOR_ENDPOINT_ID (cl_id desc_cluster) # ns, p')))"

declare config_loop.simps [simp del]

record run_env =
  re_window :: window_env
  re_now :: u64
  re_fabrics :: nat
  re_bumps :: "bool list"

definition run_iteration ::
  "run_env \<Rightarrow> export_plane \<Rightarrow> (notification list \<times> stack_call list \<times> export_plane) option" where
  "run_iteration env p =
     (let p = p\<lparr>wake := False\<rparr>;
          p = sample_fabrics (re_now env) (re_fabrics env) p;
          (_, calls, p) = drain_window_request (re_window env) p
      in case config_loop (re_bumps env) p of
           None \<Rightarrow> None
         | Some (ns, p) \<Rightarrow>
             (let (reports, p) = drain_reports p
              in Some (ns @ map (\<lambda>(ep, cl, a). AttrChanged ep cl a) reports, calls, p)))"

definition config_sane :: "export_plane \<Rightarrow> bool" where
  "config_sane p \<longleftrightarrow> config_applied p \<le> config_requested p"

lemma config_loop_outcome:
  assumes "config_sane p"
  shows "config_loop (b # bs) p =
    Some (if config_requested p = config_applied p \<or> \<not> b then ([], p)
          else ([ClusterChanged 0 CDesc, ClusterChanged 1 CDesc], p\<lparr>config_applied := config_requested p\<rparr>))"
proof -
  have "acknowledge_config_generation (config_requested p) p = p\<lparr>config_applied := config_requested p\<rparr>"
    if "config_requested p \<noteq> config_applied p"
    using assms that by (simp add: acknowledge_config_generation_def config_sane_def)
  then show ?thesis
    by (subst config_loop.simps)
      (auto simp: config_loop.simps [of bs] desc_cluster_def AGGREGATOR_ENDPOINT_ID_def)
qed

lemma window_step_frame:
  assumes "drain_window_request env p = (q, calls, p')"
  shows "pl_state p' = pl_state p \<and> config_requested p' = config_requested p \<and> config_applied p' = config_applied p \<and>
    wake p' = wake p \<and> window_request p' = None"
  using assms
  by (auto simp: drain_window_request_def take_window_request_def execute_window_op_def Let_def
      establish_fabric_baseline_def mark_window_opened_def mark_window_closed_def
      split: option.splits prod.splits window_op.splits if_splits sum.splits)

lemma sample_frame:
  "pl_state (sample_fabrics now n p) = pl_state p" "config_requested (sample_fabrics now n p) = config_requested p"
  "config_applied (sample_fabrics now n p) = config_applied p" "wake (sample_fabrics now n p) = wake p"
  by (simp_all add: sample_fabrics_def apply_fabric_sample_def Let_def)

lemma run_iteration_outcome:
  assumes "config_sane p" and "re_bumps env = b # bs"
  shows "\<exists>calls p'. run_iteration env p =
      Some ((if config_requested p = config_applied p \<or> \<not> b then [] else [ClusterChanged 0 CDesc, ClusterChanged 1 CDesc]) @
        map (\<lambda>(ep, cl, a). AttrChanged ep cl a) (concat (map slot_reports (slots (pl_state p)))), calls, p') \<and>
    config_applied p' = (if b then config_requested p else config_applied p) \<and>
    config_requested p' = config_requested p \<and> config_sane p' \<and>
    window_request p' = None \<and> \<not> wake p' \<and> list_all (\<lambda>s. pending_reports s = 0) (slots (pl_state p'))"
proof -
  obtain q calls p1 where w: "drain_window_request (re_window env)
      (sample_fabrics (re_now env) (re_fabrics env) (p\<lparr>wake := False\<rparr>)) = (q, calls, p1)"
    using prod_cases3 by blast
  have f: "pl_state p1 = pl_state p" "config_requested p1 = config_requested p" "config_applied p1 = config_applied p"
    "\<not> wake p1" "window_request p1 = None"
    using window_step_frame [OF w] by (simp_all add: sample_frame)
  then have "config_sane p1" using assms(1) by (simp add: config_sane_def)
  from config_loop_outcome [OF this, of b bs] f assms w show ?thesis
    by (auto simp: run_iteration_def drain_reports_def list_all_iff config_sane_def)
qed

text \<open>C33: An iteration of the run loop ends, whether the configuration bump succeeds or fails (one answer of it is
  enough), and leaves little over: the window mailbox is empty and all pending reports of all slots have been
  notified. After a success every generation is acknowledged, after a failure none more than before; root and
  aggregator are notified exactly when a generation was outstanding and the bump succeeded. The state is one in
  which no generation is acknowledged that was not requested, and is such a state again.\<close>

theorem run_iteration_drains:
  assumes "config_sane p" and "re_bumps env = b # bs"
  shows "\<exists>calls p'. run_iteration env p =
      Some ((if config_requested p = config_applied p \<or> \<not> b then [] else [ClusterChanged 0 CDesc, ClusterChanged 1 CDesc]) @
        map (\<lambda>(ep, cl, a). AttrChanged ep cl a) (concat (map slot_reports (slots (pl_state p)))), calls, p') \<and>
    config_applied p' = (if b then config_requested p else config_applied p) \<and>
    config_requested p' = config_requested p \<and> config_sane p' \<and>
    window_request p' = None \<and> \<not> wake p' \<and> list_all (\<lambda>s. pending_reports s = 0) (slots (pl_state p'))"
  by (rule run_iteration_outcome [OF assms])

definition demo_run_env :: run_env where
  "demo_run_env = \<lparr>re_window = demo_window_env, re_now = 1000, re_fabrics = 0, re_bumps = [True]\<rparr>"

theorem run_iteration_drains_witness:
  "(\<exists>calls p'. run_iteration demo_run_env demo_plane =
     Some ([ClusterChanged 0 CDesc, ClusterChanged 1 CDesc], calls, p') \<and> config_applied p' = 1) \<and>
   (\<exists>calls p'. run_iteration (demo_run_env\<lparr>re_bumps := [False]\<rparr>) demo_plane = Some ([], calls, p') \<and> config_applied p' = 0)"
proof -
  have c: "config_requested demo_plane = 1 \<and> config_applied demo_plane = 0"
    by (simp add: demo_plane_def set_exports_def Let_def surfaces_differ_def slot_loop_pick plane_new_def plane_state_new_def
        bridged_exports_def demo_exports_def sort_key_of_def matter_endpoint_of_def checked_add_def
        AGGREGATOR_ENDPOINT_ID_def word_le_nat_alt)
  have "concat (map slot_reports (slots (pl_state demo_plane))) = []"
    by (simp add: demo_plane_slots slot_reports_def Let_def rebuild_def demo_rnd_def)
  moreover have sane: "config_sane demo_plane" using c by (simp add: config_sane_def)
  moreover have "re_bumps demo_run_env = [True]" "re_bumps (demo_run_env\<lparr>re_bumps := [False]\<rparr>) = [False]"
    by (simp_all add: demo_run_env_def)
  ultimately show ?thesis
    using run_iteration_drains [OF sane, of demo_run_env True "[]"]
      run_iteration_drains [OF sane, of "demo_run_env\<lparr>re_bumps := [False]\<rparr>" False "[]"] c by auto
qed

section \<open>The generation protocol\<close>

text \<open>
  Where the stack thread is in the inner loop: each constructor stands before one atomic access.
  \<open>covered\<close> is not in the program: it records the generation that was requested when the last
  successful bump ran. A rebuild counts a surface change at any time; the counter is assumed not to run
  past 64 bits.
\<close>

datatype run_pc =
    AtWait
  | AtLoadRequested
  | AtLoadApplied u64
  | AtBump u64
  | AtAcknowledge u64
  | AtCompareExchange u64 u64
  | AtNotify
  | AtReports

record config_state =
  cs_requested :: u64
  cs_applied :: u64
  cs_pc :: run_pc
  cs_covered :: u64

inductive config_step :: "config_state \<Rightarrow> config_state \<Rightarrow> bool" where
  surface_change: "unat (cs_requested s) + 1 < 2 ^ 64 \<Longrightarrow>
    config_step s (s\<lparr>cs_requested := cs_requested s + 1\<rparr>)"
| woken: "cs_pc s = AtWait \<Longrightarrow> config_step s (s\<lparr>cs_pc := AtLoadRequested\<rparr>)"
| load_requested: "cs_pc s = AtLoadRequested \<Longrightarrow> config_step s (s\<lparr>cs_pc := AtLoadApplied (cs_requested s)\<rparr>)"
| up_to_date: "cs_pc s = AtLoadApplied r \<Longrightarrow> r = cs_applied s \<Longrightarrow> config_step s (s\<lparr>cs_pc := AtReports\<rparr>)"
| outstanding: "cs_pc s = AtLoadApplied r \<Longrightarrow> r \<noteq> cs_applied s \<Longrightarrow> config_step s (s\<lparr>cs_pc := AtBump r\<rparr>)"
| bump_ok: "cs_pc s = AtBump r \<Longrightarrow> config_step s (s\<lparr>cs_pc := AtAcknowledge r, cs_covered := cs_requested s\<rparr>)"
| bump_failed: "cs_pc s = AtBump r \<Longrightarrow> config_step s (s\<lparr>cs_pc := AtReports\<rparr>)"
| ack_load: "cs_pc s = AtAcknowledge r \<Longrightarrow> config_step s (s\<lparr>cs_pc := AtCompareExchange r (cs_applied s)\<rparr>)"
| ack_done: "cs_pc s = AtCompareExchange r a \<Longrightarrow> \<not> a < r \<Longrightarrow> config_step s (s\<lparr>cs_pc := AtNotify\<rparr>)"
| ack_swap: "cs_pc s = AtCompareExchange r a \<Longrightarrow> a < r \<Longrightarrow> cs_applied s = a \<Longrightarrow>
    config_step s (s\<lparr>cs_applied := r, cs_pc := AtNotify\<rparr>)"
| ack_retry: "cs_pc s = AtCompareExchange r a \<Longrightarrow> a < r \<Longrightarrow> cs_applied s \<noteq> a \<Longrightarrow>
    config_step s (s\<lparr>cs_pc := AtCompareExchange r (cs_applied s)\<rparr>)"
| notified: "cs_pc s = AtNotify \<Longrightarrow> config_step s (s\<lparr>cs_pc := AtLoadRequested\<rparr>)"
| reported: "cs_pc s = AtReports \<Longrightarrow> config_step s (s\<lparr>cs_pc := AtWait\<rparr>)"

definition config_initial :: config_state where
  "config_initial = \<lparr>cs_requested = 0, cs_applied = 0, cs_pc = AtWait, cs_covered = 0\<rparr>"

inductive config_reachable :: "config_state \<Rightarrow> bool" where
  initial: "config_reachable config_initial"
| step: "config_reachable s \<Longrightarrow> config_step s s' \<Longrightarrow> config_reachable s'"

inductive_cases config_stepE: "config_step s s'"

text \<open>The generation a program point still carries is one that was requested, and after the bump one it covered.\<close>

fun pc_ok :: "run_pc \<Rightarrow> u64 \<Rightarrow> u64 \<Rightarrow> bool" where
  "pc_ok (AtLoadApplied r) requested covered = (r \<le> requested)"
| "pc_ok (AtBump r) requested covered = (r \<le> requested)"
| "pc_ok (AtAcknowledge r) requested covered = (r \<le> covered)"
| "pc_ok (AtCompareExchange r a) requested covered = (r \<le> covered)"
| "pc_ok _ requested covered = True"

definition config_inv :: "config_state \<Rightarrow> bool" where
  "config_inv s \<longleftrightarrow> cs_applied s \<le> cs_covered s \<and> cs_covered s \<le> cs_requested s \<and>
     pc_ok (cs_pc s) (cs_requested s) (cs_covered s)"

lemma pc_ok_mono: "pc_ok pc r c \<Longrightarrow> r \<le> r' \<Longrightarrow> pc_ok pc r' c"
  by (cases pc) (auto intro: order_trans)

lemma config_step_inv: "config_step s s' \<Longrightarrow> config_inv s \<Longrightarrow> config_inv s'"
proof (induction rule: config_step.induct)
  case (surface_change s)
  then have "cs_requested s \<le> cs_requested s + 1"
    by (simp add: word_le_nat_alt unat_word_ariths)
  with surface_change show ?case by (auto simp: config_inv_def intro: pc_ok_mono order_trans)
qed (auto simp: config_inv_def)

lemma config_reachable_inv: "config_reachable s \<Longrightarrow> config_inv s"
proof (induction rule: config_reachable.induct)
  case initial
  then show ?case by (simp add: config_inv_def config_initial_def)
next
  case (step s s')
  then show ?case by (blast intro: config_step_inv)
qed

text \<open>C22: No request for a new configuration version is lost, however rebuilds interleave with the run loop: as long
  as a surface change is not covered by a successful bump, the generations differ, so the loop bumps again;
  when they agree, the last successful bump ran after the last surface change.\<close>

theorem config_bump_never_lost:
  assumes "config_reachable s"
  shows "cs_applied s \<le> cs_requested s \<and>
    (cs_covered s < cs_requested s \<longrightarrow> cs_applied s \<noteq> cs_requested s) \<and>
    (cs_applied s = cs_requested s \<longrightarrow> cs_covered s = cs_requested s)"
  using config_reachable_inv [OF assms] by (auto simp: config_inv_def)

theorem config_bump_never_lost_witness:
  "\<exists>s. config_reachable s \<and> cs_pc s = AtNotify \<and> cs_covered s < cs_requested s \<and> cs_applied s \<noteq> cs_requested s"
proof -
  let ?s = "\<lambda>r a pc c. \<lparr>cs_requested = r, cs_applied = a, cs_pc = pc, cs_covered = c\<rparr>"
  note go = config_reachable.step
  have "config_reachable (?s 0 0 AtWait 0)" using config_reachable.initial by (simp add: config_initial_def)
  from go [OF this surface_change] have "config_reachable (?s 1 0 AtWait 0)" by simp
  from go [OF this woken] have "config_reachable (?s 1 0 AtLoadRequested 0)" by simp
  from go [OF this load_requested] have "config_reachable (?s 1 0 (AtLoadApplied 1) 0)" by simp
  from go [OF this outstanding] have "config_reachable (?s 1 0 (AtBump 1) 0)" by simp
  from go [OF this bump_ok] have "config_reachable (?s 1 0 (AtAcknowledge 1) 1)" by simp
  from go [OF this surface_change] have "config_reachable (?s 2 0 (AtAcknowledge 1) 1)" by simp
  from go [OF this ack_load] have "config_reachable (?s 2 0 (AtCompareExchange 1 0) 1)" by simp
  from go [OF this ack_swap] have r: "config_reachable (?s 2 1 AtNotify 1)" by simp
  from config_bump_never_lost [OF this] have "cs_applied (?s 2 1 AtNotify 1) \<noteq> cs_requested (?s 2 1 AtNotify 1)"
    by (simp add: word_less_nat_alt)
  with r show ?thesis by (intro exI [of _ "?s 2 1 AtNotify 1"]) (simp add: word_less_nat_alt)
qed

end
