(* ===== verification/Service_Properties.thy ===== *)
theory Service_Properties
  imports Bridge_Surface Run_Loop
begin

text \<open>
  Sequences of requests against the service of \<open>Control_Spec\<close>, with the Matter backend: what the clients are
  answered and what the bridge shows is what the service says, a restart keeps it, and a state pushed by Home
  Assistant is what a controller reads.
\<close>

section \<open>Sequences of requests\<close>

lemma rs_calls:
  fixes xs :: "('t, rs_backend) call list"
  assumes "list_all (call_ok (\<lambda>ops. \<exists>re. ops = rs_ops re)) xs"
  shows "list_all (call_ok (\<lambda>ops. showing_backend ops rs_known rs_queued rs_inv (\<lambda>b. surface_view (rs_plane b)) shown_exports)) xs"
proof -
  have "call_ok (\<lambda>ops. showing_backend ops rs_known rs_queued rs_inv (\<lambda>b. surface_view (rs_plane b)) shown_exports) c"
    if "call_ok (\<lambda>ops. \<exists>re. ops = rs_ops re) c" for c :: "('t, rs_backend) call"
    using that rs_shows.showing_backend_axioms by (auto simp: call_ok_def)
  with assms show ?thesis by (simp add: list_all_iff)
qed

lemma requests_serve:
  assumes "list_all (call_ok (\<lambda>ops. \<exists>re. ops = rs_ops re)) xs" and "serve_all xs (app, d) = (rs, app', d')"
    and "serves rs_known rs_queued rs_inv (\<lambda>b. surface_view (rs_plane b)) shown_exports app s"
  shows "list_all2 answers rs (fst (run_steps spec_call xs s)) \<and>
    serves rs_known rs_queued rs_inv (\<lambda>b. surface_view (rs_plane b)) shown_exports app' (snd (run_steps spec_call xs s))"
  using service.run_sim [OF rs_calls [OF assms(1)], of "(app, d)" s] assms(2,3) by (simp add: serve_all_run_steps)

text \<open>C3: The control plane with the Matter bridge behind it refines the service: on a working disk, whatever requests
  are served one after another, every response is the reply of the service, which is a map of exports with one
  step per request, and at the end catalog, queue and bridge are those of the service. Patches that the program
  applies halfway are excluded, and what the service leaves open (pairing, health) is unconstrained.\<close>

theorem requests_refine_service:
  assumes "serve_all xs (app, d) = (rs, app', d')" and "list_all (call_ok (\<lambda>ops. \<exists>re. ops = rs_ops re)) xs"
    and "app_inv rs_inv app" and "in_sync rs_known app"
    and "surface_view (rs_plane (app_backend app)) = bridged_view (app_catalog app)"
    and "run_steps spec_call xs (service_of (app_catalog app) (rs_queued (app_backend app))) = (replies, s')"
  shows "list_all2 answers rs replies \<and> catalog_get (app_catalog app') = sv_exports s' \<and>
    next_endpoint (app_catalog app') = sv_cursor s' \<and> rs_queued (app_backend app') = sv_queue s' \<and>
    surface_view (rs_plane (app_backend app')) = shown_exports (sv_exports s')"
proof -
  have "serves rs_known rs_queued rs_inv (\<lambda>b. surface_view (rs_plane b)) shown_exports app
      (service_of (app_catalog app) (rs_queued (app_backend app)))"
    using assms(3-5) by (simp add: serves_def bridged_view_shown service_of_def)
  from requests_serve [OF assms(2,1) this, unfolded assms(6)] show ?thesis by (auto simp: serves_def service_of_def)
qed

lemma demo_total_io: "total_io demo_ipc_env"
  by (simp add: total_io_def demo_ipc_env_def plain_codec_round_trips ok_env_healthy)

lemma demo_app_view: "surface_view (rs_plane (app_backend demo_app)) = bridged_view (app_catalog demo_app)"
  by (rule ext) (simp add: surface_view_def bridged_view_def demo_app_fields demo_rs_def demo_ready_plane_def slot_for_def
      note_startup_commissioning_state_def plane_new_def plane_state_new_def catalog_new_def bt_get_def)

definition demo_calls :: "(persisted_config + persisted_exports, rs_backend) call list" where
  "demo_calls = [(demo_ipc_env, rs_ops demo_re, PostExports 9 (demo_body ''Lamp'')), (demo_ipc_env, rs_ops demo_re, GetExports)]"

lemma demo_calls_ok: "list_all (call_ok (\<lambda>ops. \<exists>re. ops = rs_ops re)) demo_calls"
  by (auto simp: demo_calls_def call_ok_def demo_total_io)

lemma demo_calls_spec:
  "run_steps spec_call demo_calls (service_of (app_catalog demo_app) (rs_queued (app_backend demo_app))) =
     ([RCreated (light_of 9), RExports [light_of 9]],
      \<lparr>sv_exports = [9 \<mapsto> light_of 9], sv_cursor = 2, sv_queue = []\<rparr>)"
proof -
  have q: "rs_queued (app_backend demo_app) = []"
    by (simp add: rs_queued_def demo_app_fields demo_rs_def demo_ready_plane_def note_startup_commissioning_state_def plane_new_def)
  have s: "service_of (app_catalog demo_app) [] = \<lparr>sv_exports = Map.empty, sv_cursor = 1, sv_queue = []\<rparr>"
    by (simp add: service_of_def demo_app_fields catalog_get_abs fun_eq_iff bt_get_def catalog_new_def first_endpoint_id_def)
  have "0 < n \<Longrightarrow> List.find (\<lambda>_. True) (map (cyclic_id 1) [0..<n]) = Some 1" for n
    by (simp add: upt_conv_Cons cyclic_id_0)
  then have free: "free_endpoint Map.empty 1 = Some 1" by (simp add: free_endpoint_def del: upt_rec_numeral)
  show ?thesis
    unfolding q s
    by (simp add: demo_calls_def spec_call_def spec_create_def free demo_body_def light_of_def demo_export_def Let_def)
qed

theorem requests_refine_service_witness:
  "\<exists>rs app' d'. serve_all demo_calls (demo_app, Map.empty) = (rs, app', d') \<and>
     list_all2 answers rs [RCreated (light_of 9), RExports [light_of 9]] \<and>
     surface_view (rs_plane (app_backend app')) 9 = Some (light_of 9)"
proof -
  obtain rs app' d' where s: "serve_all demo_calls (demo_app, Map.empty) = (rs, app', d')" using prod_cases3 by blast
  from requests_refine_service [OF s demo_calls_ok demo_app_inv demo_app_sync demo_app_view demo_calls_spec] s
  show ?thesis by (simp add: shown_exports_def light_of_def demo_export_def)
qed

section \<open>Restart\<close>

lemma bt_modify_same: "bt_sorted m \<Longrightarrow> bt_get m i = Some v \<Longrightarrow> bt_modify i (\<lambda>_. v) m = m"
  by (auto simp: bt_modify_def bt_get_entries intro!: map_idI intro: eq_key_imp_eq_value [OF bt_sorted_distinct])

lemma persist_then_durable:
  assumes "total_io env" and "persist_then (ie_codec env) (ie_fs env) out st d = (r, st', d')"
  shows "durable (ie_codec env) st' d'"
proof -
  have codec: "codec_round_trips (ie_codec env)" "healthy (ie_fs env)" using assms(1) by (simp_all add: total_io_def)
  obtain d1 u where "persist (ie_codec env) (ie_fs env) st d = (Inr (), d1)"
    using persist_total [OF codec] by blast
  with assms(2) persist_durable [OF codec_round_trips_faithful [OF codec(1)] this] show ?thesis
    by (simp add: persist_then_def)
qed

text \<open>
  A catalog operation on a working disk leaves everything alone or leaves the files with the catalog it leaves in
  memory.
\<close>

lemma create_durable:
  assumes "total_io env" and "create (ie_codec env) (ie_fs env) v4 body (st, d) = (r, st', d')"
  shows "(st' = st \<and> d' = d \<or> durable (ie_codec env) st' d') \<and> data_dir st' = data_dir st"
  using assms(2)
proof (cases rule: create_store)
  case unchanged
  then show ?thesis by simp
next
  case (inserted e ep)
  have "data_dir st' = data_dir st" by (simp add: inserted(1))
  with persist_then_durable [OF assms(1) inserted(8)] show ?thesis by simp
qed

lemma patch_durable:
  assumes "total_io env" and "catalog_inv st" and "atomic_patch body"
    and "patch (ie_codec env) (ie_fs env) i body (st, d) = (r, st', d')"
  shows "(st' = st \<and> d' = d \<or> durable (ie_codec env) st' d') \<and> data_dir st' = data_dir st"
proof (cases rule: patch_store [OF assms(4) catalog_inv_endpoint [OF assms(2)], case_names missing patched])
  case missing
  then show ?thesis by simp
next
  case (patched e e' q)
  obtain ep where ep: "endpoint_id e = Some ep" using patched(1) catalog_inv_endpoint [OF assms(2)] by blast
  show ?thesis
  proof (cases q)
    case (Inl err)
    with patched(2) patch_fields_patched [OF ep, of body] assms(3) have "e' = e" by (cases "valid_patch body") auto
    with patched Inl bt_modify_same [OF catalog_inv_sorted [OF assms(2)] patched(1)] show ?thesis by simp
  next
    case (Inr u)
    with patched(4) have "persist_then (ie_codec env) (ie_fs env) e' st' d = (r, st', d')" by simp
    with persist_then_durable [OF assms(1) this] patched(3) show ?thesis by simp
  qed
qed

lemma delete_durable:
  assumes "total_io env" and "delete (ie_codec env) (ie_fs env) i (st, d) = (r, st', d')"
  shows "(st' = st \<and> d' = d \<or> durable (ie_codec env) st' d') \<and> data_dir st' = data_dir st"
proof (cases "bt_get (by_id st) i")
  case None
  with assms(2) show ?thesis by (simp add: delete_def)
next
  case (Some e)
  with assms(2) have p: "persist_then (ie_codec env) (ie_fs env) e (st\<lparr>by_id := bt_remove i (by_id st)\<rparr>) d = (r, st', d')"
    by (simp add: delete_def)
  then have "data_dir st' = data_dir st" by (auto dest: persist_then_store)
  with persist_then_durable [OF assms(1) p] show ?thesis by simp
qed

lemma app_catalog_sync: "app_catalog (snd (sync_exports ops app)) = app_catalog app"
  by (simp add: sync_exports_def)

lemma call_durable:
  assumes "call_ok P (env, ops, req)" and "catalog_inv (app_catalog app)"
    and "route env ops req (app, d) = (r, app', d')"
  shows "(app_catalog app' = app_catalog app \<and> d' = d \<or> durable (ie_codec env) (app_catalog app') d') \<and>
    data_dir (app_catalog app') = data_dir (app_catalog app)"
proof -
  have env: "total_io env" using assms(1) by (simp add: call_ok_def)
  have kept: "app_catalog app' = st" if "sync_exports ops (app\<lparr>app_catalog := st\<rparr>) = (x, app')" for x st
    using app_catalog_sync [of ops "app\<lparr>app_catalog := st\<rparr>"] that by simp
  show ?thesis
  proof (cases req)
    case (PostExports v4 body)
    obtain q st e where c: "create (ie_codec env) (ie_fs env) v4 body (app_catalog app, d) = (q, st, e)"
      using prod_cases3 by blast
    with assms(3) PostExports have "app_catalog app' = st" "d' = e"
      by (auto simp: post_export_def split: sum.splits prod.splits dest: kept)
    with create_durable [OF env c] show ?thesis by simp
  next
    case (PatchExportId i body)
    obtain q st e where c: "patch (ie_codec env) (ie_fs env) i body (app_catalog app, d) = (q, st, e)"
      using prod_cases3 by blast
    with assms(3) PatchExportId have "app_catalog app' = st" "d' = e"
      by (auto simp: patch_export_handler_def split: sum.splits prod.splits dest: kept)
    with patch_durable [OF env assms(2) _ c] assms(1) PatchExportId show ?thesis by (simp add: call_ok_def)
  next
    case (DeleteExportId i)
    obtain q st e where c: "delete (ie_codec env) (ie_fs env) i (app_catalog app, d) = (q, st, e)"
      using prod_cases3 by blast
    with assms(3) DeleteExportId have "app_catalog app' = st" "d' = e"
      by (auto simp: delete_export_def split: sum.splits prod.splits dest: kept)
    with delete_durable [OF env c] show ?thesis by simp
  qed (use assms(3) in \<open>auto simp: keep_disk_def open_pairing_def close_pairing_def push_state_def take_commands_handler_def
      on_backend_eq Let_def split: sum.splits if_splits\<close>)
qed

lemma serve_all_durable:
  fixes xs :: "('t, rs_backend) call list"
  assumes "list_all (call_ok (\<lambda>ops. \<exists>re. ops = rs_ops re)) xs" and "list_all (\<lambda>(env, ops, req). ie_codec env = c) xs"
    and "serve_all xs (app, d) = (rs, app', d')" and "app_inv rs_inv app"
  shows "(app_catalog app' = app_catalog app \<and> d' = d \<or> durable c (app_catalog app') d') \<and> app_inv rs_inv app' \<and>
    data_dir (app_catalog app') = data_dir (app_catalog app)"
  using assms
proof (induction xs arbitrary: app d rs)
  case (Cons x xs)
  obtain env ops req where x: "x = (env, ops, req)" by (rule prod_cases3)
  obtain r app1 d1 where r: "route env ops req (app, d) = (r, app1, d1)" using prod_cases3 by blast
  obtain rs' where rs': "serve_all xs (app1, d1) = (rs', app', d')" using Cons.prems(3) x r by (auto split: prod.splits)
  have ok: "call_ok (\<lambda>ops. \<exists>re. ops = rs_ops re) (env, ops, req)" "ie_codec env = c" using Cons.prems(1,2) x by simp_all
  obtain re where ops: "ops = rs_ops re" using ok(1) by (auto simp: call_ok_def)
  have cat: "catalog_inv (app_catalog app)" using Cons.prems(4) by (simp add: app_inv_def)
  have "(app_catalog app1 = app_catalog app \<and> d1 = d \<or> durable c (app_catalog app1) d1) \<and>
      data_dir (app_catalog app1) = data_dir (app_catalog app)"
    using call_durable [OF ok(1) cat r] ok(2) by simp
  moreover have "app_inv rs_inv app1" using rs_contract.route_sync [OF Cons.prems(4) r [unfolded ops]] by simp
  ultimately show ?case using Cons.IH [OF _ _ rs'] Cons.prems(1,2) by auto
qed simp

text \<open>
  The files hold the catalog, or there are none yet and the catalog is the one a first start makes.
\<close>

definition saved :: "'t codec \<Rightarrow> string \<Rightarrow> string \<Rightarrow> catalog_store \<Rightarrow> 't disk \<Rightarrow> bool" where
  "saved c dir name st d \<longleftrightarrow> data_dir st = dir \<and>
     (durable c st d \<or> d config_file = None \<and> d exports_file = None \<and> st = catalog_new dir name)"

lemma load_saved:
  assumes "saved c dir name st d" and "catalog_inv st" and "healthy env"
  shows "\<exists>n'. load_or_new c env dir name d = (Inr (st\<lparr>next_endpoint := n'\<rparr>), d) \<and> next_endpoint st \<le> n'"
proof (cases "durable c st d")
  case True
  with load_durable [OF True assms(2,3), of name] assms(1) show ?thesis by (auto simp: saved_def)
next
  case False
  with assms(1,3) have "load_or_new c env dir name d = (Inr st, d)"
    by (simp add: saved_def load_or_new_def fs_create_dir_all_def load_config_def load_exports_def fs_exists_def healthy_def)
  then show ?thesis by (intro exI [of _ "next_endpoint st"]) simp
qed

text \<open>C8: A restart keeps the bridge: after any requests on a working disk, none of them a patch that is refused after
  part of it was applied, a process that stops and is started again on the data directory shows the same Matter
  endpoints for the same exports as the one before, has the same catalog and bridge name and a cursor that is not
  behind. What it loses is the queue of commands that Home Assistant has not polled, and what a patch left that
  was refused halfway. The process before is one whose bridge shows its catalog and whose files hold it, or which
  was started without files.\<close>

theorem restart_keeps_bridge:
  fixes xs :: "('t, rs_backend) call list"
  assumes "list_all (call_ok (\<lambda>ops. \<exists>re. ops = rs_ops re)) xs" and "list_all (\<lambda>(env, ops, req). ie_codec env = c) xs"
    and "serve_all xs (app, d) = (rs, app', d')" and "app_inv rs_inv app" and "in_sync rs_known app"
    and "surface_view (rs_plane (app_backend app)) = bridged_view (app_catalog app)"
    and "saved c (cfg_data_dir cfg) (cfg_bridge_name cfg) (app_catalog app) d" and "healthy env"
    and "\<And>b. spawn_result senv b (rv_spawn re b)"
    and "main_start display cfg c env (rs_ops re) (rs_new mc env rng n codes rnd (mdns_interface cfg)) d' = Some (Inr app2, d2)"
  shows "surface_view (rs_plane (app_backend app2)) = surface_view (rs_plane (app_backend app')) \<and>
    catalog_get (app_catalog app2) = catalog_get (app_catalog app') \<and>
    bridge_name (app_catalog app2) = bridge_name (app_catalog app') \<and>
    next_endpoint (app_catalog app') \<le> next_endpoint (app_catalog app2) \<and>
    app_inv rs_inv app2 \<and> in_sync rs_known app2 \<and> rs_queued (app_backend app2) = []"
proof -
  have end1: "saved c (cfg_data_dir cfg) (cfg_bridge_name cfg) (app_catalog app') d'" "app_inv rs_inv app'"
    using serve_all_durable [OF assms(1-4)] assms(7) by (auto simp: saved_def)
  have "serves rs_known rs_queued rs_inv (\<lambda>b. surface_view (rs_plane b)) shown_exports app
      (service_of (app_catalog app) (rs_queued (app_backend app)))"
    using assms(4-6) by (simp add: serves_def bridged_view_shown service_of_def)
  from requests_serve [OF assms(1,3) this]
  have view: "surface_view (rs_plane (app_backend app')) = bridged_view (app_catalog app')"
    by (simp add: serves_def service_of_def bridged_view_shown)
  obtain st d1 where s: "allow_non_loopback cfg \<or> ip_is_loopback (sock_ip (listen cfg))"
    "load_or_new c env (cfg_data_dir cfg) (cfg_bridge_name cfg) d' = (Inr st, d1)" "app_catalog app2 = st"
    "catalog_inv st \<longrightarrow> app_inv rs_inv app2 \<and> in_sync rs_known app2 \<and> surface_view (rs_plane (app_backend app2)) = bridged_view st"
    "rs_queued (app_backend app2) = []"
    by (rule main_start_rs [OF assms(9,10)])
  have cat: "catalog_inv (app_catalog app')" using end1(2) by (simp add: app_inv_def)
  obtain n' where "st = (app_catalog app')\<lparr>next_endpoint := n'\<rparr>" "next_endpoint (app_catalog app') \<le> n'"
    using load_saved [OF end1(1) cat assms(8)] s(2) by auto
  with s(3-5) view cat show ?thesis by (simp add: bridged_view_shown catalog_inv_def catalog_get_abs)
qed

lemma plain_disk_durable: "durable plain_codec st (plain_disk st d)"
  by (simp add: durable_def plain_disk_def plain_codec_def config_of_def file_names)

theorem restart_keeps_bridge_witness:
  "\<exists>rs app' d' app2 d2. serve_all demo_calls (demo_app, Map.empty) = (rs, app', d') \<and>
     main_start (\<lambda>_. ''[::1]:18465'') demo_config plain_codec ok_env (rs_ops demo_re)
       (rs_new any_material ok_env demo_rng 3840 (\<lambda>_. demo_pairing) 7 (mdns_interface demo_config)) d' = Some (Inr app2, d2) \<and>
     surface_view (rs_plane (app_backend app2)) = surface_view (rs_plane (app_backend app')) \<and>
     catalog_get (app_catalog app') 9 = Some (light_of 9)"
proof -
  let ?d = "Map.empty :: (persisted_config + persisted_exports) disk"
  let ?d1 = "plain_disk (one_light 9) ?d"
  obtain app' where s: "serve_all demo_calls (demo_app, ?d) =
      ([\<lparr>resp_status = 201, resp_body = ExportBody (light_of 9)\<rparr>, list_exports app'], app', ?d1)" "app_catalog app' = one_light 9"
    by (simp add: demo_calls_def demo_ipc_env_def post_export_def demo_app_fields demo_create rs_contract.sync_exports_effect)
  have inv: "catalog_inv (one_light 9)"
    using create_inv [OF _ demo_create [of 9]] by (simp add: catalog_inv_def catalog_new_def exports_inv_empty)
  have dir: "data_dir (one_light 9) = ''/data''" by (simp add: one_light_def)
  have new: "saved plain_codec (cfg_data_dir demo_config) (cfg_bridge_name demo_config) (app_catalog demo_app) ?d"
    by (simp add: saved_def demo_app_fields catalog_new_def demo_config_def)
  obtain n where l: "load_or_new plain_codec ok_env ''/data'' ''Home'' ?d1 = (Inr ((one_light 9)\<lparr>next_endpoint := n\<rparr>), ?d1)"
    using load_durable [OF plain_disk_durable inv ok_env_healthy] unfolding dir by blast
  have free: "?d1 commissioning_file = None"
    by (simp add: plain_disk_def file_names commissioning_file_def)
  obtain app2 d2 where m: "main_start (\<lambda>_. ''[::1]:18465'') demo_config plain_codec ok_env (rs_ops demo_re)
       (rs_new any_material ok_env demo_rng 3840 (\<lambda>_. demo_pairing) 7 (mdns_interface demo_config)) ?d1 = Some (Inr app2, d2)"
    using demo_main_start_from [OF l free] by blast
  have "list_all (\<lambda>(env, ops, req). ie_codec env = plain_codec) demo_calls"
    by (simp add: demo_calls_def demo_ipc_env_def)
  note restart = restart_keeps_bridge [OF demo_calls_ok this s(1) demo_app_inv demo_app_sync demo_app_view
      new ok_env_healthy _ m, of demo_stack_env]
  have "spawn_result demo_stack_env b (rv_spawn demo_re b)" for b by (simp add: demo_re_def demo_spawn_result)
  with restart have "surface_view (rs_plane (app_backend app2)) = surface_view (rs_plane (app_backend app'))" by blast
  moreover have "catalog_get (app_catalog app') 9 = Some (light_of 9)"
    by (simp add: s(2) one_light_def catalog_get_def bt_get_def)
  ultimately show ?thesis using s(1) m by blast
qed

section \<open>From Home Assistant to a controller\<close>

text \<open>What a pushed state makes a bridged endpoint read as: the cluster, its attribute and the value.\<close>

definition pushed_reading :: "export \<Rightarrow> ha_state_value list \<Rightarrow> (cluster_id \<times> attr_id \<times> attr_value) option" where
  "pushed_reading e sts =
     (if is_on_off_capable (ex_type e)
      then map_option (\<lambda>on. (cl_id on_off_cluster, AOnOff, VBool on)) (on_off_from_states e sts)
      else if ex_type e = Contact
      then map_option (\<lambda>on. (cl_id boolean_state_cluster, AStateValue, VBool (\<not> on))) (primary_ha_on e sts)
      else if ex_type e = Motion
      then map_option (\<lambda>on. (cl_id occupancy_cluster, AOccupancy, VOccupancy (occupancy_bitmap on))) (primary_ha_on e sts)
      else Option.bind (primary_cover_state e sts) (\<lambda>ha. map_option (\<lambda>pos.
        (cl_id window_covering_cluster, ACurrentPositionLiftPercent100ths, VPercent (ha_position_to_percent100ths pos)))
        (ha_position ha)))"

lemmas cluster_ids = on_off_cluster_def boolean_state_cluster_def occupancy_cluster_def window_covering_cluster_def
  desc_cluster_def bridged_info_cluster_def


lemma pushed_state_read:
  assumes "state_inv (pl_state p)" and "slot_for (pl_state p) i = Some s"
    and "pushed_reading (sl_export s) sts = Some (cl, a, v)" and "apply_state i sts p = (n, p')"
  shows "\<exists>s' dv. slot_for (pl_state p') i = Some s' \<and> n = of_nat (length sts) \<and>
    plane_read flags (matter_endpoint s) cl a p' = Inr (ClusterAttr dv (Some v)) \<and>
    (if kind s' = kind s then plane_read flags (matter_endpoint s) cl a p = Inr (ClusterAttr (functional_dataver s) (Some v))
     else wake p' \<and> pending_reports s' AND REPORT_FUNCTIONAL \<noteq> 0 \<and> (matter_endpoint s, cl, a) \<in> set (functional_reports s'))"
proof -
  note spec = apply_state_spec [OF assms(1,4)]
  have inv': "state_inv (pl_state p')" using apply_state_inv [OF assms(1), of i sts] assms(4) by simp
  obtain s' where s': "slot_for (pl_state p') i = Some s'" using spec assms(2) by blast
  have "sl_export s' = sl_export s"
    using fun_cong [OF apply_state_view [OF assms(1), of i sts], of i] assms(2,4) s' by (simp add: surface_view_def)
  with slot_for_placed(4) [OF assms(1,2)] slot_for_placed(4) [OF inv' s']
  have ep: "matter_endpoint s' = matter_endpoint s" by simp
  have at: "slot_at (pl_state p) (matter_endpoint s) = Some s" "slot_at (pl_state p') (matter_endpoint s) = Some s'"
    using slot_for_placed(1) [OF assms(1,2)] slot_for_placed(1) [OF inv' s'] ep by simp_all
  have "1 < matter_endpoint s"
    using assms(1) slot_for_Some [OF assms(2)] by (auto simp: state_inv_def list_all_iff slot_placed_def)
  then have agg: "matter_endpoint s \<noteq> AGGREGATOR_ENDPOINT_ID" by (auto simp: AGGREGATOR_ENDPOINT_ID_def)
  have "slot_ok s" by (rule slot_for_placed(2) [OF assms(1,2)])
  then have fits: "kind_fits (ex_type (sl_export s)) (kind s)" by (simp add: slot_ok_def)
  have k: "kind s' = (case kind s of
              KOnOff on \<Rightarrow> KOnOff (case on_off_from_states (sl_export s) sts of None \<Rightarrow> on | Some v \<Rightarrow> v)
            | KContact c \<Rightarrow> KContact (case primary_ha_on (sl_export s) sts of None \<Rightarrow> c | Some v \<Rightarrow> \<not> v)
            | KMotion m \<Rightarrow> KMotion (case primary_ha_on (sl_export s) sts of None \<Rightarrow> m | Some v \<Rightarrow> v)
            | KCover x t m \<Rightarrow> (case primary_cover_state (sl_export s) sts of
                  None \<Rightarrow> KCover x t m | Some ha \<Rightarrow> kind (snd (apply_cover_ha ha s))))"
    "wake p' = (wake p \<or> kind s' \<noteq> kind s)"
    "pending_reports s' = (if kind s' = kind s then pending_reports s else pending_reports s OR REPORT_FUNCTIONAL)"
    using spec assms(2) s' by auto
  have bit: "kind s' \<noteq> kind s \<Longrightarrow> pending_reports s' AND REPORT_FUNCTIONAL \<noteq> 0"
    by (simp add: k(3) word_or_and_self REPORT_FUNCTIONAL_def)
  have n: "n = of_nat (length sts)" using spec assms(2) by simp
  have read: "plane_read flags (matter_endpoint s) cl a p' = Inr (ClusterAttr (functional_dataver s') (Some v)) \<and>
      (kind s' = kind s \<longrightarrow> plane_read flags (matter_endpoint s) cl a p = Inr (ClusterAttr (functional_dataver s) (Some v))) \<and>
      (matter_endpoint s, cl, a) \<in> set (functional_reports s')"
  proof (cases "kind s")
    case (KCover x t m)
    with fits assms(3) obtain ha pos where ha: "primary_cover_state (sl_export s) sts = Some ha" "ha_position ha = Some pos"
      "cl = CWindowCovering" "a = ACurrentPositionLiftPercent100ths" "v = VPercent (ha_position_to_percent100ths pos)"
      by (auto simp: pushed_reading_def cluster_ids is_on_off_capable_iff bind_eq_Some_conv split: if_splits)
    obtain ch s2 where "apply_cover_ha ha s = (ch, s2)" by fastforce
    from apply_cover_ha_effect [OF KCover this] this ha(2) k(1) KCover ha(1)
    obtain t' m' where "kind s' = KCover pos t' m'" by auto
    with KCover ha at agg ep show ?thesis
      by (auto simp: plane_read_def cluster_ids window_covering_read_def cover_position_def functional_reports_def Let_def)
  qed (use fits assms(3) k(1) at agg ep in \<open>auto simp: pushed_reading_def is_on_off_capable_iff plane_read_def cluster_ids
      on_off_read_def boolean_state_read_def occupancy_read_def slot_reads functional_reports_def Let_def\<close>)
  with s' n k(2) bit show ?thesis by auto
qed

text \<open>C10: A state pushed by Home Assistant reaches the controllers: if the body carries a state for the entity of a bridged
  export that its device type can read, the request is accepted, the Matter endpoint reads as that value at once
  (on/off, contact, occupancy or position of the covering), and unless it read so before, the stack is woken and
  the next iteration of its loop ends and notifies the subscribers of that attribute, whatever else it finds to do
  and whether the bump of the configuration succeeds or fails. The plane is one in which no generation is
  acknowledged that was not requested, as every iteration leaves it (\<open>run_iteration_outcome\<close>).\<close>

theorem pushed_state_reaches_controllers:
  assumes "app_inv rs_inv app" and "surface_view (rs_plane (app_backend app)) i = Some e" and "endpoint_id e = Some ep"
    and "catalog_get (app_catalog app) i \<noteq> None" and "parse_state_body (ie_de_state env) body = Inr sts"
    and "pushed_reading e sts = Some (cl, a, v)"
    and "route env (rs_ops re) (PostState i body) (app, d) = (r, app', d')"
    and "config_sane (rs_plane (app_backend app))" and "re_bumps renv = b # bs"
  shows "r = ok_json (PushBody \<lparr>push_applied = of_nat (length sts)\<rparr>) \<and>
    (\<exists>dv. plane_read flags (ep + 1) cl a (rs_plane (app_backend app')) = Inr (ClusterAttr dv (Some v))) \<and>
    ((\<exists>dv. plane_read flags (ep + 1) cl a (rs_plane (app_backend app)) = Inr (ClusterAttr dv (Some v))) \<or>
     wake (rs_plane (app_backend app')) \<and>
     (\<exists>notes calls p'. run_iteration renv (rs_plane (app_backend app')) = Some (notes, calls, p') \<and>
        AttrChanged (ep + 1) cl a \<in> set notes))"
proof -
  let ?p = "rs_plane (app_backend app)"
  have inv: "state_inv (pl_state ?p)" using assms(1) by (simp add: app_inv_def rs_inv_def)
  obtain s where s: "slot_for (pl_state ?p) i = Some s" "sl_export s = e"
    using assms(2) by (auto simp: surface_view_def)
  have ep: "matter_endpoint s = ep + 1"
    using slot_for_placed(4) [OF inv s(1)] assms(3) s(2) by (auto simp: matter_endpoint_of_def checked_add_def split: if_splits)
  obtain n p1 where push: "apply_state i sts ?p = (n, p1)" by fastforce
  have res: "r = ok_json (PushBody \<lparr>push_applied = n\<rparr>)" "app' = app\<lparr>app_backend := (app_backend app)\<lparr>rs_plane := p1\<rparr>\<rparr>"
    using assms(4,5,7) push
    by (auto simp: keep_disk_def push_state_def on_backend_eq rs_ops_def rs_apply_result split: if_splits)
  obtain s' dv where s': "slot_for (pl_state p1) i = Some s'" "n = of_nat (length sts)"
    "plane_read flags (ep + 1) cl a p1 = Inr (ClusterAttr dv (Some v))"
    "if kind s' = kind s then plane_read flags (ep + 1) cl a ?p = Inr (ClusterAttr (functional_dataver s) (Some v))
     else wake p1 \<and> pending_reports s' AND REPORT_FUNCTIONAL \<noteq> 0 \<and> (ep + 1, cl, a) \<in> set (functional_reports s')"
    using pushed_state_read [OF inv s(1) _ push, of cl a v flags] s(2) assms(6) unfolding ep by blast
  have notified: "\<exists>notes calls p'. run_iteration renv p1 = Some (notes, calls, p') \<and> AttrChanged (ep + 1) cl a \<in> set notes"
    if "kind s' \<noteq> kind s"
  proof -
    have "config_requested p1 = config_requested ?p \<and> config_applied p1 = config_applied ?p"
      using push by (auto simp: apply_state_def put_slot_def Let_def split: option.splits prod.splits if_splits)
    with assms(8) have "config_sane p1" by (simp add: config_sane_def)
    note run = run_iteration_outcome [OF this assms(9)]
    have "(ep + 1, cl, a) \<in> set (slot_reports s')" using s'(4) that by (simp add: slot_reports_def Let_def)
    moreover have "s' \<in> set (slots (pl_state p1))" using slot_for_Some [OF s'(1)] by simp
    ultimately have "(ep + 1, cl, a) \<in> set (concat (map slot_reports (slots (pl_state p1))))" by auto
    then have "AttrChanged (ep + 1) cl a \<in> (\<lambda>(ep, cl, a). AttrChanged ep cl a) ` set (concat (map slot_reports (slots (pl_state p1))))"
      by (rule rev_image_eqI) simp
    then have "AttrChanged (ep + 1) cl a \<in> set (xs @ map (\<lambda>(ep, cl, a). AttrChanged ep cl a) (concat (map slot_reports (slots (pl_state p1)))))" for xs
      by (simp only: set_append set_map Un_iff simp_thms)
    with run show ?thesis by blast
  qed
  have now: "plane_read flags (ep + 1) cl a (rs_plane (app_backend app')) = Inr (ClusterAttr dv (Some v))"
    using s'(3) by (simp add: res(2))
  show ?thesis
  proof (cases "kind s' = kind s")
    case True
    with s'(4) have "plane_read flags (ep + 1) cl a ?p = Inr (ClusterAttr (functional_dataver s) (Some v))" by simp
    with res(1) s'(2) now show ?thesis by blast
  next
    case False
    with s'(4) have "wake (rs_plane (app_backend app'))" by (simp add: res(2))
    moreover have "\<exists>notes calls p'. run_iteration renv (rs_plane (app_backend app')) = Some (notes, calls, p') \<and>
        AttrChanged (ep + 1) cl a \<in> set notes"
      using notified [OF False] by (simp add: res(2))
    ultimately show ?thesis using res(1) s'(2) now by blast
  qed
qed

definition demo_push_env :: "(persisted_config + persisted_exports) ipc_env" where
  "demo_push_env = demo_ipc_env\<lparr>ie_de_state := \<lparr>de_update = (\<lambda>_. None),
     de_value = (\<lambda>_. Some \<lparr>entity_id = ''light.a'', ha_state = ''on'', attributes = []\<rparr>)\<rparr>\<rparr>"

theorem pushed_state_reaches_controllers_witness:
  "\<exists>app d app' dv. route demo_push_env (rs_ops demo_re) (PostState 9 ''{}'') (app, d) =
       (ok_json (PushBody \<lparr>push_applied = 1\<rparr>), app', d) \<and>
     plane_read 63 2 COnOff AOnOff (rs_plane (app_backend app')) = Inr (ClusterAttr dv (Some (VBool True)))"
proof -
  obtain app d where p: "route demo_ipc_env (rs_ops demo_re) (PostExports 9 (demo_body ''Lamp'')) (demo_app, Map.empty) =
     (\<lparr>resp_status = 201, resp_body = ExportBody (light_of 9)\<rparr>, app, d)" "app_catalog app = one_light 9"
    using demo_post by blast
  have inv: "app_inv rs_inv app" using rs_contract.route_sync [OF demo_app_inv p(1)] by simp
  have b: "app_backend app = snd (be_set_exports (rs_ops demo_re) (catalog_list (one_light 9)) demo_rs)"
    using p by (auto simp: demo_ipc_env_def post_export_def demo_app_fields demo_create rs_contract.sync_exports_effect)
  have "rs_inv demo_rs" using demo_app_inv by (simp add: app_inv_def demo_app_fields)
  moreover have "catalog_inv (one_light 9)" using inv p(2) by (simp add: app_inv_def)
  ultimately have view: "surface_view (rs_plane (app_backend app)) 9 = Some (light_of 9)"
    unfolding b by (simp add: rs_shows.set_exports_shown)
      (simp add: shown_exports_def catalog_get_def one_light_def bt_get_def light_of_def demo_export_def)
  have sane: "config_sane (rs_plane (app_backend app))"
    unfolding b by (simp add: config_sane_def rs_ops_def rs_set_exports_def snd_on_plane set_exports_def Let_def demo_rs_def
        demo_ready_plane_def note_startup_commissioning_state_def plane_new_def)
  have on: "on_off_from_states (light_of 9) [\<lparr>entity_id = ''light.a'', ha_state = ''on'', attributes = []\<rparr>] = Some True"
  proof -
    have "ha_state_is_on ''on'' = Some True" by code_simp
    then show ?thesis
      by (simp add: on_off_from_states_def primary_state_def light_of_def demo_export_def is_on_off_capable_def)
  qed
  have "parse_state_body (ie_de_state demo_push_env) ''{}'' = Inr [\<lparr>entity_id = ''light.a'', ha_state = ''on'', attributes = []\<rparr>]"
    by (simp add: parse_state_body_def demo_push_env_def)
  moreover have "pushed_reading (light_of 9) [\<lparr>entity_id = ''light.a'', ha_state = ''on'', attributes = []\<rparr>] =
      Some (COnOff, AOnOff, VBool True)"
    by (simp add: pushed_reading_def on cluster_ids) (simp add: light_of_def demo_export_def is_on_off_capable_def)
  moreover have "endpoint_id (light_of 9) = Some 1" "catalog_get (app_catalog app) 9 \<noteq> None" "re_bumps demo_run_env = [True]"
    by (simp_all add: light_of_def demo_export_def p(2) one_light_def catalog_get_def bt_get_def demo_run_env_def)
  moreover obtain r app' d' where r: "route demo_push_env (rs_ops demo_re) (PostState 9 ''{}'') (app, d) = (r, app', d')"
    using prod_cases3 by blast
  ultimately have "r = ok_json (PushBody \<lparr>push_applied = 1\<rparr>) \<and>
    (\<exists>dv. plane_read 63 2 COnOff AOnOff (rs_plane (app_backend app')) = Inr (ClusterAttr dv (Some (VBool True))))"
    using pushed_state_reaches_controllers [OF inv view, of 1 demo_push_env "''{}''"
        "[\<lparr>entity_id = ''light.a'', ha_state = ''on'', attributes = []\<rparr>]" COnOff AOnOff "VBool True" demo_re d r app' d'
        demo_run_env True "[]" 63] sane by simp
  moreover have "d' = d" using r by (simp add: keep_disk_def)
  ultimately show ?thesis using r by blast
qed

end
