(* ===== verification/Concurrent_Requests.thy ===== *)
theory Concurrent_Requests
  imports Bridge_Surface "HOL-Library.Multiset"
begin

text \<open>
  Requests at the same time (\<open>ipc/handlers.rs\<close>): the steps between which the catalog lock is free, the
  catalogs a run goes through, what the bridge shows meanwhile and at the end, and the order in which the
  requests take effect.
\<close>

section \<open>Steps\<close>

text \<open>
  Clients that change the catalog, push states and poll commands at the same time. The catalog lock is held for
  the mutation and again for the listing of \<open>sync_exports\<close>, and the call of the backend happens after the
  second lock is released; between these three steps other requests run. A push holds the lock for the check
  that its export exists and calls the backend after it; a poll is one call of the backend. The bodies are
  decoded, the ones that are refused before any step do nothing.
\<close>

datatype client_op =
    ClientCreate uuid create_export
  | ClientPatch uuid patch_export
  | ClientDelete uuid

definition run_op :: "'t codec \<Rightarrow> 't fs_env \<Rightarrow> client_op \<Rightarrow> catalog_store \<times> 't disk \<Rightarrow> (catalog_error + export) \<times> catalog_store \<times> 't disk" where
  "run_op c env x =
     (case x of ClientCreate v4 body \<Rightarrow> create c env v4 body | ClientPatch i body \<Rightarrow> patch c env i body | ClientDelete i \<Rightarrow> delete c env i)"

datatype client_pc =
    Pending client_op
  | Mutated export
  | Listed export "export list"
  | Answered export
  | Refused catalog_error
  | Pushing uuid "ha_state_value list"
  | Checked uuid "ha_state_value list"
  | Pushed u32
  | Polling
  | Polled "command_request list"

text \<open>
  \<open>cc_log\<close> is not in the program: the accesses in which requests take effect, in the order the catalog lock
  and the queue of commands were held for them, with the number of the client and what it is answered.
\<close>

datatype conc_event =
    MutationDone nat client_op "catalog_error + export"
  | PollDone nat "command_request list"

record ('b, 't) conc =
  cc_app :: "'b app_state"
  cc_disk :: "'t disk"
  cc_clients :: "client_pc list"
  cc_log :: "conc_event list"

text \<open>
  \<open>fs\<close> says which faults the files may have, and \<open>ops\<close> are the operations of the backend for each answer of
  its surroundings; every step takes its own.
\<close>

inductive conc_step ::
  "'t codec \<Rightarrow> ('t fs_env \<Rightarrow> bool) \<Rightarrow> ('w \<Rightarrow> 'b backend_ops) \<Rightarrow> ('b, 't) conc \<Rightarrow> ('b, 't) conc \<Rightarrow> bool"
  for c fs ops where
  mutate: "k < length (cc_clients s) \<Longrightarrow> cc_clients s ! k = Pending x \<Longrightarrow> fs env \<Longrightarrow>
    run_op c env x (app_catalog (cc_app s), cc_disk s) = (Inr e, st, d) \<Longrightarrow>
    conc_step c fs ops s (s\<lparr>cc_app := (cc_app s)\<lparr>app_catalog := st\<rparr>, cc_disk := d,
      cc_clients := (cc_clients s)[k := Mutated e], cc_log := cc_log s @ [MutationDone k x (Inr e)]\<rparr>)"
| refuse: "k < length (cc_clients s) \<Longrightarrow> cc_clients s ! k = Pending x \<Longrightarrow> fs env \<Longrightarrow>
    run_op c env x (app_catalog (cc_app s), cc_disk s) = (Inl err, st, d) \<Longrightarrow>
    conc_step c fs ops s (s\<lparr>cc_app := (cc_app s)\<lparr>app_catalog := st\<rparr>, cc_disk := d,
      cc_clients := (cc_clients s)[k := Refused err], cc_log := cc_log s @ [MutationDone k x (Inl err)]\<rparr>)"
| listing: "k < length (cc_clients s) \<Longrightarrow> cc_clients s ! k = Mutated e \<Longrightarrow>
    conc_step c fs ops s (s\<lparr>cc_clients := (cc_clients s)[k := Listed e (catalog_list (app_catalog (cc_app s)))]\<rparr>)"
| push: "k < length (cc_clients s) \<Longrightarrow> cc_clients s ! k = Listed e xs \<Longrightarrow>
    be_set_exports (ops w) xs (app_backend (cc_app s)) = (Inr (), b) \<Longrightarrow>
    conc_step c fs ops s (s\<lparr>cc_app := (cc_app s)\<lparr>app_backend := b\<rparr>, cc_clients := (cc_clients s)[k := Answered e]\<rparr>)"
| check: "k < length (cc_clients s) \<Longrightarrow> cc_clients s ! k = Pushing i states \<Longrightarrow>
    pc = (if catalog_get (app_catalog (cc_app s)) i = None then Refused (NotFound i) else Checked i states) \<Longrightarrow>
    conc_step c fs ops s (s\<lparr>cc_clients := (cc_clients s)[k := pc]\<rparr>)"
| apply_push: "k < length (cc_clients s) \<Longrightarrow> cc_clients s ! k = Checked i states \<Longrightarrow>
    be_apply_state (ops w) i states (app_backend (cc_app s)) = (Inr n, b) \<Longrightarrow>
    conc_step c fs ops s (s\<lparr>cc_app := (cc_app s)\<lparr>app_backend := b\<rparr>, cc_clients := (cc_clients s)[k := Pushed n]\<rparr>)"
| poll: "k < length (cc_clients s) \<Longrightarrow> cc_clients s ! k = Polling \<Longrightarrow>
    be_take_commands (ops w) (app_backend (cc_app s)) = (cmds, b) \<Longrightarrow>
    conc_step c fs ops s (s\<lparr>cc_app := (cc_app s)\<lparr>app_backend := b\<rparr>, cc_clients := (cc_clients s)[k := Polled cmds],
      cc_log := cc_log s @ [PollDone k cmds]\<rparr>)"

text \<open>A run, with the catalogs there were in it.\<close>

inductive conc_run ::
  "'t codec \<Rightarrow> ('t fs_env \<Rightarrow> bool) \<Rightarrow> ('w \<Rightarrow> 'b backend_ops) \<Rightarrow> ('b, 't) conc \<Rightarrow> catalog_store list \<Rightarrow> ('b, 't) conc \<Rightarrow> bool"
  for c fs ops s0 where
  start: "conc_run c fs ops s0 [app_catalog (cc_app s0)] s0"
| step: "conc_run c fs ops s0 H s \<Longrightarrow> conc_step c fs ops s s' \<Longrightarrow> conc_run c fs ops s0 (H @ [app_catalog (cc_app s')]) s'"

lemma run_op_inv:
  assumes "catalog_inv st" and "run_op c env x (st, d) = (r, st', d')"
  shows "catalog_inv st'"
  using assms(2) create_inv [OF assms(1)] patch_inv [OF assms(1)] delete_inv [OF assms(1)]
  by (auto simp: run_op_def split: client_op.splits)

text \<open>What the three calls of the backend do to what the bridge shows.\<close>

lemma rs_set_shows:
  assumes "catalog_inv st" and "rs_inv b0" and "be_set_exports (rs_ops w) (catalog_list st) b0 = (r, b)"
  shows "rs_inv b \<and> surface_view (rs_plane b) = bridged_view st \<and> rs_known b = dom (bt_get (by_id st))"
  using assms(3) rs_contract.set_exports_inv [OF assms(2) catalog_list_ids(1) [OF assms(1)], of w]
    rs_shows.set_exports_shown [OF assms(1,2), of w] catalog_list_ids(2) [OF assms(1)]
    rs_contract.set_exports_known [of w "catalog_list st" b0]
  by (simp add: bridged_view_shown)

lemma rs_apply_keeps:
  assumes "rs_inv b0" and "be_apply_state (rs_ops w) i states b0 = (r, b)"
  shows "rs_inv b \<and> surface_view (rs_plane b) = surface_view (rs_plane b0) \<and> rs_known b = rs_known b0"
  using assms(2) rs_contract.apply_inv [OF assms(1), of w i states] rs_shows.apply_shown [OF assms(1), of w i states]
    rs_contract.apply_frame(1) [of w i states b0]
  by simp

lemma rs_take_keeps:
  assumes "rs_inv b0" and "be_take_commands (rs_ops w) b0 = (cmds, b)"
  shows "rs_inv b \<and> surface_view (rs_plane b) = surface_view (rs_plane b0) \<and> rs_known b = rs_known b0"
  using assms(2) rs_contract.take_inv [OF assms(1), of w] rs_shows.take_shown [of w b0] rs_contract.take_frame(2) [of w b0]
  by simp

lemmas clients_update = set_update_subset_insert [THEN subsetD]

text \<open>Every list on its way to the bridge, and what the bridge shows, is a catalog of the run.\<close>

definition conc_inv :: "catalog_store list \<Rightarrow> (rs_backend, 't) conc \<Rightarrow> bool" where
  "conc_inv H s \<longleftrightarrow>
     list_all catalog_inv H \<and> app_catalog (cc_app s) \<in> set H \<and> rs_inv (app_backend (cc_app s)) \<and>
     (\<forall>e xs. Listed e xs \<in> set (cc_clients s) \<longrightarrow> (\<exists>st \<in> set H. xs = catalog_list st)) \<and>
     (\<exists>st \<in> set H. surface_view (rs_plane (app_backend (cc_app s))) = bridged_view st \<and>
        rs_known (app_backend (cc_app s)) = dom (bt_get (by_id st)))"

lemma conc_inv_more: "conc_inv H s \<Longrightarrow> catalog_inv st \<Longrightarrow> conc_inv (H @ [st]) s"
  by (auto simp: conc_inv_def)

lemma conc_step_inv:
  assumes "conc_step c fs rs_ops s s'" and "conc_inv H s"
  shows "conc_inv (H @ [app_catalog (cc_app s')]) s'"
  using assms
proof (induction rule: conc_step.induct)
  case (mutate k s x env e st d)
  have "catalog_inv st"
    using mutate(5) by (intro run_op_inv [OF _ mutate(4)]) (auto simp: conc_inv_def list_all_iff)
  with conc_inv_more [OF mutate(5) this] show ?case
    by (auto simp: conc_inv_def dest!: clients_update)
next
  case (refuse k s x env err st d)
  have "catalog_inv st"
    using refuse(5) by (intro run_op_inv [OF _ refuse(4)]) (auto simp: conc_inv_def list_all_iff)
  with conc_inv_more [OF refuse(5) this] show ?case
    by (auto simp: conc_inv_def dest!: clients_update)
next
  case (listing k s e)
  then show ?case by (auto simp: conc_inv_def list_all_iff dest!: clients_update)
next
  case (push k s e xs w b)
  have "Listed e xs \<in> set (cc_clients s)" using push(1,2) by (metis nth_mem)
  then obtain st where st: "st \<in> set H" "xs = catalog_list st" using push(4) unfolding conc_inv_def by blast
  have cat: "catalog_inv st" using push(4) st(1) by (simp add: conc_inv_def list_all_iff)
  have good: "rs_inv (app_backend (cc_app s))" using push(4) by (simp add: conc_inv_def)
  note rs_set_shows [OF cat good push(3) [unfolded st(2)]]
  with push(4) st(1) show ?case
    by (auto simp: conc_inv_def list_all_iff dest!: clients_update)
next
  case (check k s i states pc)
  then show ?case by (auto simp: conc_inv_def list_all_iff split: if_splits dest!: clients_update)
next
  case (apply_push k s i states w n b)
  have "rs_inv (app_backend (cc_app s))" using apply_push(4) by (simp add: conc_inv_def)
  note rs_apply_keeps [OF this apply_push(3)]
  with apply_push(4) show ?case
    by (auto simp: conc_inv_def list_all_iff dest!: clients_update)
next
  case (poll k s w cmds b)
  have "rs_inv (app_backend (cc_app s))" using poll(4) by (simp add: conc_inv_def)
  note rs_take_keeps [OF this poll(3)]
  with poll(4) show ?case
    by (auto simp: conc_inv_def list_all_iff dest!: clients_update)
qed

lemma conc_run_inv:
  assumes "conc_run c fs rs_ops s0 H s" and "conc_inv [app_catalog (cc_app s0)] s0"
  shows "conc_inv H s"
  using assms by (induction rule: conc_run.induct) (simp_all add: conc_step_inv)

text \<open>A command of a controller is in the answer of one poll or still queued, never both and never gone.\<close>

fun handed :: "client_pc \<Rightarrow> command_request multiset" where
  "handed (Polled cmds) = mset cmds"
| "handed _ = {#}"

definition conc_commands :: "('b \<Rightarrow> command_request list) \<Rightarrow> ('b, 't) conc \<Rightarrow> command_request multiset" where
  "conc_commands queued s = sum_list (map handed (cc_clients s)) + mset (queued (app_backend (cc_app s)))"

lemma handed_update:
  assumes "k < length xs" and "handed (xs ! k) = {#}"
  shows "sum_list (map handed (xs[k := x])) = sum_list (map handed xs) + handed x"
proof -
  have "map handed xs = map handed (take k xs) @ handed (xs ! k) # map handed (drop (Suc k) xs)"
    using id_take_nth_drop [OF assms(1)] by (metis list.simps(9) map_append)
  with assms show ?thesis by (simp add: upd_conv_take_nth_drop ac_simps)
qed

lemma conc_step_commands:
  assumes "conc_step c fs rs_ops s s'"
  shows "conc_commands rs_queued s' = conc_commands rs_queued s"
  using assms
proof (induction rule: conc_step.induct)
  case (push k s e xs w b)
  then show ?case
    using rs_contract.set_exports_queued [of w xs "app_backend (cc_app s)"] by (simp add: conc_commands_def handed_update)
next
  case (apply_push k s i states w n b)
  then show ?case
    using rs_contract.apply_frame(2) [of w i states "app_backend (cc_app s)"] by (simp add: conc_commands_def handed_update)
next
  case (poll k s w cmds b)
  then show ?case
    using rs_contract.take_result [of w "app_backend (cc_app s)"] rs_contract.take_frame(1) [of w "app_backend (cc_app s)"]
    by (simp add: conc_commands_def handed_update)
qed (simp_all add: conc_commands_def handed_update)

lemma conc_run_commands:
  "conc_run c fs rs_ops s0 H s \<Longrightarrow> conc_commands rs_queued s = conc_commands rs_queued s0"
  by (induction rule: conc_run.induct) (simp_all add: conc_step_commands)

section \<open>Late, but never wrong\<close>

definition two_clients :: "'b app_state \<Rightarrow> 't disk \<Rightarrow> conc_event list \<Rightarrow> client_pc \<Rightarrow> client_pc \<Rightarrow> ('b, 't) conc" where
  "two_clients app d l x y = \<lparr>cc_app = app, cc_disk = d, cc_clients = [x, y], cc_log = l\<rparr>"

lemma two_clients_mutate:
  assumes "run_op c env o1 (app_catalog app, d) = (Inr e, st, d')" and "fs env"
  shows "conc_step c fs ops (two_clients app d l (Pending o1) y)
      (two_clients (app\<lparr>app_catalog := st\<rparr>) d' (l @ [MutationDone 0 o1 (Inr e)]) (Mutated e) y)"
    and "conc_step c fs ops (two_clients app d l x (Pending o1))
      (two_clients (app\<lparr>app_catalog := st\<rparr>) d' (l @ [MutationDone 1 o1 (Inr e)]) x (Mutated e))"
  using mutate [of 0 "two_clients app d l (Pending o1) y" o1 fs env c e st d' ops]
    mutate [of 1 "two_clients app d l x (Pending o1)" o1 fs env c e st d' ops] assms
  by (simp_all add: two_clients_def)

lemma two_clients_list:
  "conc_step c fs ops (two_clients app d l (Mutated e) y) (two_clients app d l (Listed e (catalog_list (app_catalog app))) y)"
  "conc_step c fs ops (two_clients app d l x (Mutated e)) (two_clients app d l x (Listed e (catalog_list (app_catalog app))))"
  using listing [of 0 "two_clients app d l (Mutated e) y" e c fs ops] listing [of 1 "two_clients app d l x (Mutated e)" e c fs ops]
  by (simp_all add: two_clients_def)

lemma two_clients_push:
  assumes "be_set_exports (ops w) xs (app_backend app) = (Inr (), b)"
  shows "conc_step c fs ops (two_clients app d l (Listed e xs) y) (two_clients (app\<lparr>app_backend := b\<rparr>) d l (Answered e) y)"
    and "conc_step c fs ops (two_clients app d l x (Listed e xs)) (two_clients (app\<lparr>app_backend := b\<rparr>) d l x (Answered e))"
  using push [of 0 "two_clients app d l (Listed e xs) y" e xs ops w b c fs]
    push [of 1 "two_clients app d l x (Listed e xs)" e xs ops w b c fs] assms
  by (simp_all add: two_clients_def)

text \<open>C36: Creations at the same time can leave the bridge behind the catalog although both are answered with success: a
  run exists in which the first client lists the catalog before the second one's creation and hands its list
  to the backend after it, so that the second export exists in the catalog and is unknown to the bridge.\<close>

theorem concurrent_creations_can_unsync:
  assumes "app_inv rs_inv app" and "create c env v1 body1 (app_catalog app, d) = (Inr e1, st1, d1)"
    and "create c env v2 body2 (st1, d1) = (Inr e2, st2, d2)" and "fs env"
  shows "\<exists>s. (conc_step c fs rs_ops)\<^sup>*\<^sup>* (two_clients app d [] (Pending (ClientCreate v1 body1)) (Pending (ClientCreate v2 body2))) s \<and>
    cc_clients s = [Answered e1, Answered e2] \<and> catalog_get (app_catalog (cc_app s)) (export_id e2) = Some e2 \<and>
    export_id e2 \<notin> rs_known (app_backend (cc_app s))"
proof -
  let ?o1 = "ClientCreate v1 body1" and ?o2 = "ClientCreate v2 body2"
  let ?l1 = "[MutationDone 0 ?o1 (Inr e1)]" and ?l2 = "[MutationDone 0 ?o1 (Inr e1), MutationDone 1 ?o2 (Inr e2)]"
  let ?x1 = "Listed e1 (catalog_list st1)" and ?x2 = "Listed e2 (catalog_list st2)"
  define b1 where "b1 = snd (be_set_exports (rs_ops demo_re) (catalog_list st2) (app_backend app))"
  define b2 where "b2 = snd (be_set_exports (rs_ops demo_re) (catalog_list st1) b1)"
  let ?app1 = "app\<lparr>app_catalog := st1\<rparr>" and ?app2 = "app\<lparr>app_catalog := st2\<rparr>"
  let ?app3 = "?app2\<lparr>app_backend := b1\<rparr>"
  let ?app4 = "?app3\<lparr>app_backend := b2\<rparr>"
  let ?R = "conc_step c fs rs_ops"
  have runs: "run_op c env ?o1 (app_catalog app, d) = (Inr e1, st1, d1)" "run_op c env ?o2 (app_catalog ?app1, d1) = (Inr e2, st2, d2)"
    using assms(2,3) by (simp_all add: run_op_def)
  have pushes: "be_set_exports (rs_ops demo_re) (catalog_list st2) (app_backend ?app2) = (Inr (), b1)"
    "be_set_exports (rs_ops demo_re) (catalog_list st1) (app_backend ?app3) = (Inr (), b2)"
    by (simp_all add: b1_def b2_def prod_eq_iff rs_contract.set_exports_ok)
  have "?R (two_clients app d [] (Pending ?o1) (Pending ?o2)) (two_clients ?app1 d1 ?l1 (Mutated e1) (Pending ?o2))"
    using two_clients_mutate(1) [of c env ?o1 app d e1 st1 d1 fs rs_ops "[]" "Pending ?o2", OF runs(1) assms(4)] by simp
  moreover have "?R (two_clients ?app1 d1 ?l1 (Mutated e1) (Pending ?o2)) (two_clients ?app1 d1 ?l1 ?x1 (Pending ?o2))"
    using two_clients_list(1) [of c fs rs_ops ?app1 d1 ?l1 e1] by simp
  moreover have "?R (two_clients ?app1 d1 ?l1 ?x1 (Pending ?o2)) (two_clients ?app2 d2 ?l2 ?x1 (Mutated e2))"
    using two_clients_mutate(2) [of c env ?o2 ?app1 d1 e2 st2 d2 fs rs_ops ?l1 ?x1, OF runs(2) assms(4)] by simp
  moreover have "?R (two_clients ?app2 d2 ?l2 ?x1 (Mutated e2)) (two_clients ?app2 d2 ?l2 ?x1 ?x2)"
    using two_clients_list(2) [of c fs rs_ops ?app2 d2 ?l2 ?x1 e2] by simp
  moreover have "?R (two_clients ?app2 d2 ?l2 ?x1 ?x2) (two_clients ?app3 d2 ?l2 ?x1 (Answered e2))"
    by (rule two_clients_push(2) [of rs_ops demo_re, OF pushes(1)])
  moreover have "?R (two_clients ?app3 d2 ?l2 ?x1 (Answered e2)) (two_clients ?app4 d2 ?l2 (Answered e1) (Answered e2))"
    by (rule two_clients_push(1) [of rs_ops demo_re, OF pushes(2)])
  ultimately have run: "?R\<^sup>*\<^sup>* (two_clients app d [] (Pending ?o1) (Pending ?o2)) (two_clients ?app4 d2 ?l2 (Answered e1) (Answered e2))"
    by (meson converse_rtranclp_into_rtranclp rtranclp.rtrancl_refl)
  have cat1: "catalog_inv st1" using create_inv [OF _ assms(2)] assms(1) by (simp add: app_inv_def)
  have "rs_known b2 = dom (bt_get (by_id st1))"
    unfolding b2_def rs_contract.set_exports_known by (rule catalog_list_ids(2) [OF cat1])
  then have "export_id e2 \<notin> rs_known b2" using create_new_id(2) [OF assms(3)] by (simp add: dom_def)
  moreover have "catalog_get st2 (export_id e2) = Some e2"
    using create_new_id(1) [OF assms(3)] cat1
    by (simp add: catalog_get_def bt_get_insert catalog_inv_def exports_inv_def)
  ultimately show ?thesis
    using run by (intro exI [of _ "two_clients ?app4 d2 ?l2 (Answered e1) (Answered e2)"]) (simp add: two_clients_def)
qed

theorem concurrent_creations_can_unsync_witness:
  "\<exists>e2 s. (conc_step plain_codec (\<lambda>_. True) rs_ops)\<^sup>*\<^sup>*
       (two_clients demo_app Map.empty [] (Pending (ClientCreate 9 (demo_body ''Lamp''))) (Pending (ClientCreate 10 (demo_body ''Lamp'')))) s \<and>
     cc_clients s = [Answered (light_of 9), Answered e2] \<and> export_id e2 \<notin> rs_known (app_backend (cc_app s))"
proof -
  let ?d = "plain_disk (one_light 9) Map.empty"
  have one: "create plain_codec ok_env 9 (demo_body ''Lamp'') (app_catalog demo_app, Map.empty) = (Inr (light_of 9), one_light 9, ?d)"
    by (simp add: demo_app_fields demo_create)
  have "\<exists>e2 st2 d2. create plain_codec ok_env 10 (demo_body ''Lamp'') (one_light 9, ?d) = (Inr e2, st2, d2)"
    by (simp add: create_def validate_export_fields_def demo_body_def bt_get_def one_light_def light_of_def demo_export_def
        alloc_endpoint_def used_endpoints_def catalog_list_def bt_values_def List.map_filter_def alloc_loop.simps Let_def
        persist_then_plain)
  then obtain e2 st2 d2 where two: "create plain_codec ok_env 10 (demo_body ''Lamp'') (one_light 9, ?d) = (Inr e2, st2, d2)" by blast
  from concurrent_creations_can_unsync [OF demo_app_inv one two, of "\<lambda>_. True"] show ?thesis by blast
qed

text \<open>C17: Whatever clients create, change and delete exports, push states and poll commands at the same time, and
  however the steps of their requests interleave, the catalog and the slot table keep their invariants at every
  moment, what the bridge shows is exactly one of the catalogs there were in the run, and every queued command
  is in the answer of exactly one poll or still queued: an interleaving can make the bridge late, never show a
  mixture of catalogs or an export that never was.\<close>

theorem concurrent_bridge_shows_some_catalog:
  assumes "conc_run c fs rs_ops s0 H s" and "app_inv rs_inv (cc_app s0)" and "in_sync rs_known (cc_app s0)"
    and "surface_view (rs_plane (app_backend (cc_app s0))) = bridged_view (app_catalog (cc_app s0))"
    and "\<And>e xs. Listed e xs \<notin> set (cc_clients s0)"
  shows "app_inv rs_inv (cc_app s) \<and> app_catalog (cc_app s) \<in> set H \<and>
    (\<exists>st \<in> set H. catalog_inv st \<and> surface_view (rs_plane (app_backend (cc_app s))) = bridged_view st \<and>
       rs_known (app_backend (cc_app s)) = dom (bt_get (by_id st))) \<and>
    conc_commands rs_queued s = conc_commands rs_queued s0"
proof -
  have "conc_inv [app_catalog (cc_app s0)] s0"
    using assms(2-5) by (simp add: conc_inv_def app_inv_def in_sync_def)
  from conc_run_inv [OF assms(1) this] conc_run_commands [OF assms(1)] show ?thesis
    by (auto simp: conc_inv_def app_inv_def list_all_iff)
qed

theorem concurrent_bridge_shows_some_catalog_witness:
  "\<exists>s H. conc_run plain_codec (\<lambda>_. True) rs_ops
       (two_clients demo_app Map.empty [] (Pending (ClientCreate 9 (demo_body ''Lamp''))) (Pending (ClientDelete 9))) H s \<and>
     app_catalog (cc_app s) = one_light 9 \<and> app_inv rs_inv (cc_app s)"
proof -
  let ?init = "two_clients demo_app (Map.empty :: (persisted_config + persisted_exports) disk) [] (Pending (ClientCreate 9 (demo_body ''Lamp''))) (Pending (ClientDelete 9))"
  let ?after = "two_clients (demo_app\<lparr>app_catalog := one_light 9\<rparr>) (plain_disk (one_light 9) Map.empty)
    [MutationDone 0 (ClientCreate 9 (demo_body ''Lamp'')) (Inr (light_of 9))] (Mutated (light_of 9)) (Pending (ClientDelete 9))"
  have run: "conc_run plain_codec (\<lambda>_. True) rs_ops ?init ([app_catalog (cc_app ?init)] @ [app_catalog (cc_app ?after)]) ?after"
  proof (rule conc_run.step [OF conc_run.start])
    show "conc_step plain_codec (\<lambda>_. True) rs_ops ?init ?after"
      using two_clients_mutate(1) [of plain_codec ok_env "ClientCreate 9 (demo_body ''Lamp'')" demo_app Map.empty "light_of 9"
          "one_light 9" _ "\<lambda>_. True" rs_ops "[]"]
      by (simp add: run_op_def demo_app_fields demo_create)
  qed
  have "surface_view (rs_plane (app_backend demo_app)) = bridged_view (app_catalog demo_app)"
    by (rule ext) (simp add: demo_app_fields demo_rs_def demo_ready_plane_def note_startup_commissioning_state_def plane_new_def
      plane_state_new_def surface_view_def slot_for_def bridged_view_def catalog_new_def bt_get_def)
  from concurrent_bridge_shows_some_catalog [OF run] this demo_app_inv demo_app_sync
  have "app_inv rs_inv (cc_app ?after)" by (simp add: two_clients_def)
  with run show ?thesis by (intro exI [of _ ?after] exI conjI) (simp_all add: two_clients_def)
qed


section \<open>The order in which requests take effect\<close>

text \<open>An event on the service of \<open>Control_Spec\<close>, and when its reply is the one the client got.\<close>

fun spec_event :: "conc_event \<Rightarrow> service \<Rightarrow> reply \<times> service" where
  "spec_event (MutationDone k (ClientCreate v4 body) r) v = spec_create v4 body v"
| "spec_event (MutationDone k (ClientPatch i body) r) v = spec_patch i body v"
| "spec_event (MutationDone k (ClientDelete i) r) v = spec_delete i v"
| "spec_event (PollDone k cmds) v = (RCommands (sv_queue v), v\<lparr>sv_queue := []\<rparr>)"

fun event_answers :: "conc_event \<Rightarrow> reply \<Rightarrow> bool" where
  "event_answers (MutationDone k (ClientCreate v4 body) (Inr e)) r \<longleftrightarrow> r = RCreated e"
| "event_answers (MutationDone k x (Inr e)) r \<longleftrightarrow> r = RExport e"
| "event_answers (MutationDone k x (Inl err)) r \<longleftrightarrow> error_answers err r"
| "event_answers (PollDone k cmds) r \<longleftrightarrow> r = RCommands cmds"

definition atomic_op :: "client_op \<Rightarrow> bool" where
  "atomic_op x \<longleftrightarrow> (\<forall>i body. x = ClientPatch i body \<longrightarrow> atomic_patch body)"

lemma run_op_service:
  assumes "codec_round_trips c" and "healthy env" and "catalog_inv st" and "atomic_op x"
    and "run_op c env x (st, d) = (r, st', d')"
  shows "event_answers (MutationDone k x r) (fst (spec_event (MutationDone k x r) (service_of st q))) \<and>
    snd (spec_event (MutationDone k x r) (service_of st q)) = service_of st' q"
proof -
  let ?ie = "(undefined :: 'a ipc_env)\<lparr>ie_codec := c, ie_fs := env\<rparr>"
  have t: "total_io ?ie" using assms(1,2) by (simp add: total_io_def)
  have ie: "ie_codec ?ie = c" "ie_fs ?ie = env" by simp_all
  show ?thesis
  proof (cases x)
    case (ClientCreate v4 body)
    with create_service [OF t assms(3), unfolded ie, of v4 body d r st' d' q] assms(5) show ?thesis
      by (cases r) (auto simp: run_op_def implements_def)
  next
    case (ClientPatch i body)
    with patch_service [OF t assms(3), unfolded ie, of body i d r st' d' q] assms(4,5) show ?thesis
      by (cases r) (auto simp: run_op_def implements_def atomic_op_def)
  next
    case (ClientDelete i)
    with delete_service [OF t, unfolded ie, of i st d r st' d' q] assms(5) show ?thesis
      by (cases r) (auto simp: run_op_def implements_def)
  qed
qed

lemma run_steps_snoc:
  "run_steps step (xs @ [x]) s =
     (case run_steps step xs s of (rs, s) \<Rightarrow> (case step x s of (r, s) \<Rightarrow> (rs @ [r], s)))"
  by (induction xs arbitrary: s) (auto split: prod.splits)

text \<open>The log, replayed on the service from where the run started, ends where the program is.\<close>

definition replays :: "(rs_backend, 't) conc \<Rightarrow> (rs_backend, 't) conc \<Rightarrow> bool" where
  "replays s0 s \<longleftrightarrow>
     (\<exists>replies. run_steps spec_event (cc_log s) (service_of (app_catalog (cc_app s0)) (rs_queued (app_backend (cc_app s0)))) =
        (replies, service_of (app_catalog (cc_app s)) (rs_queued (app_backend (cc_app s)))) \<and>
      list_all2 event_answers (cc_log s) replies)"

lemma replays_snoc:
  assumes "replays s0 s" and "cc_log s' = cc_log s @ [ev]"
    and "event_answers ev (fst (spec_event ev (service_of (app_catalog (cc_app s)) (rs_queued (app_backend (cc_app s))))))"
    and "snd (spec_event ev (service_of (app_catalog (cc_app s)) (rs_queued (app_backend (cc_app s))))) =
      service_of (app_catalog (cc_app s')) (rs_queued (app_backend (cc_app s')))"
  shows "replays s0 s'"
  using assms by (auto simp: replays_def run_steps_snoc split: prod.splits intro: list_all2_appendI)

lemma replays_same:
  "replays s0 s \<Longrightarrow> cc_log s' = cc_log s \<Longrightarrow> app_catalog (cc_app s') = app_catalog (cc_app s) \<Longrightarrow>
     rs_queued (app_backend (cc_app s')) = rs_queued (app_backend (cc_app s)) \<Longrightarrow> replays s0 s'"
  by (simp add: replays_def)

definition conc_ready :: "('b, 't) conc \<Rightarrow> bool" where
  "conc_ready s \<longleftrightarrow> catalog_inv (app_catalog (cc_app s)) \<and> (\<forall>x. Pending x \<in> set (cc_clients s) \<longrightarrow> atomic_op x)"

lemma conc_ready_update:
  "conc_ready s \<Longrightarrow> catalog_inv (app_catalog (cc_app s')) \<Longrightarrow> cc_clients s' = (cc_clients s)[k := pc] \<Longrightarrow>
     (\<And>x. pc \<noteq> Pending x) \<Longrightarrow> conc_ready s'"
  by (auto simp: conc_ready_def dest!: clients_update)

lemma conc_ready_at:
  "conc_ready s \<Longrightarrow> k < length (cc_clients s) \<Longrightarrow> cc_clients s ! k = Pending x \<Longrightarrow> atomic_op x \<and> catalog_inv (app_catalog (cc_app s))"
  unfolding conc_ready_def by (metis nth_mem)

lemma conc_step_replays:
  assumes "conc_step c fs rs_ops s s'" and "conc_ready s" and "replays s0 s"
    and "codec_round_trips c" and "\<And>env. fs env \<Longrightarrow> healthy env"
  shows "conc_ready s' \<and> replays s0 s'"
  using assms(1-3)
proof (induction rule: conc_step.induct)
  case (mutate k s x env e st d)
  note at = conc_ready_at [OF mutate(5,1,2)]
  from run_op_inv [OF _ mutate(4)] at have "catalog_inv st" by blast
  moreover note run_op_service [OF assms(4) assms(5) [OF mutate(3)] _ _ mutate(4), of k "rs_queued (app_backend (cc_app s))"] at
  ultimately show ?case using mutate(5) by (auto intro: replays_snoc [OF mutate(6)] elim: conc_ready_update)
next
  case (refuse k s x env err st d)
  note at = conc_ready_at [OF refuse(5,1,2)]
  from run_op_inv [OF _ refuse(4)] at have "catalog_inv st" by blast
  moreover note run_op_service [OF assms(4) assms(5) [OF refuse(3)] _ _ refuse(4), of k "rs_queued (app_backend (cc_app s))"] at
  ultimately show ?case using refuse(5) by (auto intro: replays_snoc [OF refuse(6)] elim: conc_ready_update)
next
  case (listing k s e)
  then show ?case by (auto intro: replays_same simp: conc_ready_def dest!: clients_update)
next
  case (push k s e xs w b)
  have "rs_queued b = rs_queued (app_backend (cc_app s))"
    using rs_contract.set_exports_queued [of w xs "app_backend (cc_app s)"] push(3) by simp
  with push show ?case by (auto intro: replays_same simp: conc_ready_def dest!: clients_update)
next
  case (check k s i states pc)
  then show ?case by (auto intro: replays_same simp: conc_ready_def dest!: clients_update)
next
  case (apply_push k s i states w n b)
  have "rs_queued b = rs_queued (app_backend (cc_app s))"
    using rs_contract.apply_frame(2) [of w i states "app_backend (cc_app s)"] apply_push(3) by simp
  with apply_push show ?case by (auto intro: replays_same simp: conc_ready_def dest!: clients_update)
next
  case (poll k s w cmds b)
  have "cmds = rs_queued (app_backend (cc_app s))" "rs_queued b = []"
    using rs_contract.take_result [of w "app_backend (cc_app s)"] rs_contract.take_frame(1) [of w "app_backend (cc_app s)"] poll(3)
    by simp_all
  with poll(4,5) show ?case
    by (auto intro!: replays_snoc [OF poll(5)] simp: conc_ready_def service_of_def dest!: clients_update)
qed


text \<open>What a client that began as the first is logged with when it is where the second says.\<close>

fun outcome :: "nat \<Rightarrow> client_pc \<Rightarrow> client_pc \<Rightarrow> conc_event multiset" where
  "outcome k (Pending x) (Mutated e) = {#MutationDone k x (Inr e)#}"
| "outcome k (Pending x) (Listed e xs) = {#MutationDone k x (Inr e)#}"
| "outcome k (Pending x) (Answered e) = {#MutationDone k x (Inr e)#}"
| "outcome k (Pending x) (Refused err) = {#MutationDone k x (Inl err)#}"
| "outcome k Polling (Polled cmds) = {#PollDone k cmds#}"
| "outcome k _ _ = {#}"

fun unserved :: "client_pc \<Rightarrow> bool" where
  "unserved (Pending x) = True"
| "unserved (Pushing i states) = True"
| "unserved Polling = True"
| "unserved _ = False"

definition logged :: "('b, 't) conc \<Rightarrow> ('b, 't) conc \<Rightarrow> bool" where
  "logged s0 s \<longleftrightarrow>
     length (cc_clients s) = length (cc_clients s0) \<and>
     (\<forall>k < length (cc_clients s). unserved (cc_clients s ! k) \<longrightarrow> cc_clients s0 ! k = cc_clients s ! k) \<and>
     mset (cc_log s) = (\<Sum>k < length (cc_clients s). outcome k (cc_clients s0 ! k) (cc_clients s ! k))"

lemma logged_update:
  assumes "logged s0 s" and "k < length (cc_clients s)" and "cc_clients s' = (cc_clients s)[k := pc]" and "\<not> unserved pc"
    and "outcome k (cc_clients s0 ! k) (cc_clients s ! k) = M" and "outcome k (cc_clients s0 ! k) pc = M + E"
    and "mset (cc_log s') = mset (cc_log s) + E"
  shows "logged s0 s'"
proof -
  let ?n = "length (cc_clients s)"
  have rest: "(\<Sum>j \<in> {..<?n} - {k}. outcome j (cc_clients s0 ! j) ((cc_clients s)[k := pc] ! j)) =
      (\<Sum>j \<in> {..<?n} - {k}. outcome j (cc_clients s0 ! j) (cc_clients s ! j))"
    by (rule sum.cong) simp_all
  have "(\<Sum>j < ?n. outcome j (cc_clients s0 ! j) ((cc_clients s)[k := pc] ! j)) =
      (\<Sum>j < ?n. outcome j (cc_clients s0 ! j) (cc_clients s ! j)) + E"
    using assms(2,5,6) rest
    by (simp add: sum.remove [of "{..<?n}" k "\<lambda>j. outcome j (cc_clients s0 ! j) ((cc_clients s)[k := pc] ! j)"]
        sum.remove [of "{..<?n}" k "\<lambda>j. outcome j (cc_clients s0 ! j) (cc_clients s ! j)"] ac_simps)
  moreover have "cc_clients s0 ! j = (cc_clients s)[k := pc] ! j" if "j < ?n" "unserved ((cc_clients s)[k := pc] ! j)" for j
    using assms(1,4) that by (cases "j = k") (simp_all add: logged_def)
  ultimately show ?thesis using assms(1,3,7) by (simp add: logged_def)
qed

lemma outcome_later:
  "outcome k pc (Listed e xs) = outcome k pc (Mutated e)" "outcome k pc (Answered e) = outcome k pc (Mutated e)"
  "outcome k pc (Checked i states) = {#}" "outcome k pc (Pushed n) = {#}"
  by (cases pc; simp)+

lemma logged_first: "logged s0 s \<Longrightarrow> k < length (cc_clients s) \<Longrightarrow> unserved (cc_clients s ! k) \<Longrightarrow> cc_clients s0 ! k = cc_clients s ! k"
  by (simp add: logged_def)

lemma conc_step_logged:
  assumes "conc_step c fs ops s s'" and "logged s0 s"
  shows "logged s0 s'"
  using assms
proof (induction rule: conc_step.induct)
  case (mutate k s x env e st d)
  with logged_first [OF mutate(5,1)] show ?case by (intro logged_update [OF mutate(5,1), of _ "Mutated e"]) auto
next
  case (refuse k s x env err st d)
  with logged_first [OF refuse(5,1)] show ?case by (intro logged_update [OF refuse(5,1), of _ "Refused err"]) auto
next
  case (listing k s e)
  then show ?case by (intro logged_update [OF listing(3,1), of _ "Listed e (catalog_list (app_catalog (cc_app s)))" _ "{#}", OF _ _ refl])
      (simp_all add: outcome_later)
next
  case (push k s e xs w b)
  then show ?case by (intro logged_update [OF push(4,1), of _ "Answered e" _ "{#}", OF _ _ refl]) (simp_all add: outcome_later)
next
  case (check k s i states pc)
  with logged_first [OF check(4,1)] show ?case
    by (intro logged_update [OF check(4,1), of _ pc "{#}" "{#}"]) (auto split: if_splits)
next
  case (apply_push k s i states w n b)
  then show ?case by (intro logged_update [OF apply_push(4,1), of _ "Pushed n" _ "{#}", OF _ _ refl]) (simp_all add: outcome_later)
next
  case (poll k s w cmds b)
  with logged_first [OF poll(4,1)] show ?case by (intro logged_update [OF poll(4,1), of _ "Polled cmds"]) auto
qed

lemma logged_start:
  assumes "list_all unserved (cc_clients s0)" and "cc_log s0 = []"
  shows "logged s0 s0"
proof -
  have "outcome k pc pc = {#}" if "unserved pc" for k pc using that by (cases pc) simp_all
  with assms show ?thesis by (simp add: logged_def list_all_length)
qed


text \<open>C4: Requests at the same time are linearizable on a working disk: whatever clients change the catalog and poll, and
  however their steps interleave, there is one order, that of their accesses to the catalog and the queue, in which
  the service answers every one of them as the program does and which ends in the catalog, cursor and queue of the
  program; each client has exactly the answer of its own place in that order, and none before it is served.
  Patches that the program applies halfway are excluded.\<close>

theorem concurrent_requests_linearizable:
  assumes "(conc_step c fs rs_ops)\<^sup>*\<^sup>* s0 s" and "codec_round_trips c" and "\<And>env. fs env \<Longrightarrow> healthy env"
    and "catalog_inv (app_catalog (cc_app s0))" and "list_all unserved (cc_clients s0)" and "cc_log s0 = []"
    and "\<And>x. Pending x \<in> set (cc_clients s0) \<Longrightarrow> atomic_op x"
    and "run_steps spec_event (cc_log s) (service_of (app_catalog (cc_app s0)) (rs_queued (app_backend (cc_app s0)))) = (replies, v)"
  shows "list_all2 event_answers (cc_log s) replies \<and>
    v = service_of (app_catalog (cc_app s)) (rs_queued (app_backend (cc_app s))) \<and>
    mset (cc_log s) = (\<Sum>k < length (cc_clients s). outcome k (cc_clients s0 ! k) (cc_clients s ! k))"
proof -
  have "conc_ready s \<and> replays s0 s \<and> logged s0 s"
    using assms(1)
  proof (induction rule: rtranclp_induct)
    case base
    show ?case using assms(4-7) logged_start by (auto simp: conc_ready_def replays_def)
  next
    case (step y z)
    then show ?case
      using conc_step_replays [OF step.hyps(2) _ _ assms(2,3)] conc_step_logged [OF step.hyps(2)] by blast
  qed
  with assms(8) show ?thesis by (auto simp: replays_def logged_def)
qed

theorem concurrent_requests_linearizable_witness:
  "(conc_step plain_codec healthy rs_ops)\<^sup>*\<^sup>*
      (two_clients demo_app Map.empty [] (Pending (ClientCreate 9 (demo_body ''Lamp''))) Polling)
      (two_clients (demo_app\<lparr>app_catalog := one_light 9\<rparr>) (plain_disk (one_light 9) Map.empty)
        [MutationDone 0 (ClientCreate 9 (demo_body ''Lamp'')) (Inr (light_of 9))] (Mutated (light_of 9)) Polling) \<and>
   fst (spec_create 9 (demo_body ''Lamp'') (service_of (app_catalog demo_app) (rs_queued demo_rs))) = RCreated (light_of 9)"
proof -
  let ?op = "ClientCreate 9 (demo_body ''Lamp'')"
  let ?init = "two_clients demo_app (Map.empty :: (persisted_config + persisted_exports) disk) [] (Pending ?op) Polling"
  let ?after = "two_clients (demo_app\<lparr>app_catalog := one_light 9\<rparr>) (plain_disk (one_light 9) Map.empty)
    [MutationDone 0 ?op (Inr (light_of 9))] (Mutated (light_of 9)) Polling"
  have "conc_step plain_codec healthy rs_ops ?init ?after"
    using two_clients_mutate(1) [of plain_codec ok_env ?op demo_app Map.empty "light_of 9" "one_light 9" _ healthy rs_ops "[]"]
    by (simp add: run_op_def demo_app_fields demo_create ok_env_healthy)
  then have run: "(conc_step plain_codec healthy rs_ops)\<^sup>*\<^sup>* ?init ?after" by blast
  have "catalog_inv (app_catalog (cc_app ?init))" using demo_app_inv by (simp add: two_clients_def app_inv_def)
  moreover have "list_all unserved (cc_clients ?init)" "cc_log ?init = []" by (simp_all add: two_clients_def)
  moreover have "atomic_op x" if "Pending x \<in> set (cc_clients ?init)" for x using that by (simp add: two_clients_def atomic_op_def)
  moreover obtain replies v where
    "run_steps spec_event (cc_log ?after) (service_of (app_catalog (cc_app ?init)) (rs_queued (app_backend (cc_app ?init)))) = (replies, v)"
    by fastforce
  ultimately have "list_all2 event_answers (cc_log ?after) replies"
    using concurrent_requests_linearizable [OF run plain_codec_round_trips, of replies v] by blast
  with \<open>run_steps _ _ _ = (replies, v)\<close> run show ?thesis
    by (auto simp: two_clients_def demo_app_fields split: prod.splits)
qed

section \<open>When the bridge catches up\<close>

text \<open>
  No change of the catalog overtakes a list on its way to the bridge: a step that changes it happens while no list
  is between its listing and the backend, and leaves a client that will list it.
\<close>

definition hands_over_in_order :: "('b, 't) conc \<Rightarrow> ('b, 't) conc \<Rightarrow> bool" where
  "hands_over_in_order s s' \<longleftrightarrow>
     (app_catalog (cc_app s') \<noteq> app_catalog (cc_app s) \<longrightarrow>
        (\<forall>e xs. Listed e xs \<notin> set (cc_clients s)) \<and> (\<exists>e. Mutated e \<in> set (cc_clients s')))"

definition syncing :: "('b, 't) conc \<Rightarrow> bool" where
  "syncing s \<longleftrightarrow> (\<exists>e. Mutated e \<in> set (cc_clients s)) \<or> (\<exists>e xs. Listed e xs \<in> set (cc_clients s))"

definition shows_catalog :: "(rs_backend, 't) conc \<Rightarrow> bool" where
  "shows_catalog s \<longleftrightarrow>
     surface_view (rs_plane (app_backend (cc_app s))) = bridged_view (app_catalog (cc_app s)) \<and>
     rs_known (app_backend (cc_app s)) = dom (bt_get (by_id (app_catalog (cc_app s))))"

definition catching_up :: "(rs_backend, 't) conc \<Rightarrow> bool" where
  "catching_up s \<longleftrightarrow> app_inv rs_inv (cc_app s) \<and>
     (\<forall>e xs. Listed e xs \<in> set (cc_clients s) \<longrightarrow> xs = catalog_list (app_catalog (cc_app s))) \<and>
     (syncing s \<or> shows_catalog s)"

lemma in_update: "y \<in> set xs \<Longrightarrow> xs ! k \<noteq> y \<Longrightarrow> k < length xs \<Longrightarrow> y \<in> set (xs[k := x])"
  by (metis in_set_conv_nth length_list_update nth_list_update_neq)

lemma syncing_update:
  "syncing s \<Longrightarrow> cc_clients s' = (cc_clients s)[k := pc] \<Longrightarrow> k < length (cc_clients s) \<Longrightarrow>
     (\<And>e. cc_clients s ! k \<noteq> Mutated e) \<Longrightarrow> (\<And>e xs. cc_clients s ! k \<noteq> Listed e xs) \<Longrightarrow> syncing s'"
  unfolding syncing_def by (metis in_update)

lemma conc_step_catching_up:
  assumes "conc_step c fs rs_ops s s'" and "hands_over_in_order s s'" and "catching_up s"
  shows "catching_up s'"
  using assms
proof (induction rule: conc_step.induct)
  case (mutate k s x env e st d)
  have cat: "catalog_inv st" using run_op_inv [OF _ mutate(4)] mutate(6) by (simp add: catching_up_def app_inv_def)
  have "Mutated e \<in> set ((cc_clients s)[k := Mutated e])" using mutate(1) by (simp add: set_update_memI)
  moreover have "ys = catalog_list st" if "Listed e' ys \<in> set ((cc_clients s)[k := Mutated e])" for e' ys
    using that mutate(5,6) by (cases "st = app_catalog (cc_app s)")
      (auto simp: catching_up_def hands_over_in_order_def dest!: clients_update)
  ultimately show ?case using cat mutate(6) by (auto simp: catching_up_def app_inv_def syncing_def)
next
  case (refuse k s x env err st d)
  let ?t = "s\<lparr>cc_app := (cc_app s)\<lparr>app_catalog := st\<rparr>, cc_disk := d, cc_clients := (cc_clients s)[k := Refused err],
    cc_log := cc_log s @ [MutationDone k x (Inl err)]\<rparr>"
  have cat: "catalog_inv st" using run_op_inv [OF _ refuse(4)] refuse(6) by (simp add: catching_up_def app_inv_def)
  have "syncing s \<Longrightarrow> syncing ?t" by (rule syncing_update [OF _ _ refuse(1)]) (simp_all add: refuse(2))
  moreover have "st \<noteq> app_catalog (cc_app s) \<Longrightarrow> syncing ?t" using refuse(5) by (simp add: hands_over_in_order_def syncing_def)
  moreover have "st = app_catalog (cc_app s) \<Longrightarrow> shows_catalog s \<Longrightarrow> shows_catalog ?t" by (simp add: shows_catalog_def)
  ultimately have "syncing ?t \<or> shows_catalog ?t" using refuse(6) unfolding catching_up_def by blast
  moreover have "Listed e xs \<in> set (cc_clients ?t) \<Longrightarrow> xs = catalog_list st" for e xs
    using refuse(5,6)
    by (auto simp: catching_up_def hands_over_in_order_def dest!: clients_update)
  ultimately show ?case using cat refuse(6) by (simp add: catching_up_def app_inv_def)
next
  case (listing k s e)
  let ?t = "s\<lparr>cc_clients := (cc_clients s)[k := Listed e (catalog_list (app_catalog (cc_app s)))]\<rparr>"
  have "Listed e (catalog_list (app_catalog (cc_app s))) \<in> set (cc_clients ?t)" using listing(1) by (simp add: set_update_memI)
  then have "syncing ?t" unfolding syncing_def by blast
  moreover have "ys = catalog_list (app_catalog (cc_app s))" if "Listed e' ys \<in> set (cc_clients ?t)" for e' ys
    using that listing(4) by (auto simp: catching_up_def dest!: clients_update)
  ultimately show ?case using listing(4) by (simp add: catching_up_def)
next
  case (push k s e xs w b)
  have "Listed e xs \<in> set (cc_clients s)" using push(1,2) by (metis nth_mem)
  then have xs: "xs = catalog_list (app_catalog (cc_app s))" using push(5) by (simp add: catching_up_def)
  have cat: "catalog_inv (app_catalog (cc_app s))" and good: "rs_inv (app_backend (cc_app s))"
    using push(5) by (simp_all add: catching_up_def app_inv_def)
  note rs_set_shows [OF cat good push(3) [unfolded xs]]
  with push(5) cat show ?case
    by (auto simp: catching_up_def app_inv_def shows_catalog_def dest!: clients_update)
next
  case (check k s i states pc)
  let ?t = "s\<lparr>cc_clients := (cc_clients s)[k := pc]\<rparr>"
  have "syncing s \<Longrightarrow> syncing ?t" by (rule syncing_update [OF _ _ check(1)]) (simp_all add: check(2))
  with check(3,5) show ?case
    by (auto simp: catching_up_def shows_catalog_def split: if_splits dest!: clients_update)
next
  case (apply_push k s i states w n b)
  let ?t = "s\<lparr>cc_app := (cc_app s)\<lparr>app_backend := b\<rparr>, cc_clients := (cc_clients s)[k := Pushed n]\<rparr>"
  have "rs_inv (app_backend (cc_app s))" using apply_push(5) by (simp add: catching_up_def app_inv_def)
  note rs_apply_keeps [OF this apply_push(3)]
  moreover have "syncing s \<Longrightarrow> syncing ?t" by (rule syncing_update [OF _ _ apply_push(1)]) (simp_all add: apply_push(2))
  ultimately show ?case using apply_push(5)
    by (auto simp: catching_up_def app_inv_def shows_catalog_def dest!: clients_update)
next
  case (poll k s w cmds b)
  let ?t = "s\<lparr>cc_app := (cc_app s)\<lparr>app_backend := b\<rparr>, cc_clients := (cc_clients s)[k := Polled cmds],
    cc_log := cc_log s @ [PollDone k cmds]\<rparr>"
  have "rs_inv (app_backend (cc_app s))" using poll(5) by (simp add: catching_up_def app_inv_def)
  note rs_take_keeps [OF this poll(3)]
  moreover have "syncing s \<Longrightarrow> syncing ?t" by (rule syncing_update [OF _ _ poll(1)]) (simp_all add: poll(2))
  ultimately show ?case using poll(5)
    by (auto simp: catching_up_def app_inv_def shows_catalog_def dest!: clients_update)
qed


text \<open>C16: The bridge catches up with the catalog: if in a run of requests at the same time no change of the catalog falls
  between the listing of another request and its call of the backend, and no request that is refused has changed the
  catalog, then at every moment at which no request
  is between its change and its call, the bridge shows exactly the enabled exports of the catalog and knows all of
  them. The overtaking that this excludes is the only way to the stale bridge of the run above.\<close>

theorem bridge_catches_up:
  assumes "(\<lambda>s s'. conc_step c fs rs_ops s s' \<and> hands_over_in_order s s')\<^sup>*\<^sup>* s0 s"
    and "app_inv rs_inv (cc_app s0)" and "shows_catalog s0" and "\<And>e xs. Listed e xs \<notin> set (cc_clients s0)"
    and "\<And>e. Mutated e \<notin> set (cc_clients s)" and "\<And>e xs. Listed e xs \<notin> set (cc_clients s)"
  shows "surface_view (rs_plane (app_backend (cc_app s))) = bridged_view (app_catalog (cc_app s)) \<and>
    in_sync rs_known (cc_app s) \<and> app_inv rs_inv (cc_app s)"
proof -
  have "catching_up s"
    using assms(1)
  proof (induction rule: rtranclp_induct)
    case base
    show ?case using assms(2-4) by (simp add: catching_up_def)
  qed (blast intro: conc_step_catching_up)
  with assms(5,6) show ?thesis by (simp add: catching_up_def syncing_def shows_catalog_def in_sync_def)
qed

theorem bridge_catches_up_witness:
  "\<exists>s. (conc_step plain_codec (\<lambda>_. True) rs_ops)\<^sup>*\<^sup>*
      (two_clients demo_app Map.empty [] (Pending (ClientCreate 9 (demo_body ''Lamp''))) Polling) s \<and>
     cc_clients s = [Answered (light_of 9), Polling] \<and> surface_view (rs_plane (app_backend (cc_app s))) 9 = Some (light_of 9)"
proof -
  let ?op = "ClientCreate 9 (demo_body ''Lamp'')" and ?d = "plain_disk (one_light 9) Map.empty"
  let ?app1 = "demo_app\<lparr>app_catalog := one_light 9\<rparr>" and ?l = "[MutationDone 0 ?op (Inr (light_of 9))]"
  let ?s0 = "two_clients demo_app (Map.empty :: (persisted_config + persisted_exports) disk) [] (Pending ?op) Polling"
  let ?s1 = "two_clients ?app1 ?d ?l (Mutated (light_of 9)) Polling"
  let ?s2 = "two_clients ?app1 ?d ?l (Listed (light_of 9) (catalog_list (one_light 9))) Polling"
  define b where "b = snd (be_set_exports (rs_ops demo_re) (catalog_list (one_light 9)) (app_backend ?app1))"
  let ?s3 = "two_clients (?app1\<lparr>app_backend := b\<rparr>) ?d ?l (Answered (light_of 9)) Polling"
  let ?C = "conc_step plain_codec (\<lambda>_. True) rs_ops"
  let ?R = "\<lambda>s s'. ?C s s' \<and> hands_over_in_order s s'"
  have s1: "?R ?s0 ?s1"
    using two_clients_mutate(1) [of plain_codec ok_env ?op demo_app Map.empty "light_of 9" "one_light 9" _ "\<lambda>_. True" rs_ops "[]"]
    by (simp add: run_op_def demo_app_fields demo_create hands_over_in_order_def) (simp add: two_clients_def)
  have s2: "?R ?s1 ?s2"
    using two_clients_list(1) [of plain_codec "\<lambda>_. True" rs_ops ?app1 ?d ?l "light_of 9"]
    by (simp add: hands_over_in_order_def) (simp add: two_clients_def)
  have "be_set_exports (rs_ops demo_re) (catalog_list (one_light 9)) (app_backend ?app1) = (Inr (), b)"
    by (simp add: b_def prod_eq_iff rs_contract.set_exports_ok)
  then have s3: "?R ?s2 ?s3"
    using two_clients_push(1) [of rs_ops demo_re _ ?app1 b plain_codec "\<lambda>_. True" ?d ?l "light_of 9"]
    by (simp add: hands_over_in_order_def) (simp add: two_clients_def)
  have run: "?R\<^sup>*\<^sup>* ?s0 ?s3"
    by (rule converse_rtranclp_into_rtranclp [where r = ?R, OF s1
          converse_rtranclp_into_rtranclp [where r = ?R, OF s2 r_into_rtranclp [where r = ?R, OF s3]]])
  have "shows_catalog ?s0"
    using demo_app_sync
    by (auto simp: shows_catalog_def two_clients_def in_sync_def demo_app_fields demo_rs_def demo_ready_plane_def
        note_startup_commissioning_state_def plane_new_def plane_state_new_def surface_view_def slot_for_def bridged_view_def
        catalog_new_def bt_get_def fun_eq_iff)
  moreover have "app_inv rs_inv (cc_app ?s0)" using demo_app_inv by (simp add: two_clients_def)
  ultimately have "surface_view (rs_plane (app_backend (cc_app ?s3))) = bridged_view (app_catalog (cc_app ?s3))"
    using bridge_catches_up [OF run] by (simp add: two_clients_def)
  moreover have "bridged_view (one_light 9) 9 = Some (light_of 9)"
    by (simp add: bridged_view_def one_light_def bt_get_def light_of_def demo_export_def)
  moreover have "?C\<^sup>*\<^sup>* ?s0 ?s3" using run by (rule rtranclp_mono [THEN predicate2D, rotated]) blast
  ultimately show ?thesis by (intro exI [of _ ?s3]) (simp add: two_clients_def)
qed

end
