(* ===== verification/Slot_Protocol.thy ===== *)
theory Slot_Protocol
  imports Export_Plane Settling "HOL-Library.Multiset"
begin

text \<open>
  One bridged slot under concurrent requests (\<open>matter/export_plane.rs\<close>). State pushes and rebuilds run on
  the threads of the control plane, the run loop and controller commands on the stack thread. The slot
  table is behind a read-write lock: pushes, commands and the draining of reports hold it for reading
  (\<open>with_state\<close>), \<open>set_exports\<close> holds it for writing over the whole copy and swap. The fields of a
  slot are atomics, so the readers of the lock interleave between any two accesses. Slots of one boolean
  are covered (on/off, contact, motion), and rebuilds that keep the export bridged, with any device type.
\<close>

section \<open>Threads\<close>

datatype slot_write = StoreOn bool | StoreClosed bool | StoreOccupied bool

definition slot_store :: "slot_write \<Rightarrow> export_slot \<Rightarrow> bool \<times> export_slot" where
  "slot_store w = (case w of StoreOn v \<Rightarrow> store_on v | StoreClosed v \<Rightarrow> store_closed v | StoreOccupied v \<Rightarrow> store_occupied v)"

text \<open>
  A push is before the lock, before the swap of the value, before the increment of the data version, before
  the report bit, before releasing the lock, or before waking the run loop. A rebuild is before the lock,
  before the copy, before the swap of the table, or before waking.
\<close>

datatype request_pc =
    PushStart slot_write
  | PushEntered slot_write
  | PushStored
  | PushBumped
  | PushLeaving bool
  | RebuildStart "u32 \<times> u32 \<times> u32" export u16
  | RebuildHolding "u32 \<times> u32 \<times> u32" export u16
  | RebuildCopied export_slot
  | Waking

text \<open>The stack thread: waiting, awake, draining under the lock, reporting; or in a controller command.\<close>

datatype loop_pc =
    LWait
  | LAwake
  | LDraining
  | LSwapped u32
  | LReport u32
  | LCommand bool
  | LCommandStored
  | LCommandQueued
  | LCommandNotify

text \<open>
  \<open>ss_last\<close>, \<open>ss_unreported\<close> and \<open>ss_changes\<close> are not in the program: the state last stored (or
  started anew by a rebuild with another kind of device), whether it changed since controllers were last notified, and the number of increments the data version owes.
\<close>

record slot_sys =
  ss_slot :: export_slot
  ss_requests :: "request_pc multiset"
  ss_loop :: loop_pc
  ss_wake :: bool
  ss_last :: slot_kind
  ss_unreported :: bool
  ss_changes :: u32

fun reading :: "request_pc \<Rightarrow> bool" where
  "reading (PushEntered w) = True"
| "reading PushStored = True"
| "reading PushBumped = True"
| "reading (PushLeaving c) = True"
| "reading _ = False"

fun writing :: "request_pc \<Rightarrow> bool" where
  "writing (RebuildHolding rnd e ep) = True"
| "writing (RebuildCopied s) = True"
| "writing _ = False"

fun loop_reading :: "loop_pc \<Rightarrow> bool" where
  "loop_reading LDraining = True"
| "loop_reading (LSwapped b) = True"
| "loop_reading (LCommand on) = True"
| "loop_reading LCommandStored = True"
| "loop_reading LCommandQueued = True"
| "loop_reading _ = False"

definition no_writer :: "request_pc multiset \<Rightarrow> bool" where
  "no_writer R \<longleftrightarrow> (\<forall>pc \<in># R. \<not> writing pc)"

definition no_reader :: "request_pc multiset \<Rightarrow> loop_pc \<Rightarrow> bool" where
  "no_reader R l \<longleftrightarrow> (\<forall>pc \<in># R. \<not> reading pc) \<and> \<not> loop_reading l"

text \<open>A store of the value, with what it means to controllers.\<close>

definition stored :: "bool \<times> export_slot \<Rightarrow> slot_sys \<Rightarrow> slot_sys" where
  "stored r s = s\<lparr>ss_slot := snd r, ss_last := kind (snd r), ss_unreported := ss_unreported s \<or> fst r,
     ss_changes := ss_changes s + (if fst r then 1 else 0)\<rparr>"

section \<open>Steps\<close>

inductive slot_access :: "slot_sys \<Rightarrow> slot_sys \<Rightarrow> bool" where
  arrive_push: "slot_access s (s\<lparr>ss_requests := add_mset (PushStart w) (ss_requests s)\<rparr>)"
| arrive_rebuild: "export_id e = sl_export_id (ss_slot s) \<Longrightarrow>
    slot_access s (s\<lparr>ss_requests := add_mset (RebuildStart rnd e ep) (ss_requests s)\<rparr>)"
| push_enter: "ss_requests s = add_mset (PushStart w) R \<Longrightarrow> no_writer R \<Longrightarrow>
    slot_access s (s\<lparr>ss_requests := add_mset (PushEntered w) R\<rparr>)"
| push_store: "ss_requests s = add_mset (PushEntered w) R \<Longrightarrow> slot_store w (ss_slot s) = r \<Longrightarrow>
    slot_access s (stored r (s\<lparr>ss_requests := add_mset (if fst r then PushStored else PushLeaving False) R\<rparr>))"
| push_bump: "ss_requests s = add_mset PushStored R \<Longrightarrow>
    slot_access s (s\<lparr>ss_requests := add_mset PushBumped R, ss_slot := bump_functional (ss_slot s)\<rparr>)"
| push_report: "ss_requests s = add_mset PushBumped R \<Longrightarrow>
    slot_access s (s\<lparr>ss_requests := add_mset (PushLeaving True) R, ss_slot := request_report REPORT_FUNCTIONAL (ss_slot s)\<rparr>)"
| push_leave: "ss_requests s = add_mset (PushLeaving c) R \<Longrightarrow>
    slot_access s (s\<lparr>ss_requests := (if c then add_mset Waking R else R)\<rparr>)"
| notify_one: "ss_requests s = add_mset Waking R \<Longrightarrow> slot_access s (s\<lparr>ss_requests := R, ss_wake := True\<rparr>)"
| rebuild_enter: "ss_requests s = add_mset (RebuildStart rnd e ep) R \<Longrightarrow> no_writer R \<Longrightarrow> no_reader R (ss_loop s) \<Longrightarrow>
    slot_access s (s\<lparr>ss_requests := add_mset (RebuildHolding rnd e ep) R\<rparr>)"
| rebuild_copy: "ss_requests s = add_mset (RebuildHolding rnd e ep) R \<Longrightarrow>
    slot_access s (s\<lparr>ss_requests := add_mset (RebuildCopied (rebuild rnd e ep (Some (ss_slot s)))) R\<rparr>)"
| rebuild_swap: "ss_requests s = add_mset (RebuildCopied s') R \<Longrightarrow>
    slot_access s (s\<lparr>ss_slot := s',
      ss_last := (if kind_fits (ex_type (sl_export s')) (ss_last s) then ss_last s else kind s'),
      ss_requests := (if surface (ss_slot s) \<noteq> surface s' \<or> pending_reports s' \<noteq> 0 then add_mset Waking R else R)\<rparr>)"
| loop_woken: "ss_loop s = LWait \<Longrightarrow> ss_wake s \<Longrightarrow> slot_access s (s\<lparr>ss_wake := False, ss_loop := LAwake\<rparr>)"
| loop_tick: "ss_loop s = LWait \<Longrightarrow> slot_access s (s\<lparr>ss_loop := LAwake\<rparr>)"
| drain_enter: "ss_loop s = LAwake \<Longrightarrow> no_writer (ss_requests s) \<Longrightarrow> slot_access s (s\<lparr>ss_loop := LDraining\<rparr>)"
| drain_swap: "ss_loop s = LDraining \<Longrightarrow>
    slot_access s (s\<lparr>ss_loop := LSwapped (pending_reports (ss_slot s)), ss_slot := (ss_slot s)\<lparr>pending_reports := 0\<rparr>\<rparr>)"
| drain_leave: "ss_loop s = LSwapped b \<Longrightarrow> slot_access s (s\<lparr>ss_loop := LReport b\<rparr>)"
| report: "ss_loop s = LReport b \<Longrightarrow>
    slot_access s (s\<lparr>ss_loop := LWait, ss_unreported := ss_unreported s \<and> b AND REPORT_FUNCTIONAL = 0\<rparr>)"
| command_enter: "ss_loop s = LWait \<Longrightarrow> no_writer (ss_requests s) \<Longrightarrow> is_KOnOff (kind (ss_slot s)) \<Longrightarrow>
    slot_access s (s\<lparr>ss_loop := LCommand on\<rparr>)"
| command_store: "ss_loop s = LCommand on \<Longrightarrow> store_on on (ss_slot s) = r \<Longrightarrow>
    slot_access s (stored r (s\<lparr>ss_loop := (if fst r then LCommandStored else LCommandQueued)\<rparr>))"
| command_bump: "ss_loop s = LCommandStored \<Longrightarrow>
    slot_access s (s\<lparr>ss_loop := LCommandQueued, ss_slot := bump_functional (ss_slot s)\<rparr>)"
| command_leave: "ss_loop s = LCommandQueued \<Longrightarrow> slot_access s (s\<lparr>ss_loop := LCommandNotify\<rparr>)"
| command_notify: "ss_loop s = LCommandNotify \<Longrightarrow> slot_access s (s\<lparr>ss_loop := LWait, ss_unreported := False\<rparr>)"
| library_bump: "ss_loop s = LWait \<Longrightarrow> no_writer (ss_requests s) \<Longrightarrow>
    slot_access s (s\<lparr>ss_slot := bump_functional (ss_slot s), ss_changes := ss_changes s + 1\<rparr>)"

definition slot_sys_start :: "export_slot \<Rightarrow> slot_sys" where
  "slot_sys_start s0 = \<lparr>ss_slot = s0, ss_requests = {#}, ss_loop = LWait, ss_wake = False, ss_last = kind s0,
     ss_unreported = False, ss_changes = 0\<rparr>"

inductive slot_reachable :: "export_slot \<Rightarrow> slot_sys \<Rightarrow> bool" for s0 where
  start: "slot_reachable s0 (slot_sys_start s0)"
| step: "slot_reachable s0 s \<Longrightarrow> slot_access s s' \<Longrightarrow> slot_reachable s0 s'"


section \<open>The lock\<close>

definition writers :: "request_pc multiset \<Rightarrow> nat" where
  "writers R = size (filter_mset writing R)"

definition readers :: "request_pc multiset \<Rightarrow> loop_pc \<Rightarrow> nat" where
  "readers R l = size (filter_mset reading R) + of_bool (loop_reading l)"

lemma writers_add [simp]: "writers {#} = 0" "writers (add_mset pc R) = writers R + of_bool (writing pc)"
  by (simp_all add: writers_def)

lemma readers_add [simp]: "readers (add_mset pc R) l = readers R l + of_bool (reading pc)"
  by (simp add: readers_def)

lemma no_writer_iff: "no_writer R \<longleftrightarrow> writers R = 0"
  by (auto simp: no_writer_def writers_def)

lemma no_reader_iff: "no_reader R l \<longleftrightarrow> readers R l = 0"
  by (auto simp: no_reader_def readers_def)

lemma readers_loop: "loop_reading l \<Longrightarrow> readers R l \<noteq> 0"
  by (simp add: readers_def)

lemma readers_change: "loop_reading l = loop_reading l' \<Longrightarrow> readers R l = readers R l'"
  by (simp add: readers_def)

lemma readers_out: "\<not> loop_reading l' \<Longrightarrow> readers R l = 0 \<Longrightarrow> readers R l' = 0"
  by (simp add: readers_def)

lemma stored_fields [simp]:
  "ss_requests (stored r s) = ss_requests s" "ss_loop (stored r s) = ss_loop s" "ss_wake (stored r s) = ss_wake s"
  "ss_slot (stored r s) = snd r" "ss_last (stored r s) = kind (snd r)"
  "ss_unreported (stored r s) = (ss_unreported s \<or> fst r)" "ss_changes (stored r s) = ss_changes s + (if fst r then 1 else 0)"
  by (simp_all add: stored_def)

definition lock_inv :: "slot_sys \<Rightarrow> bool" where
  "lock_inv s \<longleftrightarrow> writers (ss_requests s) \<le> 1 \<and> (writers (ss_requests s) = 0 \<or> readers (ss_requests s) (ss_loop s) = 0)"

lemma lock_inv_step [inv_intros]: "slot_access s s' \<Longrightarrow> lock_inv s \<Longrightarrow> lock_inv s'"
  by (induction rule: slot_access.induct)
    (auto simp: lock_inv_def no_writer_iff no_reader_iff readers_def)

lemma lock_excludes:
  assumes "lock_inv s"
  shows "ss_requests s = add_mset pc R \<Longrightarrow> reading pc \<Longrightarrow> writers R = 0"
    and "ss_requests s = add_mset pc R \<Longrightarrow> writing pc \<Longrightarrow> writers R = 0"
    and "loop_reading (ss_loop s) \<Longrightarrow> writers (ss_requests s) = 0"
  using assms by (auto simp: lock_inv_def readers_def)

section \<open>Rebuilds copy the current state\<close>

fun copy_ok :: "export_slot \<Rightarrow> request_pc \<Rightarrow> bool" where
  "copy_ok sl (RebuildCopied s') = (\<exists>rnd e ep. s' = rebuild rnd e ep (Some sl))"
| "copy_ok sl pc = True"

definition copy_inv :: "slot_sys \<Rightarrow> bool" where
  "copy_inv s \<longleftrightarrow> (\<forall>pc \<in># ss_requests s. copy_ok (ss_slot s) pc)"

lemma copy_ok_idle: "\<not> writing pc \<Longrightarrow> copy_ok sl pc"
  by (cases pc) simp_all

lemma copy_ok_no_writer: "writers R = 0 \<Longrightarrow> pc \<in># R \<Longrightarrow> copy_ok sl pc"
  using copy_ok_idle by (auto simp: no_writer_iff [symmetric] no_writer_def)

lemma copy_inv_step [inv_intros]: "slot_access s s' \<Longrightarrow> lock_inv s \<Longrightarrow> copy_inv s \<Longrightarrow> copy_inv s'"
proof (induction rule: slot_access.induct)
  case (push_store s w R r)
  show ?case using lock_excludes(1) [OF push_store(3,1)] copy_ok_no_writer by (auto simp: copy_inv_def)
next
  case (push_bump s R)
  show ?case using lock_excludes(1) [OF push_bump(2,1)] copy_ok_no_writer by (auto simp: copy_inv_def)
next
  case (push_report s R)
  show ?case using lock_excludes(1) [OF push_report(2,1)] copy_ok_no_writer by (auto simp: copy_inv_def)
next
  case (rebuild_copy s rnd e ep R)
  then show ?case by (cases rnd) (simp add: copy_inv_def, blast)
next
  case (rebuild_swap s t R)
  show ?case using lock_excludes(2) [OF rebuild_swap(2,1)] copy_ok_no_writer by (auto simp: copy_inv_def)
next
  case (drain_swap s)
  show ?case using lock_excludes(3) [OF drain_swap(2)] drain_swap(1) copy_ok_no_writer by (auto simp: copy_inv_def)
next
  case (command_store s on r)
  show ?case using lock_excludes(3) [OF command_store(3)] command_store(1) copy_ok_no_writer by (auto simp: copy_inv_def)
next
  case (command_bump s)
  show ?case using lock_excludes(3) [OF command_bump(2)] command_bump(1) copy_ok_no_writer by (auto simp: copy_inv_def)
next
  case (library_bump s)
  then show ?case using copy_ok_no_writer by (auto simp: copy_inv_def no_writer_iff)
qed (auto simp: copy_inv_def)

section \<open>No update is lost\<close>

lemmas slot_updates [step_simps] = bump_functional_def request_report_def

lemma slot_store_fields:
  "slot_store w sl = r \<Longrightarrow> pending_reports (snd r) = pending_reports sl \<and> functional_dataver (snd r) = functional_dataver sl"
  by (auto simp: slot_store_def store_shape split: slot_write.splits)

lemma store_on_fields:
  "store_on on sl = r \<Longrightarrow> pending_reports (snd r) = pending_reports sl \<and> functional_dataver (snd r) = functional_dataver sl"
  using slot_store_fields [of "StoreOn on" sl r] by (simp add: slot_store_def)

lemma copied_slot:
  assumes "copy_inv s" and "ss_requests s = add_mset (RebuildCopied t) R"
  shows "kind_fits (ex_type (sl_export t)) (kind (ss_slot s)) \<Longrightarrow> kind t = kind (ss_slot s)"
    and "functional_dataver t = functional_dataver (ss_slot s)"
    and "pending_reports (ss_slot s) AND REPORT_FUNCTIONAL \<noteq> 0 \<Longrightarrow> pending_reports t AND REPORT_FUNCTIONAL \<noteq> 0"
proof -
  obtain rnd e ep where t: "t = rebuild rnd e ep (Some (ss_slot s))" using assms by (auto simp: copy_inv_def)
  have "sl_export t = e" by (simp add: t rebuild_fields)
  then show "kind_fits (ex_type (sl_export t)) (kind (ss_slot s)) \<Longrightarrow> kind t = kind (ss_slot s)"
    using rebuild_carry [of e "ss_slot s" rnd ep] by (simp add: t)
  show "functional_dataver t = functional_dataver (ss_slot s)" by (simp add: t rebuild_keeps(1))
  have "pending_reports (ss_slot s) AND REPORT_FUNCTIONAL = pending_reports (ss_slot s) AND (pending_reports t AND REPORT_FUNCTIONAL)"
    using rebuild_keeps(2) [of "ss_slot s" rnd e ep] by (simp flip: and.assoc t)
  then show "pending_reports (ss_slot s) AND REPORT_FUNCTIONAL \<noteq> 0 \<Longrightarrow> pending_reports t AND REPORT_FUNCTIONAL \<noteq> 0" by auto
qed

text \<open>The value in the table is the one last stored, and the data version counts every change.\<close>

definition value_inv :: "u32 \<Rightarrow> slot_sys \<Rightarrow> bool" where
  "value_inv v0 s \<longleftrightarrow> kind (ss_slot s) = ss_last s \<and>
     functional_dataver (ss_slot s) + of_nat (count (ss_requests s) PushStored) + of_bool (ss_loop s = LCommandStored) =
       v0 + ss_changes s"

lemma value_inv_step [inv_intros]: "slot_access s s' \<Longrightarrow> copy_inv s \<Longrightarrow> value_inv v0 s \<Longrightarrow> value_inv v0 s'"
proof (induction rule: slot_access.induct)
  case (push_store s w R r)
  then show ?case using slot_store_fields [OF push_store(2)] by (auto simp: value_inv_def algebra_simps)
next
  case (rebuild_swap s t R)
  then show ?case using copied_slot [OF rebuild_swap(2,1)] by (auto simp: value_inv_def)
next
  case (command_store s on r)
  then show ?case using store_on_fields [OF command_store(2)] by (auto simp: value_inv_def algebra_simps)
qed (auto simp: value_inv_def step_simps algebra_simps)

text \<open>A change that controllers were not told of is on its way to them.\<close>

definition report_inv :: "slot_sys \<Rightarrow> bool" where
  "report_inv s \<longleftrightarrow> (ss_unreported s \<longrightarrow>
     pending_reports (ss_slot s) AND REPORT_FUNCTIONAL \<noteq> 0 \<or> PushStored \<in># ss_requests s \<or> PushBumped \<in># ss_requests s \<or>
     (\<exists>b. (ss_loop s = LSwapped b \<or> ss_loop s = LReport b) \<and> b AND REPORT_FUNCTIONAL \<noteq> 0) \<or>
     ss_loop s \<in> {LCommandStored, LCommandQueued, LCommandNotify})"

lemma report_inv_step [inv_intros]: "slot_access s s' \<Longrightarrow> copy_inv s \<Longrightarrow> report_inv s \<Longrightarrow> report_inv s'"
proof (induction rule: slot_access.induct)
  case (push_store s w R r)
  then show ?case using slot_store_fields [OF push_store(2)] by (auto simp: report_inv_def)
next
  case (push_report s R)
  then show ?case by (simp add: report_inv_def request_report_def report_bits bit.conj_disj_distrib2)
next
  case (rebuild_swap s t R)
  then show ?case using copied_slot(3) [OF rebuild_swap(2,1)] by (auto simp: report_inv_def)
next
  case (command_store s on r)
  then show ?case using store_on_fields [OF command_store(2)] by (auto simp: report_inv_def)
qed (auto simp: report_inv_def bump_functional_def)

text \<open>A report bit that is set has woken the run loop or is about to.\<close>

definition wake_inv :: "slot_sys \<Rightarrow> bool" where
  "wake_inv s \<longleftrightarrow> (pending_reports (ss_slot s) \<noteq> 0 \<longrightarrow>
     ss_wake s \<or> PushLeaving True \<in># ss_requests s \<or> Waking \<in># ss_requests s \<or> ss_loop s \<in> {LAwake, LDraining})"

lemma wake_inv_step [inv_intros]: "slot_access s s' \<Longrightarrow> wake_inv s \<Longrightarrow> wake_inv s'"
proof (induction rule: slot_access.induct)
  case (push_store s w R r)
  then show ?case using slot_store_fields [OF push_store(2)] by (auto simp: wake_inv_def)
next
  case (command_store s on r)
  then show ?case using store_on_fields [OF command_store(2)] by (auto simp: wake_inv_def)
qed (auto simp: wake_inv_def step_simps)

lemma slot_reachable_inv:
  assumes "slot_reachable s0 s" and "pending_reports s0 = 0"
  shows "lock_inv s \<and> copy_inv s \<and> value_inv (functional_dataver s0) s \<and> report_inv s \<and> wake_inv s"
  using assms(1)
proof (induction rule: slot_reachable.induct)
  case start
  then show ?case
    using assms(2) by (simp add: slot_sys_start_def lock_inv_def copy_inv_def value_inv_def report_inv_def wake_inv_def)
next
  case (step s s')
  then show ?case
    by (blast intro: inv_intros)
qed

text \<open>C12: No state change is lost between threads: for one slot under any interleaving of state pushes, rebuilds,
  controller commands and the run loop, the slot holds the value last stored (after a rebuild with another kind
  of device, the value that starts with). Its data version has counted every change but those whose push or
  command stands between its store and its increment, and when no request is under way and the run loop sleeps
  with no wake pending, it has counted all, controllers have been notified of every change and no report is
  left.\<close>

theorem no_slot_update_lost:
  assumes "slot_reachable s0 s" and "pending_reports s0 = 0"
  shows "kind (ss_slot s) = ss_last s \<and>
    functional_dataver (ss_slot s) + of_nat (count (ss_requests s) PushStored) + of_bool (ss_loop s = LCommandStored) =
      functional_dataver s0 + ss_changes s \<and>
    (ss_requests s = {#} \<and> ss_loop s = LWait \<and> \<not> ss_wake s \<longrightarrow>
       \<not> ss_unreported s \<and> pending_reports (ss_slot s) = 0 \<and>
       functional_dataver (ss_slot s) = functional_dataver s0 + ss_changes s)"
  using slot_reachable_inv [OF assms] by (auto simp: value_inv_def report_inv_def wake_inv_def)

section \<open>Every request completes\<close>

text \<open>The accesses a request and the loop still have to make, the round of the loop a request wakes included.\<close>

fun request_work :: "request_pc \<Rightarrow> nat" where
  "request_work (PushStart w) = 11"
| "request_work (PushEntered w) = 10"
| "request_work PushStored = 9"
| "request_work PushBumped = 8"
| "request_work (PushLeaving c) = 7"
| "request_work (RebuildStart rnd e ep) = 9"
| "request_work (RebuildHolding rnd e ep) = 8"
| "request_work (RebuildCopied t) = 7"
| "request_work Waking = 6"

fun loop_work :: "loop_pc \<Rightarrow> nat" where
  "loop_work LWait = 0"
| "loop_work LAwake = 4"
| "loop_work LDraining = 3"
| "loop_work (LSwapped b) = 2"
| "loop_work (LReport b) = 1"
| "loop_work (LCommand on) = 4"
| "loop_work LCommandStored = 3"
| "loop_work LCommandQueued = 2"
| "loop_work LCommandNotify = 1"

definition slot_work :: "slot_sys \<Rightarrow> nat" where
  "slot_work s = (\<Sum>pc \<in># ss_requests s. request_work pc) + (if ss_wake s then 5 else 0) + loop_work (ss_loop s)"

lemma slot_work_bound: "slot_work s \<le> 11 * size (ss_requests s) + 9"
proof -
  have "request_work pc \<le> 11" for pc by (cases pc) simp_all
  then have "(\<Sum>pc \<in># R. request_work pc) \<le> 11 * size R" for R by (induction R) (simp_all add: add_mono)
  moreover have "loop_work l \<le> 4" for l by (cases l) simp_all
  ultimately have "(\<Sum>pc \<in># ss_requests s. request_work pc) \<le> 11 * size (ss_requests s)" "loop_work (ss_loop s) \<le> 4" by blast+
  then show ?thesis unfolding slot_work_def by (cases "ss_wake s"; simp)
qed

lemma worked: "slot_access s s' \<Longrightarrow> slot_work s' < slot_work s \<Longrightarrow> \<exists>s'. slot_access s s' \<and> slot_work s' < slot_work s"
  by blast

fun outside :: "request_pc \<Rightarrow> bool" where
  "outside (PushStart w) = True"
| "outside (RebuildStart rnd e ep) = True"
| "outside _ = False"

text \<open>A request that is past the lock is never held up; the others wait for those only.\<close>

lemma inside_steps:
  assumes "pc \<in># ss_requests s" and "\<not> outside pc"
  shows "\<exists>s'. slot_access s s' \<and> slot_work s' < slot_work s"
proof -
  obtain R where R: "ss_requests s = add_mset pc R" using assms(1) by (metis mset_add)
  show ?thesis
  proof (cases pc)
    case (PushEntered w)
    show ?thesis by (rule worked [OF push_store [OF R [unfolded PushEntered] refl]]) (simp add: slot_work_def R PushEntered)
  next
    case PushStored
    show ?thesis by (rule worked [OF push_bump [OF R [unfolded PushStored]]]) (simp add: slot_work_def R PushStored)
  next
    case PushBumped
    show ?thesis by (rule worked [OF push_report [OF R [unfolded PushBumped]]]) (simp add: slot_work_def R PushBumped)
  next
    case (PushLeaving c)
    show ?thesis by (rule worked [OF push_leave [OF R [unfolded PushLeaving]]]) (simp add: slot_work_def R PushLeaving)
  next
    case (RebuildHolding rnd e ep)
    show ?thesis by (rule worked [OF rebuild_copy [OF R [unfolded RebuildHolding]]]) (simp add: slot_work_def R RebuildHolding)
  next
    case (RebuildCopied t)
    show ?thesis by (rule worked [OF rebuild_swap [OF R [unfolded RebuildCopied]]]) (simp add: slot_work_def R RebuildCopied)
  next
    case Waking
    show ?thesis by (rule worked [OF notify_one [OF R [unfolded Waking]]]) (simp add: slot_work_def R Waking)
  qed (use assms(2) in simp_all)
qed

lemma outside_no_lock: "\<forall>pc \<in># R. outside pc \<Longrightarrow> no_writer R \<and> (\<not> loop_reading l \<longrightarrow> no_reader R l)"
proof -
  have "outside pc \<Longrightarrow> \<not> writing pc \<and> \<not> reading pc" for pc by (cases pc) simp_all
  then show "\<forall>pc \<in># R. outside pc \<Longrightarrow> no_writer R \<and> (\<not> loop_reading l \<longrightarrow> no_reader R l)"
    by (auto simp: no_writer_def no_reader_def)
qed

lemma loop_steps:
  assumes "no_writer (ss_requests s)" and "ss_loop s \<noteq> LWait \<or> ss_wake s"
  shows "\<exists>s'. slot_access s s' \<and> slot_work s' < slot_work s"
proof (cases "ss_loop s")
  case LWait
  with assms(2) have w: "ss_wake s" by simp
  show ?thesis by (rule worked [OF loop_woken [OF LWait w]]) (simp add: slot_work_def LWait w)
next
  case LAwake
  show ?thesis by (rule worked [OF drain_enter [OF LAwake assms(1)]]) (simp add: slot_work_def LAwake)
next
  case LDraining
  show ?thesis by (rule worked [OF drain_swap [OF LDraining]]) (simp add: slot_work_def LDraining)
next
  case (LSwapped b)
  show ?thesis by (rule worked [OF drain_leave [OF LSwapped]]) (simp add: slot_work_def LSwapped)
next
  case (LReport b)
  show ?thesis by (rule worked [OF report [OF LReport]]) (simp add: slot_work_def LReport)
next
  case (LCommand on)
  show ?thesis by (rule worked [OF command_store [OF LCommand refl]]) (simp add: slot_work_def LCommand)
next
  case LCommandStored
  show ?thesis by (rule worked [OF command_bump [OF LCommandStored]]) (simp add: slot_work_def LCommandStored)
next
  case LCommandQueued
  show ?thesis by (rule worked [OF command_leave [OF LCommandQueued]]) (simp add: slot_work_def LCommandQueued)
next
  case LCommandNotify
  show ?thesis by (rule worked [OF command_notify [OF LCommandNotify]]) (simp add: slot_work_def LCommandNotify)
qed

lemma slot_progress:
  assumes "slot_work s \<noteq> 0"
  shows "\<exists>s'. slot_access s s' \<and> slot_work s' < slot_work s"
proof (cases "\<forall>pc \<in># ss_requests s. outside pc")
  case False
  then show ?thesis using inside_steps by blast
next
  case True
  show ?thesis
  proof (cases "ss_loop s \<noteq> LWait \<or> ss_wake s")
    case True
    with \<open>\<forall>pc \<in># ss_requests s. outside pc\<close> loop_steps outside_no_lock show ?thesis by blast
  next
    case False
    with assms obtain pc R where R: "ss_requests s = add_mset pc R"
      by (cases "ss_requests s") (auto simp: slot_work_def)
    with True have free: "no_writer R" "no_reader R (ss_loop s)" "outside pc"
      using outside_no_lock [of R "ss_loop s"] False by auto
    show ?thesis
    proof (cases pc)
      case (PushStart w)
      show ?thesis by (rule worked [OF push_enter [OF R [unfolded PushStart] free(1)]]) (simp add: slot_work_def R PushStart)
    next
      case (RebuildStart rnd e ep)
      show ?thesis by (rule worked [OF rebuild_enter [OF R [unfolded RebuildStart] free(1,2)]]) (simp add: slot_work_def R RebuildStart)
    qed (use free(3) in simp_all)
  qed
qed

text \<open>A push that changes the value, from its arrival to the report.\<close>

lemma push_run:
  assumes "slot_store w s0 = (True, t)" and "pending_reports s0 = 0"
  shows "slot_reachable s0 \<lparr>ss_slot = t\<lparr>functional_dataver := functional_dataver s0 + 1\<rparr>, ss_requests = {#}, ss_loop = LWait,
    ss_wake = False, ss_last = kind t, ss_unreported = False, ss_changes = 1\<rparr>"
proof -
  have f: "pending_reports t = 0" "functional_dataver t = functional_dataver s0"
    using slot_store_fields [OF assms(1)] assms(2) by simp_all
  then have t0: "t\<lparr>functional_dataver := x, pending_reports := 0\<rparr> = t\<lparr>functional_dataver := x\<rparr>" for x by (cases t) simp
  let ?b = "bump_functional t"
  let ?r = "request_report REPORT_FUNCTIONAL ?b"
  let ?e = "slot_sys_start s0"
  let ?s = "?e\<lparr>ss_slot := t, ss_last := kind t, ss_unreported := True, ss_changes := 1\<rparr>"
  note R = slot_reachable.step
  have "slot_reachable s0 (?e\<lparr>ss_requests := {#PushStart w#}\<rparr>)"
    using R [OF slot_reachable.start arrive_push, of s0 w] by (simp add: slot_sys_start_def)
  from R [OF this push_enter, of w "{#}"] have "slot_reachable s0 (?e\<lparr>ss_requests := {#PushEntered w#}\<rparr>)"
    by (simp add: slot_sys_start_def no_writer_def)
  from R [OF this push_store, of w "{#}"] assms(1) have "slot_reachable s0 (?s\<lparr>ss_requests := {#PushStored#}\<rparr>)"
    by (simp add: slot_sys_start_def stored_def)
  from R [OF this push_bump, of "{#}"] have "slot_reachable s0 (?s\<lparr>ss_slot := ?b, ss_requests := {#PushBumped#}\<rparr>)"
    by (simp add: slot_sys_start_def)
  from R [OF this push_report, of "{#}"] have "slot_reachable s0 (?s\<lparr>ss_slot := ?r, ss_requests := {#PushLeaving True#}\<rparr>)"
    by (simp add: slot_sys_start_def)
  from R [OF this push_leave, of True "{#}"] have "slot_reachable s0 (?s\<lparr>ss_slot := ?r, ss_requests := {#Waking#}\<rparr>)"
    by (simp add: slot_sys_start_def)
  from R [OF this notify_one, of "{#}"] have "slot_reachable s0 (?s\<lparr>ss_slot := ?r, ss_wake := True\<rparr>)"
    by (simp add: slot_sys_start_def)
  from R [OF this loop_woken] have "slot_reachable s0 (?s\<lparr>ss_slot := ?r, ss_loop := LAwake\<rparr>)"
    by (simp add: slot_sys_start_def)
  from R [OF this drain_enter] have "slot_reachable s0 (?s\<lparr>ss_slot := ?r, ss_loop := LDraining\<rparr>)"
    by (simp add: slot_sys_start_def no_writer_def)
  from R [OF this drain_swap] have "slot_reachable s0 (?s\<lparr>ss_slot := ?b, ss_loop := LSwapped REPORT_FUNCTIONAL\<rparr>)"
    using f t0 by (simp add: slot_sys_start_def request_report_def bump_functional_def)
  from R [OF this drain_leave] have "slot_reachable s0 (?s\<lparr>ss_slot := ?b, ss_loop := LReport REPORT_FUNCTIONAL\<rparr>)"
    by (simp add: slot_sys_start_def)
  from R [OF this report] show ?thesis
    using f by (simp add: slot_sys_start_def REPORT_FUNCTIONAL_def bump_functional_def)
qed

theorem no_slot_update_lost_witness:
  "\<exists>s. slot_reachable (demo_slot ''Lamp'' Light) s \<and> ss_requests s = {#} \<and> kind (ss_slot s) = KOnOff True \<and>
     \<not> ss_unreported s \<and> functional_dataver (ss_slot s) = 31"
proof -
  let ?l = "demo_slot ''Lamp'' Light"
  have k: "kind ?l = KOnOff False" "functional_dataver ?l = 30" "pending_reports ?l = 0"
    by (simp_all add: demo_slot_def rebuild_fields rebuild_kind_def demo_slot_export_def rebuild_def Let_def)
  then have "slot_store (StoreOn True) ?l = (True, ?l\<lparr>kind := KOnOff True\<rparr>)" by (simp add: slot_store_def store_on_def)
  note run = push_run [OF this k(3)]
  obtain s where s: "slot_reachable ?l s" "ss_requests s = {#}" "ss_loop s = LWait" "\<not> ss_wake s" "ss_last s = KOnOff True"
    "ss_changes s = 1"
    by (rule that [OF run]) simp_all
  with no_slot_update_lost [OF s(1) k(3)] k(2) show ?thesis by (intro exI [of _ s]) simp
qed


section \<open>Completion\<close>

text \<open>New work: a request comes in, or the waiting stack thread ticks, gets a command or is called by the library.\<close>

definition slot_arrival :: "slot_sys \<Rightarrow> slot_sys \<Rightarrow> bool" where
  "slot_arrival s s' \<longleftrightarrow> (\<exists>pc. ss_requests s' = add_mset pc (ss_requests s)) \<or>
     (ss_loop s = LWait \<and> ss_requests s' = ss_requests s \<and> ss_wake s' = ss_wake s)"

lemma slot_access_work: "slot_access s s' \<Longrightarrow> \<not> slot_arrival s s' \<Longrightarrow> slot_work s' < slot_work s"
  by (induction rule: slot_access.induct) (auto simp: slot_arrival_def slot_work_def)

lemma slot_access_arrival: "slot_access s s' \<Longrightarrow> slot_arrival s s' \<Longrightarrow> slot_work s \<le> slot_work s'"
  by (induction rule: slot_access.induct)
    (auto simp: slot_arrival_def slot_work_def split: if_splits dest: arg_cong [where f = size])

interpretation slot: settling slot_access slot_arrival "\<lambda>_. True" slot_work
proof unfold_locales
  fix s
  assume "slot_work s \<noteq> 0"
  from slot_progress [OF this] obtain s' where s': "slot_access s s'" "slot_work s' < slot_work s" by blast
  with slot_access_arrival [OF s'(1)] show "\<exists>s'. slot_access s s' \<and> \<not> slot_arrival s s'" by (meson leD)
qed (simp_all add: slot_access_work)

lemma slot_reachable_runs: "(slot_access ^^ n) s s' \<Longrightarrow> slot_reachable s0 s \<Longrightarrow> slot_reachable s0 s'"
  by (induction n arbitrary: s') (auto intro: slot_reachable.step)

lemma no_work_quiescent: "slot_work s = 0 \<Longrightarrow> ss_requests s = {#} \<and> ss_loop s = LWait \<and> \<not> ss_wake s"
proof -
  have "request_work pc \<noteq> 0" for pc by (cases pc) simp_all
  moreover have "loop_work l = 0 \<Longrightarrow> l = LWait" for l by (cases l) simp_all
  ultimately show "slot_work s = 0 \<Longrightarrow> ss_requests s = {#} \<and> ss_loop s = LWait \<and> \<not> ss_wake s"
    by (cases "ss_requests s") (auto simp: slot_work_def split: if_splits)
qed

text \<open>C13: The lock never blocks for good and every change reaches the controllers: whatever pushes, rebuilds and commands
  are in flight in a reachable state, if no more arrive there are at most eleven accesses per open request and nine
  more, under every scheduling, and where no access is left all requests are done, the run loop sleeps, controllers
  have been notified of the value the slot holds, and the data version has counted every change.\<close>

theorem slot_requests_complete:
  assumes "slot_reachable s0 s" and "pending_reports s0 = 0" and "(own_step slot_access slot_arrival ^^ n) s s'"
  shows "n \<le> 11 * size (ss_requests s) + 9 \<and>
    ((\<forall>t. \<not> own_step slot_access slot_arrival s' t) \<longrightarrow>
       ss_requests s' = {#} \<and> ss_loop s' = LWait \<and> \<not> ss_wake s' \<and> \<not> ss_unreported s' \<and> pending_reports (ss_slot s') = 0 \<and>
       kind (ss_slot s') = ss_last s' \<and> functional_dataver (ss_slot s') = functional_dataver s0 + ss_changes s')"
proof -
  have bound: "n \<le> 11 * size (ss_requests s) + 9" using slot.own_bounded [OF assms(3)] slot_work_bound [of s] by simp
  note inv = slot_reachable_inv [OF slot_reachable_runs [OF slot.own_steps [OF assms(3)] assms(1)] assms(2)]
  have "ss_requests s' = {#} \<and> ss_loop s' = LWait \<and> \<not> ss_wake s'" if "\<forall>t. \<not> own_step slot_access slot_arrival s' t"
    using no_work_quiescent slot.stuck_done [OF TrueI] that by blast
  with inv bound show ?thesis by (auto simp: value_inv_def report_inv_def wake_inv_def)
qed

theorem slot_requests_complete_witness:
  "\<exists>s n s'. slot_reachable (demo_slot ''Lamp'' Light) s \<and> size (ss_requests s) = 2 \<and> n \<le> 31 \<and>
     (own_step slot_access slot_arrival ^^ n) s s' \<and> ss_requests s' = {#} \<and> \<not> ss_unreported s'"
proof -
  let ?l = "demo_slot ''Lamp'' Light"
  have p: "pending_reports ?l = 0" by (simp add: demo_slot_def rebuild_def Let_def)
  let ?s = "(slot_sys_start ?l)\<lparr>ss_requests := {#PushStart (StoreOn True), PushStart (StoreOn False)#}\<rparr>"
  have "slot_reachable ?l ((slot_sys_start ?l)\<lparr>ss_requests := {#PushStart (StoreOn False)#}\<rparr>)"
    using slot_reachable.step [OF slot_reachable.start arrive_push, of ?l "StoreOn False"] by (simp add: slot_sys_start_def)
  from slot_reachable.step [OF this arrive_push, of "StoreOn True"]
  have r: "slot_reachable ?l ?s" by (simp add: slot_sys_start_def)
  have two: "size (ss_requests ?s) = 2" by simp
  obtain n s' where run: "(own_step slot_access slot_arrival ^^ n) ?s s'" "slot_work s' = 0"
    using slot.completes [OF TrueI] by blast
  then have "\<not> own_step slot_access slot_arrival s' t" for t using slot.decreasing [OF TrueI, of s' t] by (auto simp: own_step_def)
  with slot_requests_complete [OF r p run(1)] two have "n \<le> 31" "ss_requests s' = {#}" "\<not> ss_unreported s'" by auto
  with r two run(1) show ?thesis by blast
qed

end
