(* ===== verification/Cover_Protocol.thy ===== *)
theory Cover_Protocol
  imports Slot_Protocol
begin

text \<open>
  A cover slot under concurrent requests (\<open>matter/export_plane.rs\<close>). Its state is three atomics, position,
  target and moving, which \<open>apply_cover_ha\<close> loads one after the other and stores one after the other, so
  that pushes of several clients and a controller command interleave between any two accesses. Each step
  function below makes at most one access. A rebuild holds the lock for writing, which no push or command does
  meanwhile (\<open>Slot_Protocol\<close>), and carries the three values over; it is not a step here.
\<close>

section \<open>The accesses\<close>

definition set_position :: "u8 \<Rightarrow> export_slot \<Rightarrow> export_slot" where
  "set_position v s = (case kind s of KCover p t m \<Rightarrow> s\<lparr>kind := KCover v t m\<rparr> | _ \<Rightarrow> s)"

definition set_target :: "u8 \<Rightarrow> export_slot \<Rightarrow> export_slot" where
  "set_target v s = (case kind s of KCover p t m \<Rightarrow> s\<lparr>kind := KCover p v m\<rparr> | _ \<Rightarrow> s)"

definition set_moving :: "bool \<Rightarrow> export_slot \<Rightarrow> export_slot" where
  "set_moving v s = (case kind s of KCover p t m \<Rightarrow> s\<lparr>kind := KCover p t v\<rparr> | _ \<Rightarrow> s)"

lemmas cover_sets = set_position_def set_target_def set_moving_def

text \<open>
  Where a push is: before the three loads (with the values loaded so far), before the store of moving, of the
  target, of the position, of the target again for a cover at rest, before the increment of the data version,
  before the report bit, or done. The flag is the local variable \<open>changed\<close>.
\<close>

datatype cover_push_pc =
    PLoadPosition
  | PLoadTarget u8
  | PLoadMoving u8 u8
  | PMoving u8 u8 bool
  | PAim u8 u8 bool
  | PPosition bool
  | PRest bool
  | PMark bool
  | PReport
  | PEnd bool

fun push_next :: "cover_ha_state \<Rightarrow> cover_push_pc \<times> export_slot \<Rightarrow> cover_push_pc \<times> export_slot" where
  "push_next ha (PLoadPosition, s) = (PLoadTarget (cover_position s), s)"
| "push_next ha (PLoadTarget p, s) = (PLoadMoving p (cover_target s), s)"
| "push_next ha (PLoadMoving p t, s) = (PMoving p t (cover_moving s), s)"
| "push_next ha (PMoving p t m, s) =
     (if ha_motion ha = Stopped
      then (if m then (PPosition True, set_moving False s) else (PPosition False, s))
      else (if \<not> m then (PAim p t True, set_moving True s) else (PAim p t False, s)))"
| "push_next ha (PAim p t c, s) =
     (case ha_motion ha of
        Opening \<Rightarrow> if t \<le> p \<and> t \<noteq> 100 then (PPosition True, set_target 100 s) else (PPosition c, s)
      | Closing \<Rightarrow> if t \<ge> p \<and> t \<noteq> 0 then (PPosition True, set_target 0 s) else (PPosition c, s)
      | Stopped \<Rightarrow> (PPosition c, s))"
| "push_next ha (PPosition c, s) =
     (case ha_position ha of
        None \<Rightarrow> (PMark c, s)
      | Some x \<Rightarrow> ((if ha_motion ha = Stopped then PRest else PMark) (c \<or> cover_position s \<noteq> x), set_position x s))"
| "push_next ha (PRest c, s) =
     (case ha_position ha of None \<Rightarrow> (PMark c, s) | Some x \<Rightarrow> (PMark (c \<or> cover_target s \<noteq> x), set_target x s))"
| "push_next ha (PMark c, s) = (if c then (PReport, bump_functional s) else (PEnd False, s))"
| "push_next ha (PReport, s) = (PEnd True, request_report REPORT_FUNCTIONAL s)"
| "push_next ha (PEnd c, s) = (PEnd c, s)"

text \<open>
  A controller command: the load its target depends on, the store of the target, the store of moving, the
  increment of the data version, the command for Home Assistant. A go-to without a position reads the target,
  before the store and again for the queued command.
\<close>

datatype cover_cmd_pc =
    CLoad
  | CTarget u8
  | CMoving
  | CBump
  | CQueue
  | CEnd command_request

fun cmd_next :: "command_kind \<Rightarrow> u8 option \<Rightarrow> uuid \<Rightarrow> cover_cmd_pc \<times> export_slot \<Rightarrow> cover_cmd_pc \<times> export_slot" where
  "cmd_next ck x i (CLoad, s) =
     (CTarget (case ck of
        CoverOpen \<Rightarrow> 100
      | CoverClose \<Rightarrow> 0
      | CoverStop \<Rightarrow> cover_position s
      | _ \<Rightarrow> min (case x of Some y \<Rightarrow> y | None \<Rightarrow> cover_target s) 100), s)"
| "cmd_next ck x i (CTarget v, s) = (CMoving, set_target v s)"
| "cmd_next ck x i (CMoving, s) = (CBump, set_moving (ck \<noteq> CoverStop) s)"
| "cmd_next ck x i (CBump, s) = (CQueue, bump_functional s)"
| "cmd_next ck x i (CQueue, s) =
     (CEnd \<lparr>cmd_export_id = i, cmd_kind = ck, cmd_on = None, cmd_level = None,
        cmd_position = (if ck = CoverPosition
          then Some (min (case x of Some y \<Rightarrow> y | None \<Rightarrow> cover_target s) 100) else None)\<rparr>, s)"
| "cmd_next ck x i (CEnd c, s) = (CEnd c, s)"

section \<open>Without interference\<close>

lemma funpow_steps: "(f ^^ numeral n) x = (f ^^ pred_numeral n) (f x)" "(f ^^ Suc m) x = (f ^^ m) (f x)"
  by (simp_all add: numeral_eq_Suc funpow_swap1)

lemma cover_set_reads [simp]:
  assumes "kind s = KCover p t m"
  shows "cover_position s = p" "cover_target s = t" "cover_moving s = m"
    "set_position x s = s\<lparr>kind := KCover x t m\<rparr>" "set_target x s = s\<lparr>kind := KCover p x m\<rparr>" "set_moving b s = s\<lparr>kind := KCover p t b\<rparr>"
  using assms by (simp_all add: cover_sets slot_reads)

lemma push_sequential:
  assumes "kind s = KCover p t m"
  shows "(push_next ha ^^ 9) (PLoadPosition, s) =
    (let (changed, s') = apply_cover_ha ha s in (PEnd changed, if changed then mark_functional_changed s' else s'))"
  using assms
  by (cases "ha_motion ha"; cases "ha_position ha"; cases m)
    (auto simp: funpow_steps apply_cover_ha_def swap_opt_def Let_def mark_functional_changed_def bump_functional_def
      cover_sets slot_reads)

lemma cmd_sequential:
  assumes "kind s = KCover p t m" and "ck \<in> {CoverOpen, CoverClose, CoverStop, CoverPosition}"
  shows "\<exists>s'. cover_command ck x s = Some s' \<and>
    (cmd_next ck x i ^^ 5) (CLoad, s) =
      (CEnd \<lparr>cmd_export_id = i, cmd_kind = ck, cmd_on = None, cmd_level = None,
         cmd_position = (if ck = CoverPosition
           then Some (min (case x of Some y \<Rightarrow> y | None \<Rightarrow> cover_target s') 100) else None)\<rparr>, bump_functional s')"
  using assms
  by (cases x) (auto simp: funpow_steps cover_command_def cover_command_open_def cover_command_close_def cover_command_stop_def
      cover_command_position_def bump_functional_def cover_sets slot_reads)

section \<open>The protocol\<close>

text \<open>
  Pushes are threads of the control plane, the run loop and controller commands share the stack thread. A
  change of a field by a push is unreported until the loop notifies the subscribers, one by a command until the
  command's handler does; \<open>cv_unreported\<close> and \<open>cv_commanded\<close> record this and are not in the program.
\<close>

datatype cover_loop =
    VWait
  | VAwake
  | VSwapped u32
  | VCommand command_kind "u8 option" cover_cmd_pc

record cover_sys =
  cv_slot :: export_slot
  cv_pushes :: "(cover_ha_state \<times> cover_push_pc) multiset"
  cv_loop :: cover_loop
  cv_wake :: bool
  cv_queue :: "command_request list"
  cv_unreported :: bool
  cv_commanded :: bool

inductive cover_access :: "cover_sys \<Rightarrow> cover_sys \<Rightarrow> bool" where
  push_arrives: "cover_access s (s\<lparr>cv_pushes := add_mset (ha_cover_from_state v, PLoadPosition) (cv_pushes s)\<rparr>)"
| push_steps: "cv_pushes s = add_mset (ha, pc) R \<Longrightarrow> (\<And>c. pc \<noteq> PEnd c) \<Longrightarrow> push_next ha (pc, cv_slot s) = (pc', sl) \<Longrightarrow>
    cover_access s (s\<lparr>cv_pushes := add_mset (ha, pc') R, cv_slot := sl,
      cv_unreported := cv_unreported s \<or> kind sl \<noteq> kind (cv_slot s)\<rparr>)"
| push_ends: "cv_pushes s = add_mset (ha, PEnd c) R \<Longrightarrow> cover_access s (s\<lparr>cv_pushes := R, cv_wake := cv_wake s \<or> c\<rparr>)"
| loop_wakes: "cv_loop s = VWait \<Longrightarrow> cv_wake s \<Longrightarrow> cover_access s (s\<lparr>cv_loop := VAwake, cv_wake := False\<rparr>)"
| loop_ticks: "cv_loop s = VWait \<Longrightarrow> cover_access s (s\<lparr>cv_loop := VAwake\<rparr>)"
| drains: "cv_loop s = VAwake \<Longrightarrow>
    cover_access s (s\<lparr>cv_loop := VSwapped (pending_reports (cv_slot s)), cv_slot := (cv_slot s)\<lparr>pending_reports := 0\<rparr>\<rparr>)"
| notifies: "cv_loop s = VSwapped b \<Longrightarrow>
    cover_access s (s\<lparr>cv_loop := VWait, cv_unreported := cv_unreported s \<and> b AND REPORT_FUNCTIONAL = 0\<rparr>)"
| command_arrives: "cv_loop s = VWait \<Longrightarrow> ck \<in> {CoverOpen, CoverClose, CoverStop, CoverPosition} \<Longrightarrow>
    cover_access s (s\<lparr>cv_loop := VCommand ck x CLoad\<rparr>)"
| command_steps: "cv_loop s = VCommand ck x pc \<Longrightarrow> (\<And>c. pc \<noteq> CEnd c) \<Longrightarrow>
    cmd_next ck x (sl_export_id (cv_slot s)) (pc, cv_slot s) = (pc', sl) \<Longrightarrow>
    cover_access s (s\<lparr>cv_loop := VCommand ck x pc', cv_slot := sl,
      cv_commanded := cv_commanded s \<or> kind sl \<noteq> kind (cv_slot s)\<rparr>)"
| command_ends: "cv_loop s = VCommand ck x (CEnd c) \<Longrightarrow>
    cover_access s (s\<lparr>cv_loop := VWait, cv_queue := cv_queue s @ [c], cv_commanded := False\<rparr>)"

definition cover_start :: "export_slot \<Rightarrow> cover_sys" where
  "cover_start s0 = \<lparr>cv_slot = s0, cv_pushes = {#}, cv_loop = VWait, cv_wake = False, cv_queue = [], cv_unreported = False,
     cv_commanded = False\<rparr>"

inductive cover_reachable :: "export_slot \<Rightarrow> cover_sys \<Rightarrow> bool" for s0 where
  start: "cover_reachable s0 (cover_start s0)"
| step: "cover_reachable s0 s \<Longrightarrow> cover_access s s' \<Longrightarrow> cover_reachable s0 s'"

section \<open>Every change is reported\<close>

text \<open>A push that has changed a field still owes the report.\<close>

fun owes :: "cover_push_pc \<Rightarrow> bool" where
  "owes (PAim p t c) = c"
| "owes (PPosition c) = c"
| "owes (PRest c) = c"
| "owes (PMark c) = c"
| "owes PReport = True"
| "owes _ = False"

lemma push_next_owes:
  assumes "push_next ha (pc, s) = (pc', s')" and "kind s' \<noteq> kind s \<or> owes pc"
  shows "owes pc' \<or> pending_reports s' AND REPORT_FUNCTIONAL \<noteq> 0"
proof (cases pc)
  case PReport
  with assms(1) have "s' = request_report REPORT_FUNCTIONAL s" by simp
  then show ?thesis by (simp add: request_report_def word_or_and_self REPORT_FUNCTIONAL_def)
qed (use assms in \<open>auto simp: cover_sets slot_reads bump_functional_def split: if_splits cover_motion.splits option.splits slot_kind.splits\<close>)

lemma push_next_pending:
  assumes "push_next ha (pc, s) = (pc', s')"
  shows "pending_reports s AND REPORT_FUNCTIONAL \<noteq> 0 \<Longrightarrow> pending_reports s' AND REPORT_FUNCTIONAL \<noteq> 0"
    and "pending_reports s' = pending_reports s \<or> pc' = PEnd True"
proof -
  have "pending_reports s' = pending_reports s \<or> pc' = PEnd True \<and> pending_reports s' = pending_reports s OR REPORT_FUNCTIONAL"
    using assms
    by (cases pc) (auto simp: cover_sets bump_functional_def request_report_def split: if_splits cover_motion.splits option.splits slot_kind.splits)
  then show "pending_reports s AND REPORT_FUNCTIONAL \<noteq> 0 \<Longrightarrow> pending_reports s' AND REPORT_FUNCTIONAL \<noteq> 0"
    "pending_reports s' = pending_reports s \<or> pc' = PEnd True"
    by (auto simp: word_or_and_self REPORT_FUNCTIONAL_def)
qed

lemma cmd_next_pending: "cmd_next ck x i (pc, s) = (pc', s') \<Longrightarrow> pending_reports s' = pending_reports s"
  by (cases pc) (auto simp: cover_sets bump_functional_def split: slot_kind.splits)

definition cover_report_inv :: "cover_sys \<Rightarrow> bool" where
  "cover_report_inv s \<longleftrightarrow>
     (cv_unreported s \<longrightarrow> pending_reports (cv_slot s) AND REPORT_FUNCTIONAL \<noteq> 0 \<or> (\<exists>x \<in># cv_pushes s. owes (snd x)) \<or>
        (\<exists>b. cv_loop s = VSwapped b \<and> b AND REPORT_FUNCTIONAL \<noteq> 0)) \<and>
     (cv_commanded s \<longrightarrow> (\<exists>ck x pc. cv_loop s = VCommand ck x pc))"

lemma cover_report_step: "cover_access s s' \<Longrightarrow> cover_report_inv s \<Longrightarrow> cover_report_inv s'"
proof (induction rule: cover_access.induct)
  case (push_steps s ha pc R pc' sl)
  then show ?case
    using push_next_owes [OF push_steps(3)] push_next_pending(1) [OF push_steps(3)] by (auto simp: cover_report_inv_def)
next
  case (push_ends s ha c R)
  then show ?case by (auto simp: cover_report_inv_def)
next
  case (command_steps s ck x pc pc' sl)
  then show ?case using cmd_next_pending [OF command_steps(3)] by (auto simp: cover_report_inv_def)
qed (auto simp: cover_report_inv_def)

definition cover_wake_inv :: "cover_sys \<Rightarrow> bool" where
  "cover_wake_inv s \<longleftrightarrow> (pending_reports (cv_slot s) \<noteq> 0 \<longrightarrow>
     cv_wake s \<or> (\<exists>ha. (ha, PEnd True) \<in># cv_pushes s) \<or> cv_loop s = VAwake)"

lemma cover_wake_step: "cover_access s s' \<Longrightarrow> cover_wake_inv s \<Longrightarrow> cover_wake_inv s'"
proof (induction rule: cover_access.induct)
  case (push_steps s ha pc R pc' sl)
  then show ?case using push_next_pending(2) [OF push_steps(3)] by (auto simp: cover_wake_inv_def)
next
  case (push_ends s ha c R)
  then show ?case by (auto simp: cover_wake_inv_def)
next
  case (command_steps s ck x pc pc' sl)
  then show ?case using cmd_next_pending [OF command_steps(3)] by (auto simp: cover_wake_inv_def)
qed (auto simp: cover_wake_inv_def)

text \<open>Positions and targets stay percentages: what is stored comes from a state, a constant or a load.\<close>

definition cover_slot_ok :: "export_slot \<Rightarrow> bool" where
  "cover_slot_ok s \<longleftrightarrow> (\<exists>p t m. kind s = KCover p t m \<and> p \<le> 100 \<and> t \<le> 100)"

definition cover_value_inv :: "cover_sys \<Rightarrow> bool" where
  "cover_value_inv s \<longleftrightarrow> cover_slot_ok (cv_slot s) \<and> (\<forall>x \<in># cv_pushes s. \<forall>q. ha_position (fst x) = Some q \<longrightarrow> q \<le> 100) \<and>
     (\<forall>ck x v. cv_loop s = VCommand ck x (CTarget v) \<longrightarrow> v \<le> 100)"

lemma push_next_ok:
  assumes "push_next ha (pc, s) = (pc', s')" and "cover_slot_ok s" and "\<forall>q. ha_position ha = Some q \<longrightarrow> q \<le> 100"
  shows "cover_slot_ok s'"
  using assms
  by (cases pc) (auto simp: cover_slot_ok_def cover_sets slot_reads bump_functional_def request_report_def
      split: if_splits cover_motion.splits option.splits)

lemma cmd_next_ok:
  assumes "cmd_next ck x i (pc, s) = (pc', s')" and "cover_slot_ok s" and "\<forall>v. pc = CTarget v \<longrightarrow> v \<le> 100"
  shows "cover_slot_ok s' \<and> (\<forall>v. pc' = CTarget v \<longrightarrow> v \<le> 100)"
  using assms
  by (cases pc; cases ck) (auto simp: cover_slot_ok_def cover_sets slot_reads bump_functional_def)

lemma cover_value_step: "cover_access s s' \<Longrightarrow> cover_value_inv s \<Longrightarrow> cover_value_inv s'"
proof (induction rule: cover_access.induct)
  case (push_arrives s v)
  then show ?case using ha_cover_position_range by (auto simp: cover_value_inv_def)
next
  case (push_steps s ha pc R pc' sl)
  then have "cover_slot_ok sl" by (intro push_next_ok [OF push_steps(3)]) (auto simp: cover_value_inv_def)
  with push_steps show ?case by (auto simp: cover_value_inv_def)
next
  case (command_steps s ck x pc pc' sl)
  then have "cover_slot_ok sl \<and> (\<forall>v. pc' = CTarget v \<longrightarrow> v \<le> 100)"
    by (intro cmd_next_ok [OF command_steps(3)]) (auto simp: cover_value_inv_def)
  with command_steps show ?case by (auto simp: cover_value_inv_def)
qed (auto simp: cover_value_inv_def cover_slot_ok_def)

lemma cover_reachable_inv:
  assumes "cover_reachable s0 s" and "pending_reports s0 = 0" and "cover_slot_ok s0"
  shows "cover_report_inv s \<and> cover_wake_inv s \<and> cover_value_inv s"
  using assms(1)
proof (induction rule: cover_reachable.induct)
  case start
  then show ?case
    using assms(2,3) by (simp add: cover_start_def cover_report_inv_def cover_wake_inv_def cover_value_inv_def)
next
  case (step s s')
  then show ?case using cover_report_step cover_wake_step cover_value_step by blast
qed

section \<open>Runs\<close>

lemma push_runs:
  assumes "cover_reachable s0 s" and "cv_pushes s = add_mset (ha, pc) R" and "(push_next ha ^^ n) (pc, cv_slot s) = (pc', sl)"
  shows "\<exists>u. cover_reachable s0 (s\<lparr>cv_pushes := add_mset (ha, pc') R, cv_slot := sl, cv_unreported := u\<rparr>)"
  using assms
proof (induction n arbitrary: s pc)
  case 0
  then have "s\<lparr>cv_pushes := add_mset (ha, pc') R, cv_slot := sl, cv_unreported := cv_unreported s\<rparr> = s" by simp
  with 0 show ?case by metis
next
  case (Suc n)
  obtain pc1 sl1 where one: "push_next ha (pc, cv_slot s) = (pc1, sl1)" by fastforce
  have rest: "(push_next ha ^^ n) (pc1, sl1) = (pc', sl)" using Suc.prems(3) one by (simp add: funpow_Suc_right del: funpow.simps)
  show ?case
  proof (cases "\<exists>c. pc = PEnd c")
    case True
    with one have "pc1 = pc" "sl1 = cv_slot s" by auto
    with rest Suc.IH [OF Suc.prems(1,2)] show ?thesis by simp
  next
    case False
    let ?s = "s\<lparr>cv_pushes := add_mset (ha, pc1) R, cv_slot := sl1, cv_unreported := cv_unreported s \<or> kind sl1 \<noteq> kind (cv_slot s)\<rparr>"
    have "cover_reachable s0 ?s"
      using False by (intro cover_reachable.step [OF Suc.prems(1) push_steps [OF Suc.prems(2) _ one]]) simp
    from Suc.IH [OF this, of pc1] rest show ?thesis by simp
  qed
qed

lemma cmd_next_id: "cmd_next ck x i (pc, s) = (pc', s') \<Longrightarrow> sl_export_id s' = sl_export_id s"
  by (cases pc) (auto simp: cover_sets bump_functional_def split: slot_kind.splits)

lemma cmd_runs:
  assumes "cover_reachable s0 s" and "cv_loop s = VCommand ck x pc"
    and "(cmd_next ck x (sl_export_id (cv_slot s)) ^^ n) (pc, cv_slot s) = (pc', sl)"
  shows "\<exists>u. cover_reachable s0 (s\<lparr>cv_loop := VCommand ck x pc', cv_slot := sl, cv_commanded := u\<rparr>)"
  using assms
proof (induction n arbitrary: s pc)
  case 0
  then have "s\<lparr>cv_loop := VCommand ck x pc', cv_slot := sl, cv_commanded := cv_commanded s\<rparr> = s" by simp
  with 0 show ?case by metis
next
  case (Suc n)
  obtain pc1 sl1 where one: "cmd_next ck x (sl_export_id (cv_slot s)) (pc, cv_slot s) = (pc1, sl1)" by fastforce
  have rest: "(cmd_next ck x (sl_export_id sl1) ^^ n) (pc1, sl1) = (pc', sl)"
    using Suc.prems(3) one cmd_next_id [OF one] by (simp add: funpow_Suc_right del: funpow.simps)
  show ?case
  proof (cases "\<exists>c. pc = CEnd c")
    case True
    with one have "pc1 = pc" "sl1 = cv_slot s" by auto
    with rest Suc.IH [OF Suc.prems(1,2)] show ?thesis by simp
  next
    case False
    let ?s = "s\<lparr>cv_loop := VCommand ck x pc1, cv_slot := sl1, cv_commanded := cv_commanded s \<or> kind sl1 \<noteq> kind (cv_slot s)\<rparr>"
    have "cover_reachable s0 ?s"
      using False by (intro cover_reachable.step [OF Suc.prems(1) command_steps [OF Suc.prems(2) _ one]]) simp
    from Suc.IH [OF this, of pc1] rest show ?thesis by simp
  qed
qed

section \<open>Properties\<close>

text \<open>C14: A cover slot under any interleaving of pushed states, controller commands and the run loop keeps its position
  and target percentages, and when no push is under way and the stack thread sleeps with no wake pending,
  controllers have been notified of every change of a field and no report is left.\<close>

theorem cover_changes_reported:
  assumes "cover_reachable s0 s" and "pending_reports s0 = 0"
    and "kind s0 = KCover p t m" and "p \<le> 100" and "t \<le> 100"
  shows "cover_position (cv_slot s) \<le> 100 \<and> cover_target (cv_slot s) \<le> 100 \<and>
    (cv_pushes s = {#} \<and> cv_loop s = VWait \<and> \<not> cv_wake s \<longrightarrow>
       \<not> cv_unreported s \<and> \<not> cv_commanded s \<and> pending_reports (cv_slot s) = 0)"
proof -
  have "cover_slot_ok s0" using assms(3-5) by (simp add: cover_slot_ok_def)
  note inv = cover_reachable_inv [OF assms(1,2) this]
  then have "\<exists>p t m. kind (cv_slot s) = KCover p t m \<and> p \<le> 100 \<and> t \<le> 100"
    by (simp add: cover_value_inv_def cover_slot_ok_def)
  with inv show ?thesis by (auto simp: cover_report_inv_def cover_wake_inv_def slot_reads)
qed

theorem cover_changes_reported_witness:
  "\<exists>s. cover_reachable (demo_slot ''Blind'' Cover) s \<and> cv_pushes s = {#} \<and> cover_target (cv_slot s) = 0 \<and> cover_moving (cv_slot s) \<and>
     \<not> cv_unreported s \<and> pending_reports (cv_slot s) = 0"
proof -
  let ?s0 = "demo_slot ''Blind'' Cover"
  let ?v = "\<lparr>entity_id = ''cover.b'', ha_state = ''closing'', attributes = []\<rparr>"
  have ha: "ha_cover_from_state ?v = \<lparr>ha_position = None, ha_motion = Closing\<rparr>" by code_simp
  have k: "kind ?s0 = KCover 100 100 False" "pending_reports ?s0 = 0"
    by (simp_all add: demo_slot_def rebuild_fields rebuild_kind_def demo_slot_export_def rebuild_def Let_def)
  define sl where "sl = mark_functional_changed (?s0\<lparr>kind := KCover 100 0 True\<rparr>)"
  have "apply_cover_ha (ha_cover_from_state ?v) ?s0 = (True, ?s0\<lparr>kind := KCover 100 0 True\<rparr>)"
    by (simp add: ha apply_cover_ha_def k(1) Let_def swap_opt_def)
  with push_sequential [OF k(1)] have run: "(push_next (ha_cover_from_state ?v) ^^ 9) (PLoadPosition, ?s0) = (PEnd True, sl)"
    by (simp add: sl_def)
  note R = cover_reachable.step
  have "cover_reachable ?s0 ((cover_start ?s0)\<lparr>cv_pushes := {#(ha_cover_from_state ?v, PLoadPosition)#}\<rparr>)"
    using R [OF cover_reachable.start push_arrives, of ?s0 ?v] by (simp add: cover_start_def)
  from push_runs [OF this, of "ha_cover_from_state ?v" PLoadPosition "{#}" 9 "PEnd True" sl] run obtain u where
    "cover_reachable ?s0 ((cover_start ?s0)\<lparr>cv_pushes := {#(ha_cover_from_state ?v, PEnd True)#}, cv_slot := sl, cv_unreported := u\<rparr>)"
    by (auto simp: cover_start_def)
  from R [OF this push_ends, of _ True "{#}"]
  have "cover_reachable ?s0 ((cover_start ?s0)\<lparr>cv_wake := True, cv_slot := sl, cv_unreported := u\<rparr>)"
    by (simp add: cover_start_def)
  from R [OF this loop_wakes] have "cover_reachable ?s0 ((cover_start ?s0)\<lparr>cv_loop := VAwake, cv_slot := sl, cv_unreported := u\<rparr>)"
    by (simp add: cover_start_def)
  from R [OF this drains] have "cover_reachable ?s0 ((cover_start ?s0)\<lparr>cv_loop := VSwapped (pending_reports sl),
      cv_slot := sl\<lparr>pending_reports := 0\<rparr>, cv_unreported := u\<rparr>)"
    by (simp add: cover_start_def)
  from R [OF this notifies] obtain u' where
    r: "cover_reachable ?s0 ((cover_start ?s0)\<lparr>cv_slot := sl\<lparr>pending_reports := 0\<rparr>, cv_unreported := u'\<rparr>)"
    by (auto simp: cover_start_def)
  have "\<not> u'" using cover_changes_reported [OF r k(2,1)] by (simp add: cover_start_def)
  with r show ?thesis
    by (intro exI [of _ "(cover_start ?s0)\<lparr>cv_slot := sl\<lparr>pending_reports := 0\<rparr>, cv_unreported := u'\<rparr>"])
      (simp add: cover_start_def sl_def slot_reads)
qed

text \<open>C37: A pushed state can undo a controller's target: for a cover at rest at or above its target, a run exists in
  which an opening report has loaded the old target when a go-to-position command to a higher position comes in,
  and stores fully open after it. The command for Home Assistant carries the commanded position, while the target
  controllers read is 100, which neither order of the two requests one after the other gives.\<close>

theorem commanded_target_can_be_lost:
  assumes "kind s0 = KCover p t m" and "t \<le> p" and "p < x" and "x < 100"
    and "ha_motion (ha_cover_from_state v) = Opening"
  shows "\<exists>s. cover_reachable s0 s \<and> cv_pushes s = {#} \<and> cv_loop s = VWait \<and> cover_target (cv_slot s) = 100 \<and>
    map cmd_position (cv_queue s) = [Some x] \<and>
    (\<forall>s1. cover_command CoverPosition (Some x) s0 = Some s1 \<longrightarrow>
       cover_target (snd (apply_cover_ha (ha_cover_from_state v) s1)) = x) \<and>
    (\<forall>s2. cover_command CoverPosition (Some x) (snd (apply_cover_ha (ha_cover_from_state v) s0)) = Some s2 \<longrightarrow>
       cover_target s2 = x)"
proof -
  let ?ha = "ha_cover_from_state v"
  let ?cmd = "\<lparr>cmd_export_id = sl_export_id s0, cmd_kind = CoverPosition, cmd_on = None, cmd_level = None, cmd_position = Some x\<rparr>"
  have x: "min x 100 = x" using assms(4) by simp
  have t: "t \<noteq> 100" using assms(2-4) by auto
  define sl where "sl = bump_functional (s0\<lparr>kind := KCover p x True\<rparr>)"
  have loads: "(push_next ?ha ^^ 3) (PLoadPosition, s0) = (PMoving p t m, s0)"
    using assms(1) by (simp add: funpow_steps slot_reads)
  have cmd: "(cmd_next CoverPosition (Some x) (sl_export_id s0) ^^ 5) (CLoad, s0) = (CEnd ?cmd, sl)"
    using assms(1) x by (simp add: funpow_steps cover_sets sl_def)
  have "\<exists>sl'. (push_next ?ha ^^ 6) (PMoving p t m, sl) = (PEnd True, sl') \<and> cover_target sl' = 100"
    using assms(2,5) t
    by (cases m; cases "ha_position ?ha")
      (simp_all add: funpow_steps sl_def bump_functional_def cover_sets slot_reads request_report_def)
  then obtain sl' where stores: "(push_next ?ha ^^ 6) (PMoving p t m, sl) = (PEnd True, sl')" "cover_target sl' = 100" by blast
  note R = cover_reachable.step
  have "cover_reachable s0 ((cover_start s0)\<lparr>cv_pushes := {#(?ha, PLoadPosition)#}\<rparr>)"
    using R [OF cover_reachable.start push_arrives, of s0 v] by (simp add: cover_start_def)
  from push_runs [OF this, of ?ha PLoadPosition "{#}" 3 "PMoving p t m" s0] loads obtain u where
    "cover_reachable s0 ((cover_start s0)\<lparr>cv_pushes := {#(?ha, PMoving p t m)#}, cv_unreported := u\<rparr>)"
    by (auto simp: cover_start_def)
  from R [OF this command_arrives, of CoverPosition "Some x"] have
    "cover_reachable s0 ((cover_start s0)\<lparr>cv_pushes := {#(?ha, PMoving p t m)#}, cv_unreported := u,
       cv_loop := VCommand CoverPosition (Some x) CLoad\<rparr>)"
    by (simp add: cover_start_def)
  from cmd_runs [OF this, of CoverPosition "Some x" CLoad 5 "CEnd ?cmd" sl] cmd obtain w where
    "cover_reachable s0 ((cover_start s0)\<lparr>cv_pushes := {#(?ha, PMoving p t m)#}, cv_unreported := u,
       cv_loop := VCommand CoverPosition (Some x) (CEnd ?cmd), cv_slot := sl, cv_commanded := w\<rparr>)"
    by (auto simp: cover_start_def)
  from R [OF this command_ends] have
    "cover_reachable s0 ((cover_start s0)\<lparr>cv_pushes := {#(?ha, PMoving p t m)#}, cv_unreported := u,
       cv_slot := sl, cv_queue := [?cmd]\<rparr>)"
    by (simp add: cover_start_def)
  from push_runs [OF this, of ?ha "PMoving p t m" "{#}" 6 "PEnd True" sl'] stores obtain u' where
    "cover_reachable s0 ((cover_start s0)\<lparr>cv_pushes := {#(?ha, PEnd True)#}, cv_unreported := u',
       cv_slot := sl', cv_queue := [?cmd]\<rparr>)"
    by (auto simp: cover_start_def)
  from R [OF this push_ends, of ?ha True "{#}"] have
    run: "cover_reachable s0 ((cover_start s0)\<lparr>cv_wake := True, cv_unreported := u', cv_slot := sl', cv_queue := [?cmd]\<rparr>)"
    by (simp add: cover_start_def)
  have first: "cover_target (snd (apply_cover_ha ?ha s1)) = x" if "cover_command CoverPosition (Some x) s0 = Some s1" for s1
    using that assms(1,3,5) x
    by (auto simp: cover_command_def cover_command_position_def apply_cover_ha_def Let_def swap_opt_def slot_reads not_less
        split: option.splits)
  have second: "cover_target s2 = x" if "cover_command CoverPosition (Some x) (snd (apply_cover_ha ?ha s0)) = Some s2" for s2
    using that assms(1,5) x
    by (auto simp: cover_command_def cover_command_position_def apply_cover_ha_def Let_def swap_opt_def slot_reads
        split: option.splits)
  show ?thesis
    using run stores(2) first second
    by (intro exI [of _ "(cover_start s0)\<lparr>cv_wake := True, cv_unreported := u', cv_slot := sl', cv_queue := [?cmd]\<rparr>"])
      (simp add: cover_start_def)
qed

theorem commanded_target_can_be_lost_witness:
  "\<exists>s. cover_reachable ((demo_slot ''Blind'' Cover)\<lparr>kind := KCover 50 50 False\<rparr>) s \<and> cover_target (cv_slot s) = 100 \<and>
     map cmd_position (cv_queue s) = [Some 80]"
proof -
  let ?s0 = "(demo_slot ''Blind'' Cover)\<lparr>kind := KCover 50 50 False\<rparr>"
  have ha: "ha_motion (ha_cover_from_state \<lparr>entity_id = ''cover.b'', ha_state = ''opening'', attributes = []\<rparr>) = Opening"
    by code_simp
  have "kind ?s0 = KCover 50 50 False" "(50 :: u8) \<le> 50" "(50 :: u8) < 80" "(80 :: u8) < 100" by simp_all
  from commanded_target_can_be_lost [OF this ha] show ?thesis by (elim exE conjE) (intro exI conjI)
qed

text \<open>The accesses are those of the one-step definitions: a pushed cover state or a controller command that nothing interferes with does what
  its one-step definition says: the push ends after at most nine accesses with the slot of
  \<open>apply_cover_ha\<close>, its data version and report bit moved exactly when that changed the slot, and the command
  after five with the slot of the one-step command and the command queued for Home Assistant.\<close>

lemma cover_accesses_sequential:
  assumes "kind s = KCover p t m" and "ck \<in> {CoverOpen, CoverClose, CoverStop, CoverPosition}"
  shows "(push_next ha ^^ 9) (PLoadPosition, s) =
      (let (changed, s') = apply_cover_ha ha s in (PEnd changed, if changed then mark_functional_changed s' else s')) \<and>
    (\<exists>s'. cover_command ck x s = Some s' \<and>
      (cmd_next ck x i ^^ 5) (CLoad, s) =
        (CEnd \<lparr>cmd_export_id = i, cmd_kind = ck, cmd_on = None, cmd_level = None,
           cmd_position = (if ck = CoverPosition
             then Some (min (case x of Some y \<Rightarrow> y | None \<Rightarrow> cover_target s') 100) else None)\<rparr>, bump_functional s'))"
  using push_sequential [OF assms(1)] cmd_sequential [OF assms] by blast

lemma cover_accesses_sequential_witness:
  "(push_next \<lparr>ha_position = Some 40, ha_motion = Closing\<rparr> ^^ 9) (PLoadPosition, demo_slot ''Blind'' Cover) =
     (PEnd True, mark_functional_changed ((demo_slot ''Blind'' Cover)\<lparr>kind := KCover 40 0 True\<rparr>))"
proof -
  have k: "kind (demo_slot ''Blind'' Cover) = KCover 100 100 False"
    by (simp add: demo_slot_def rebuild_fields rebuild_kind_def demo_slot_export_def)
  have "CoverOpen \<in> {CoverOpen, CoverClose, CoverStop, CoverPosition}" by simp
  from cover_accesses_sequential [OF k this, of "\<lparr>ha_position = Some 40, ha_motion = Closing\<rparr>"] show ?thesis
    by (simp add: apply_cover_ha_def k Let_def swap_opt_def)
qed


section \<open>Every request completes\<close>

fun push_work :: "cover_push_pc \<Rightarrow> nat" where
  "push_work PLoadPosition = 13"
| "push_work (PLoadTarget p) = 12"
| "push_work (PLoadMoving p t) = 11"
| "push_work (PMoving p t m) = 10"
| "push_work (PAim p t c) = 9"
| "push_work (PPosition c) = 8"
| "push_work (PRest c) = 7"
| "push_work (PMark c) = 6"
| "push_work PReport = 5"
| "push_work (PEnd c) = 4"

fun cmd_work :: "cover_cmd_pc \<Rightarrow> nat" where
  "cmd_work CLoad = 6"
| "cmd_work (CTarget v) = 5"
| "cmd_work CMoving = 4"
| "cmd_work CBump = 3"
| "cmd_work CQueue = 2"
| "cmd_work (CEnd c) = 1"

fun cover_loop_work :: "cover_loop \<Rightarrow> nat" where
  "cover_loop_work VWait = 0"
| "cover_loop_work VAwake = 2"
| "cover_loop_work (VSwapped b) = 1"
| "cover_loop_work (VCommand ck x pc) = cmd_work pc"

definition cover_work :: "cover_sys \<Rightarrow> nat" where
  "cover_work s = (\<Sum>x \<in># cv_pushes s. push_work (snd x)) + (if cv_wake s then 3 else 0) + cover_loop_work (cv_loop s)"

lemma push_next_work: "push_next ha (pc, s) = (pc', s') \<Longrightarrow> (\<And>c. pc \<noteq> PEnd c) \<Longrightarrow> push_work pc' < push_work pc"
  by (cases pc) (auto split: if_splits option.splits cover_motion.splits)

lemma cmd_next_work: "cmd_next ck x i (pc, s) = (pc', s') \<Longrightarrow> (\<And>c. pc \<noteq> CEnd c) \<Longrightarrow> cmd_work pc' < cmd_work pc"
  by (cases pc) auto

lemma cover_work_bound: "cover_work s \<le> 13 * size (cv_pushes s) + 9"
proof -
  have "push_work pc \<le> 13" for pc by (cases pc) simp_all
  then have "(\<Sum>x \<in># R. push_work (snd x)) \<le> 13 * size R" for R :: "(cover_ha_state \<times> cover_push_pc) multiset"
    by (induction R) (simp_all add: add_mono)
  moreover have "cmd_work pc \<le> 6" for pc by (cases pc) simp_all
  then have "cover_loop_work l \<le> 6" for l by (cases l) simp_all
  ultimately have "(\<Sum>x \<in># cv_pushes s. push_work (snd x)) \<le> 13 * size (cv_pushes s)" "cover_loop_work (cv_loop s) \<le> 6" by blast+
  then show ?thesis unfolding cover_work_def by (cases "cv_wake s"; simp)
qed

text \<open>New work: a push comes in, or the waiting stack thread ticks or gets a command.\<close>

definition cover_arrival :: "cover_sys \<Rightarrow> cover_sys \<Rightarrow> bool" where
  "cover_arrival s s' \<longleftrightarrow> (\<exists>x. cv_pushes s' = add_mset x (cv_pushes s)) \<or>
     (cv_loop s = VWait \<and> cv_pushes s' = cv_pushes s \<and> cv_wake s' = cv_wake s)"

lemma cover_access_work: "cover_access s s' \<Longrightarrow> \<not> cover_arrival s s' \<Longrightarrow> cover_work s' < cover_work s"
proof (induction rule: cover_access.induct)
  case (push_steps s ha pc R pc' sl)
  then show ?case using push_next_work [OF push_steps(3,2)] by (simp add: cover_work_def)
next
  case (command_steps s ck x pc pc' sl)
  then show ?case using cmd_next_work [OF command_steps(3,2)] by (simp add: cover_work_def)
qed (auto simp: cover_arrival_def cover_work_def)

lemma cover_progress:
  assumes "cover_work s \<noteq> 0"
  shows "\<exists>s'. cover_access s s' \<and> \<not> cover_arrival s s'"
proof (cases "cv_pushes s")
  case (add x R)
  obtain ha pc where x: "x = (ha, pc)" by fastforce
  show ?thesis
  proof (cases "\<exists>c. pc = PEnd c")
    case True
    then obtain c where "pc = PEnd c" by blast
    with add x push_ends [of s ha c R] show ?thesis
      by (intro exI conjI) (simp, auto simp: cover_arrival_def dest: arg_cong [where f = size])
  next
    case False
    obtain pc' sl where n: "push_next ha (pc, cv_slot s) = (pc', sl)" by fastforce
    with False have "push_work pc' < push_work pc" by (intro push_next_work) auto
    then have "pc' \<noteq> pc" by auto
    with add x push_steps [OF add [unfolded x] _ n] False show ?thesis
      by (intro exI conjI) (blast, auto simp: cover_arrival_def dest: arg_cong [where f = size])
  qed
next
  case empty
  show ?thesis
  proof (cases "cv_loop s")
    case VWait
    with empty assms have "cv_wake s" by (simp add: cover_work_def split: if_splits)
    with VWait loop_wakes [of s] show ?thesis by (intro exI conjI) (simp, simp add: cover_arrival_def)
  next
    case VAwake
    with drains [of s] show ?thesis by (intro exI conjI) (simp, simp add: cover_arrival_def)
  next
    case (VSwapped b)
    with notifies [of s b] show ?thesis by (intro exI conjI) (simp, simp add: cover_arrival_def)
  next
    case (VCommand ck x pc)
    show ?thesis
    proof (cases "\<exists>c. pc = CEnd c")
      case True
      then obtain c where "pc = CEnd c" by blast
      with VCommand command_ends [of s ck x c] show ?thesis by (intro exI conjI) (simp, simp add: cover_arrival_def)
    next
      case False
      obtain pc' sl where "cmd_next ck x (sl_export_id (cv_slot s)) (pc, cv_slot s) = (pc', sl)" by fastforce
      from command_steps [OF VCommand _ this] False VCommand show ?thesis
        by (intro exI conjI) (blast, simp add: cover_arrival_def)
    qed
  qed
qed

interpretation cover: settling cover_access cover_arrival "\<lambda>_. True" cover_work
  by unfold_locales (simp_all add: cover_progress cover_access_work)

lemma cover_reachable_runs: "(cover_access ^^ n) s s' \<Longrightarrow> cover_reachable s0 s \<Longrightarrow> cover_reachable s0 s'"
  by (induction n arbitrary: s') (auto intro: cover_reachable.step)

lemma no_cover_work: "cover_work s = 0 \<Longrightarrow> cv_pushes s = {#} \<and> cv_loop s = VWait \<and> \<not> cv_wake s"
proof -
  have p: "push_work pc \<noteq> 0" for pc by (cases pc) simp_all
  have "cmd_work pc \<noteq> 0" for pc by (cases pc) simp_all
  then have "cover_loop_work l = 0 \<Longrightarrow> l = VWait" for l by (cases l) simp_all
  with p show "cover_work s = 0 \<Longrightarrow> cv_pushes s = {#} \<and> cv_loop s = VWait \<and> \<not> cv_wake s"
    by (cases "cv_pushes s") (auto simp: cover_work_def split: if_splits)
qed

text \<open>C15: Requests on a cover slot complete: whatever pushes and command are under way in a reachable state, if no more
  arrive there are at most thirteen accesses per push and nine more, under every scheduling, and where no access is
  left the pushes and the command are done, the run loop sleeps, and controllers have been notified of every change
  of position, target and movement.\<close>

theorem cover_requests_complete:
  assumes "cover_reachable s0 s" and "pending_reports s0 = 0" and "kind s0 = KCover p t m" and "p \<le> 100" and "t \<le> 100"
    and "(own_step cover_access cover_arrival ^^ n) s s'"
  shows "n \<le> 13 * size (cv_pushes s) + 9 \<and>
    ((\<forall>u. \<not> own_step cover_access cover_arrival s' u) \<longrightarrow>
       cv_pushes s' = {#} \<and> cv_loop s' = VWait \<and> \<not> cv_wake s' \<and> \<not> cv_unreported s' \<and> \<not> cv_commanded s' \<and>
       pending_reports (cv_slot s') = 0)"
proof -
  have bound: "n \<le> 13 * size (cv_pushes s) + 9" using cover.own_bounded [OF assms(6)] cover_work_bound [of s] by simp
  have "cover_slot_ok s0" using assms(3-5) by (simp add: cover_slot_ok_def)
  note inv = cover_reachable_inv [OF cover_reachable_runs [OF cover.own_steps [OF assms(6)] assms(1)] assms(2) this]
  have "cv_pushes s' = {#} \<and> cv_loop s' = VWait \<and> \<not> cv_wake s'" if "\<forall>u. \<not> own_step cover_access cover_arrival s' u"
    using no_cover_work cover.stuck_done [OF TrueI] that by blast
  with inv bound show ?thesis by (auto simp: cover_report_inv_def cover_wake_inv_def)
qed

theorem cover_requests_complete_witness:
  "\<exists>s n s'. cover_reachable (demo_slot ''Blind'' Cover) s \<and> size (cv_pushes s) = 1 \<and> n \<le> 22 \<and>
     (own_step cover_access cover_arrival ^^ n) s s' \<and> cv_pushes s' = {#} \<and> \<not> cv_unreported s'"
proof -
  let ?blind = "demo_slot ''Blind'' Cover"
  have k: "kind ?blind = KCover 100 100 False" "pending_reports ?blind = 0"
    by (simp_all add: demo_slot_def rebuild_fields rebuild_kind_def demo_slot_export_def rebuild_def Let_def)
  let ?v = "\<lparr>entity_id = ''cover.b'', ha_state = ''closing'', attributes = []\<rparr>"
  let ?s = "(cover_start ?blind)\<lparr>cv_pushes := {#(ha_cover_from_state ?v, PLoadPosition)#}\<rparr>"
  have r: "cover_reachable ?blind ?s"
    using cover_reachable.step [OF cover_reachable.start push_arrives, of ?blind ?v] by (simp add: cover_start_def)
  obtain n s' where run: "(own_step cover_access cover_arrival ^^ n) ?s s'" "cover_work s' = 0"
    using cover.completes [OF TrueI] by blast
  then have "\<not> own_step cover_access cover_arrival s' u" for u using cover.decreasing [OF TrueI, of s' u] by (auto simp: own_step_def)
  with cover_requests_complete [OF r k(2,1) _ _ run(1)] have "n \<le> 22" "cv_pushes s' = {#}" "\<not> cv_unreported s'" by auto
  with r run(1) show ?thesis by (intro exI [of _ ?s] exI [of _ n] exI [of _ s']) simp
qed

end
