(* ===== verification/Window_Mailbox.thy ===== *)
theory Window_Mailbox
  imports Pairing_Window Settling
begin

text \<open>
  The mailbox of window requests between the threads of the control plane and the stack thread
  (\<open>post_window_request\<close> and \<open>drain_window_request\<close> of \<open>matter/export_plane.rs\<close>), step by step.
  A request is a ticket: it is posted once, waits on its own channel for at most ten seconds, and on a
  timeout (or when its channel is dropped) empties the mailbox in a second access. The stack thread takes
  a request, executes it and replies; samples of the fabrics come between.
\<close>

section \<open>Steps\<close>

datatype caller_state = NotPosted | Waiting | TimedOut | Returned "string + unit"
datatype server_state = ServerIdle | Serving window_request | Replying nat "string + unit"

text \<open>\<open>mx_log\<close> is not in the program: the requests the stack executed, with their results.\<close>

record mailbox_sys =
  mx_plane :: export_plane
  mx_caller :: "nat \<Rightarrow> caller_state"
  mx_reply :: "nat \<Rightarrow> (string + unit) option"
  mx_server :: server_state
  mx_log :: "(nat \<times> (string + unit)) list"

text \<open>\<open>wops\<close> is the operation each ticket asks for.\<close>

inductive mailbox_step :: "(nat \<Rightarrow> window_op) \<Rightarrow> mailbox_sys \<Rightarrow> mailbox_sys \<Rightarrow> bool" for wops where
  post: "mx_caller s k = NotPosted \<Longrightarrow> post_window_request (wops k) k (mx_plane s) = (Inr u, p) \<Longrightarrow>
    mailbox_step wops s (s\<lparr>mx_plane := p, mx_caller := (mx_caller s)(k := Waiting)\<rparr>)"
| refuse: "mx_caller s k = NotPosted \<Longrightarrow> post_window_request (wops k) k (mx_plane s) = (Inl e, p) \<Longrightarrow>
    mailbox_step wops s (s\<lparr>mx_plane := p, mx_caller := (mx_caller s)(k := Returned (Inl e))\<rparr>)"
| take: "mx_server s = ServerIdle \<Longrightarrow> take_window_request (mx_plane s) = (Some req, p) \<Longrightarrow>
    mailbox_step wops s (s\<lparr>mx_plane := p, mx_server := Serving req\<rparr>)"
| serve: "mx_server s = Serving req \<Longrightarrow> execute_window_op env (req_op req) (mx_plane s) = (r, calls, p) \<Longrightarrow>
    mailbox_step wops s (s\<lparr>mx_plane := p, mx_server := Replying (req_ticket req) r, mx_log := mx_log s @ [(req_ticket req, r)]\<rparr>)"
| reply: "mx_server s = Replying k r \<Longrightarrow>
    mailbox_step wops s (s\<lparr>mx_server := ServerIdle, mx_reply := (mx_reply s)(k \<mapsto> r)\<rparr>)"
| receive: "mx_caller s k = Waiting \<Longrightarrow> mx_reply s k = Some r \<Longrightarrow>
    mailbox_step wops s (s\<lparr>mx_caller := (mx_caller s)(k := Returned r)\<rparr>)"
| timeout: "mx_caller s k = Waiting \<Longrightarrow> mx_reply s k = None \<Longrightarrow>
    mailbox_step wops s (s\<lparr>mx_caller := (mx_caller s)(k := TimedOut)\<rparr>)"
| clear: "mx_caller s k = TimedOut \<Longrightarrow> window_request_timeout (mx_plane s) = (msg, p) \<Longrightarrow>
    mailbox_step wops s (s\<lparr>mx_plane := p, mx_caller := (mx_caller s)(k := Returned (Inl msg))\<rparr>)"
| sample: "mx_server s = ServerIdle \<Longrightarrow> mailbox_step wops s (s\<lparr>mx_plane := sample_fabrics now n (mx_plane s)\<rparr>)"

definition mailbox_start :: "export_plane \<Rightarrow> mailbox_sys" where
  "mailbox_start p = \<lparr>mx_plane = p, mx_caller = (\<lambda>_. NotPosted), mx_reply = Map.empty, mx_server = ServerIdle, mx_log = []\<rparr>"

inductive mailbox_reachable :: "(nat \<Rightarrow> window_op) \<Rightarrow> export_plane \<Rightarrow> mailbox_sys \<Rightarrow> bool" for wops p where
  start: "mailbox_reachable wops p (mailbox_start p)"
| step: "mailbox_reachable wops p s \<Longrightarrow> mailbox_step wops s s' \<Longrightarrow> mailbox_reachable wops p s'"

definition busy_mailbox_message :: string where "busy_mailbox_message = ''pairing window request already in flight''"
definition timeout_message :: string where
  "timeout_message = ''pairing window request timed out waiting for the Matter stack''"

section \<open>Who holds a request\<close>

text \<open>A request is nowhere, in the mailbox, at the stack, or executed; and what its caller may have been told.\<close>

definition not_executed :: "nat \<Rightarrow> mailbox_sys \<Rightarrow> bool" where
  "not_executed k s \<longleftrightarrow> k \<notin> fst ` set (mx_log s) \<and> mx_reply s k = None"

definition mailbox_inv :: "(nat \<Rightarrow> window_op) \<Rightarrow> mailbox_sys \<Rightarrow> bool" where
  "mailbox_inv wops s \<longleftrightarrow>
     (\<forall>req. window_request (mx_plane s) = Some req \<longrightarrow> req_op req = wops (req_ticket req) \<and>
        mx_caller s (req_ticket req) \<in> {Waiting, TimedOut} \<and> not_executed (req_ticket req) s)"

definition server_inv :: "(nat \<Rightarrow> window_op) \<Rightarrow> mailbox_sys \<Rightarrow> bool" where
  "server_inv wops s \<longleftrightarrow>
     (case mx_server s of
        ServerIdle \<Rightarrow> True
      | Serving req \<Rightarrow> req_op req = wops (req_ticket req) \<and> mx_caller s (req_ticket req) \<noteq> NotPosted \<and>
          not_executed (req_ticket req) s \<and> (\<forall>r. window_request (mx_plane s) = Some r \<longrightarrow> req_ticket r \<noteq> req_ticket req)
      | Replying k r \<Rightarrow> (k, r) \<in> set (mx_log s))"

definition caller_inv :: "mailbox_sys \<Rightarrow> bool" where
  "caller_inv s \<longleftrightarrow> distinct (map fst (mx_log s)) \<and> (\<forall>k r. mx_reply s k = Some r \<longrightarrow> (k, r) \<in> set (mx_log s)) \<and>
     (\<forall>k. mx_caller s k = NotPosted \<longrightarrow> not_executed k s) \<and>
     (\<forall>k r. mx_caller s k = Returned r \<longrightarrow> (k, r) \<in> set (mx_log s) \<or> r \<in> {Inl busy_mailbox_message, Inl timeout_message})"

lemma execute_keeps_mailbox:
  "execute_window_op env wop p = (r, calls, p') \<Longrightarrow> window_request p' = window_request p"
  by (auto simp: execute_window_op_def Let_def establish_fabric_baseline_def mark_window_opened_def mark_window_closed_def
      split: window_op.splits if_splits sum.splits)

lemma sample_keeps_mailbox: "window_request (sample_fabrics now n p) = window_request p"
  by (simp add: sample_fabrics_def apply_fabric_sample_def Let_def)

lemmas mailbox_ops [step_simps] = post_window_request_def take_window_request_def window_request_timeout_def

lemma mailbox_inv_step [inv_intros]:
  "mailbox_step wops s s' \<Longrightarrow> server_inv wops s \<Longrightarrow> caller_inv s \<Longrightarrow> mailbox_inv wops s \<Longrightarrow> mailbox_inv wops s'"
proof (induction rule: mailbox_step.induct)
  case (post s k u p)
  then have "p = (mx_plane s)\<lparr>window_request := Some \<lparr>req_op = wops k, req_ticket = k\<rparr>, wake := True\<rparr>" "not_executed k s"
    by (auto simp: step_simps caller_inv_def split: if_splits)
  then show ?case by (simp add: mailbox_inv_def not_executed_def)
next
  case (serve s req env r calls p)
  then show ?case
    using execute_keeps_mailbox [OF serve(2)] by (auto simp: mailbox_inv_def server_inv_def not_executed_def)
next
  case (reply s k r)
  then show ?case by (force simp: mailbox_inv_def server_inv_def not_executed_def)
qed (auto simp: mailbox_inv_def caller_inv_def not_executed_def step_simps sample_keeps_mailbox split: if_splits)

lemma server_inv_step [inv_intros]:
  "mailbox_step wops s s' \<Longrightarrow> caller_inv s \<Longrightarrow> mailbox_inv wops s \<Longrightarrow> server_inv wops s \<Longrightarrow> server_inv wops s'"
proof (induction rule: mailbox_step.induct)
  case (serve s req env r calls p)
  then show ?case by (auto simp: server_inv_def)
qed (auto simp: server_inv_def mailbox_inv_def not_executed_def step_simps sample_keeps_mailbox
    split: server_state.splits if_splits)

lemma caller_inv_step [inv_intros]:
  "mailbox_step wops s s' \<Longrightarrow> mailbox_inv wops s \<Longrightarrow> server_inv wops s \<Longrightarrow> caller_inv s \<Longrightarrow> caller_inv s'"
proof (induction rule: mailbox_step.induct)
  case (serve s req env r calls p)
  then show ?case by (auto simp: caller_inv_def server_inv_def not_executed_def)
next
  case (reply s k r)
  then show ?case by (force simp: caller_inv_def server_inv_def not_executed_def)
qed (auto simp: caller_inv_def server_inv_def mailbox_inv_def not_executed_def step_simps busy_mailbox_message_def
    timeout_message_def image_iff split: if_splits)

lemma mailbox_reachable_inv:
  assumes "mailbox_reachable wops p s" and "window_request p = None"
  shows "mailbox_inv wops s \<and> server_inv wops s \<and> caller_inv s"
  using assms(1)
proof (induction rule: mailbox_reachable.induct)
  case start
  then show ?case
    using assms(2) by (simp add: mailbox_start_def mailbox_inv_def server_inv_def caller_inv_def not_executed_def)
next
  case (step s s')
  then show ?case by (blast intro: inv_intros)
qed

text \<open>C26: Requests to open or close the pairing window are served at most once and answered truthfully: under any
  interleaving of callers, timeouts and the stack thread, each ticket is executed at most once, a caller that
  is told a result other than the mailbox being busy or a timeout is told the result of its own request, and
  once every caller has returned the mailbox is empty, so no later request is refused because of them.\<close>

theorem window_requests_answered:
  assumes "mailbox_reachable wops p s" and "window_request p = None"
  shows "distinct (map fst (mx_log s)) \<and>
    (\<forall>k r. mx_caller s k = Returned r \<longrightarrow> r \<notin> {Inl busy_mailbox_message, Inl timeout_message} \<longrightarrow> (k, r) \<in> set (mx_log s)) \<and>
    ((\<forall>k. mx_caller s k \<notin> {Waiting, TimedOut}) \<longrightarrow> window_request (mx_plane s) = None)"
proof -
  note inv = mailbox_reachable_inv [OF assms]
  then have "distinct (map fst (mx_log s)) \<and>
      (\<forall>k r. mx_caller s k = Returned r \<longrightarrow> r \<notin> {Inl busy_mailbox_message, Inl timeout_message} \<longrightarrow> (k, r) \<in> set (mx_log s))"
    by (auto simp: caller_inv_def)
  moreover have "window_request (mx_plane s) = None" if "\<forall>k. mx_caller s k \<notin> {Waiting, TimedOut}"
    using inv that by (cases "window_request (mx_plane s)") (auto simp: mailbox_inv_def)
  ultimately show ?thesis by blast
qed

section \<open>Two runs\<close>

text \<open>Ticket 0 is posted and taken by the stack; ticket 1 is refused meanwhile.\<close>

definition taken_sys :: "(nat \<Rightarrow> window_op) \<Rightarrow> export_plane \<Rightarrow> mailbox_sys" where
  "taken_sys wops p = (mailbox_start (p\<lparr>wake := True\<rparr>))\<lparr>
     mx_caller := (\<lambda>_. NotPosted)(0 := Waiting, 1 := Returned (Inl busy_mailbox_message)),
     mx_server := Serving \<lparr>req_op = wops 0, req_ticket = 0\<rparr>\<rparr>"

lemma taken_reachable:
  assumes "window_request p = None"
  shows "mailbox_reachable wops p (taken_sys wops p)"
proof -
  let ?p = "p\<lparr>window_request := Some \<lparr>req_op = wops 0, req_ticket = 0\<rparr>, wake := True\<rparr>"
  let ?s = "(mailbox_start ?p)\<lparr>mx_caller := (\<lambda>_. NotPosted)(0 := Waiting)\<rparr>"
  note R = mailbox_reachable.step
  have p: "?p\<lparr>window_request := None\<rparr> = p\<lparr>wake := True\<rparr>" using assms by (cases p) simp
  have "mailbox_reachable wops p ?s"
    using R [OF mailbox_reachable.start [of wops p] post [where k = 0 and p = ?p and u = "()"]] assms
    by (simp add: mailbox_start_def post_window_request_def)
  from R [OF this refuse [where k = 1 and p = ?p and e = busy_mailbox_message]] have
    "mailbox_reachable wops p (?s\<lparr>mx_caller := (\<lambda>_. NotPosted)(0 := Waiting, 1 := Returned (Inl busy_mailbox_message))\<rparr>)"
    by (simp add: mailbox_start_def post_window_request_def busy_mailbox_message_def)
  from R [OF this take [where req = "\<lparr>req_op = wops 0, req_ticket = 0\<rparr>" and p = "p\<lparr>wake := True\<rparr>"]] show ?thesis
    by (simp add: mailbox_start_def take_window_request_def taken_sys_def p)
qed

lemma served_in_time:
  assumes "window_request p = None" and "execute_window_op env (wops 0) (p\<lparr>wake := True\<rparr>) = (r, calls, q)"
  obtains s where "mailbox_reachable wops p s" "mx_caller s 0 = Returned r" "mx_plane s = q"
    "mx_caller s 1 = Returned (Inl busy_mailbox_message)"
proof -
  let ?s = "(taken_sys wops p)\<lparr>mx_plane := q, mx_log := [(0, r)]\<rparr>"
  note R = mailbox_reachable.step
  have "mailbox_reachable wops p (?s\<lparr>mx_server := Replying 0 r\<rparr>)"
    using R [OF taken_reachable [OF assms(1)] serve [where req = "\<lparr>req_op = wops 0, req_ticket = 0\<rparr>" and env = env and r = r and p = q and calls = calls]] assms(2)
    by (simp add: taken_sys_def mailbox_start_def)
  from R [OF this reply [where k = 0 and r = r]] have "mailbox_reachable wops p (?s\<lparr>mx_server := ServerIdle, mx_reply := [0 \<mapsto> r]\<rparr>)"
    by (simp add: taken_sys_def mailbox_start_def)
  from R [OF this receive [where k = 0 and r = r]]
  have run: "mailbox_reachable wops p (?s\<lparr>mx_server := ServerIdle, mx_reply := [0 \<mapsto> r],
      mx_caller := (mx_caller ?s)(0 := Returned r)\<rparr>)"
    by (simp add: taken_sys_def mailbox_start_def)
  show ?thesis by (rule that [OF run]) (simp_all add: taken_sys_def)
qed

theorem window_requests_answered_witness:
  "\<exists>s. mailbox_reachable (\<lambda>_. WOpen 300) (plane_new 5) s \<and> mx_caller s 0 = Returned (Inr ()) \<and>
     mx_caller s 1 = Returned (Inl busy_mailbox_message) \<and> (0, Inr ()) \<in> set (mx_log s)"
proof -
  have n: "window_request (plane_new 5) = None" by (simp add: plane_new_def)
  obtain calls q where "execute_window_op demo_window_env (WOpen 300) (plane_new 5\<lparr>wake := True\<rparr>) = (Inr (), calls, q)"
    by (simp add: execute_window_op_def Let_def demo_window_env_def pairing_open_def plane_new_def)
  from served_in_time [OF n, of _ "\<lambda>_. WOpen 300", OF this] obtain s where
    s: "mailbox_reachable (\<lambda>_. WOpen 300) (plane_new 5) s" "mx_caller s 0 = Returned (Inr ())"
       "mx_caller s 1 = Returned (Inl busy_mailbox_message)" by metis
  with window_requests_answered [OF s(1) n] show ?thesis by blast
qed

text \<open>C40: A caller that is told its request timed out may still see it take effect: a request the stack took before the
  timeout opens the window afterwards, although the caller was answered with an error.\<close>

theorem timed_out_request_takes_effect:
  assumes "window_request p = None" and "wops 0 = WOpen t" and "open_answer (env :: window_env) t = Inr ()"
    and "\<not> pairing_open (now_check env) p"
  shows "\<exists>s. mailbox_reachable wops p s \<and> mx_caller s 0 = Returned (Inl timeout_message) \<and>
    window_deadline (mx_plane s) = deadline_after (now_mark env) (ucast t)"
proof -
  let ?q = "p\<lparr>wake := True\<rparr>"
  let ?s = "taken_sys wops p"
  let ?c = "(mx_caller ?s)(0 := Returned (Inl timeout_message))"
  note R = mailbox_reachable.step
  obtain calls q where e: "execute_window_op env (wops 0) ?q = (Inr (), calls, q)"
    "window_deadline q = deadline_after (now_mark env) (ucast t)"
    using assms(2-4) by (simp add: execute_window_op_def Let_def pairing_open_def mark_window_opened_def)
  have "mailbox_reachable wops p (?s\<lparr>mx_caller := (mx_caller ?s)(0 := TimedOut)\<rparr>)"
    using R [OF taken_reachable [OF assms(1)] timeout [where k = 0]] by (simp add: taken_sys_def mailbox_start_def)
  from R [OF this clear [where k = 0 and p = ?q and msg = timeout_message]] assms(1)
  have "mailbox_reachable wops p (?s\<lparr>mx_caller := ?c\<rparr>)"
    by (simp add: taken_sys_def mailbox_start_def window_request_timeout_def timeout_message_def)
  from R [OF this serve [where req = "\<lparr>req_op = wops 0, req_ticket = 0\<rparr>" and env = env and r = "Inr ()" and p = q and calls = calls]] e(1)
  have "mailbox_reachable wops p (?s\<lparr>mx_caller := ?c, mx_plane := q, mx_log := [(0, Inr ())], mx_server := Replying 0 (Inr ())\<rparr>)"
    by (simp add: taken_sys_def mailbox_start_def)
  with e(2) show ?thesis by (intro exI conjI) (assumption, simp_all)
qed

theorem timed_out_request_takes_effect_witness:
  "\<exists>s. mailbox_reachable (\<lambda>_. WOpen 300) (plane_new 5) s \<and> mx_caller s 0 = Returned (Inl timeout_message) \<and>
     window_deadline (mx_plane s) = 1301"
proof -
  have "window_request (plane_new 5) = None" "\<not> pairing_open (now_check demo_window_env) (plane_new 5)"
    by (simp_all add: plane_new_def pairing_open_def)
  moreover have "open_answer demo_window_env 300 = Inr ()" "deadline_after (now_mark demo_window_env) (ucast (300 :: u16)) = 1301"
    by (simp_all add: demo_window_env_def deadline_after_def saturating_add_def)
  ultimately show ?thesis
    using timed_out_request_takes_effect [of "plane_new 5" "\<lambda>_. WOpen 300" 300 demo_window_env] by simp
qed


section \<open>Every request is answered\<close>

fun caller_work :: "caller_state \<Rightarrow> nat" where
  "caller_work Waiting = 2"
| "caller_work TimedOut = 1"
| "caller_work _ = 0"

fun server_work :: "server_state \<Rightarrow> nat" where
  "server_work ServerIdle = 0"
| "server_work (Serving req) = 2"
| "server_work (Replying k r) = 1"

definition open_callers :: "mailbox_sys \<Rightarrow> nat set" where
  "open_callers s = {k. mx_caller s k \<in> {Waiting, TimedOut}}"

definition mailbox_work :: "mailbox_sys \<Rightarrow> nat" where
  "mailbox_work s = (\<Sum>k \<in> open_callers s. caller_work (mx_caller s k)) +
     (if window_request (mx_plane s) = None then 0 else 3) + server_work (mx_server s)"

text \<open>New work: a caller posts or is refused; and the samples of the stack thread, which serve no request.\<close>

definition mailbox_arrival :: "mailbox_sys \<Rightarrow> mailbox_sys \<Rightarrow> bool" where
  "mailbox_arrival s s' \<longleftrightarrow> (\<exists>k. mx_caller s k = NotPosted \<and> mx_caller s' k \<noteq> NotPosted) \<or>
     (mx_server s = ServerIdle \<and> mx_server s' = ServerIdle \<and> mx_caller s' = mx_caller s)"

lemma open_callers_iff: "k \<in> open_callers s \<longleftrightarrow> caller_work (mx_caller s k) \<noteq> 0"
  by (cases "mx_caller s k") (simp_all add: open_callers_def)

lemma caller_work_less:
  assumes "finite (open_callers s)" and "mx_caller s' = (mx_caller s)(k := c)" and "caller_work c < caller_work (mx_caller s k)"
  shows "(\<Sum>j \<in> open_callers s'. caller_work (mx_caller s' j)) < (\<Sum>j \<in> open_callers s. caller_work (mx_caller s j))"
proof -
  have k: "k \<in> open_callers s" using assms(3) by (simp add: open_callers_iff)
  have sub: "open_callers s' \<subseteq> open_callers s" using assms(2,3) by (auto simp: open_callers_iff split: if_splits)
  have "(\<Sum>j \<in> open_callers s'. caller_work (mx_caller s' j)) = (\<Sum>j \<in> open_callers s. caller_work (mx_caller s' j))"
    by (rule sum.mono_neutral_left [OF assms(1) sub]) (simp add: open_callers_iff)
  also have "\<dots> < (\<Sum>j \<in> open_callers s. caller_work (mx_caller s j))"
    by (rule sum_strict_mono_ex1 [OF assms(1)]) (use assms(2,3) k in auto)
  finally show ?thesis .
qed

lemma mailbox_step_work:
  assumes "mailbox_step wops s s'" and "finite (open_callers s)" and "\<not> mailbox_arrival s s'"
  shows "mailbox_work s' < mailbox_work s"
  using assms
proof (induction rule: mailbox_step.induct)
  case (serve s req env r calls p)
  then show ?case using execute_keeps_mailbox [OF serve(2)] by (simp add: mailbox_work_def open_callers_def)
next
  case (receive s k r)
  let ?t = "s\<lparr>mx_caller := (mx_caller s)(k := Returned r)\<rparr>"
  have "caller_work (Returned r) < caller_work (mx_caller s k)" using receive(1) by simp
  from caller_work_less [OF receive(3) _ this, of ?t] show ?case by (simp add: mailbox_work_def)
next
  case (timeout s k)
  let ?t = "s\<lparr>mx_caller := (mx_caller s)(k := TimedOut)\<rparr>"
  have "caller_work TimedOut < caller_work (mx_caller s k)" using timeout(1) by simp
  from caller_work_less [OF timeout(3) _ this, of ?t] show ?case by (simp add: mailbox_work_def)
next
  case (clear s k msg p)
  let ?t = "s\<lparr>mx_plane := p, mx_caller := (mx_caller s)(k := Returned (Inl msg))\<rparr>"
  have "caller_work (Returned (Inl msg)) < caller_work (mx_caller s k)" using clear(1) by simp
  from caller_work_less [OF clear(3) _ this, of ?t] clear(2) show ?case
    by (auto simp: mailbox_work_def window_request_timeout_def split: if_splits)
qed (auto simp: mailbox_arrival_def mailbox_work_def open_callers_def take_window_request_def)

lemma mailbox_progress:
  assumes "mailbox_work s \<noteq> 0"
  shows "\<exists>s'. mailbox_step wops s s' \<and> \<not> mailbox_arrival s s'"
proof (cases "open_callers s = {}")
  case False
  then obtain k where k: "k \<in> open_callers s" by blast
  show ?thesis
  proof (cases "mx_caller s k")
    case Waiting
    show ?thesis
    proof (cases "mx_reply s k")
      case None
      from timeout [OF Waiting this, of wops] Waiting show ?thesis
        by (intro exI conjI) (assumption, auto simp: mailbox_arrival_def fun_eq_iff split: if_splits)
    next
      case (Some r)
      from receive [OF Waiting this, of wops] Waiting show ?thesis
        by (intro exI conjI) (assumption, auto simp: mailbox_arrival_def fun_eq_iff split: if_splits)
    qed
  next
    case TimedOut
    obtain msg p where "window_request_timeout (mx_plane s) = (msg, p)" by fastforce
    from clear [OF TimedOut this, of wops] TimedOut show ?thesis
      by (intro exI conjI) (assumption, auto simp: mailbox_arrival_def fun_eq_iff split: if_splits)
  qed (use k in \<open>simp_all add: open_callers_def\<close>)
next
  case True
  show ?thesis
  proof (cases "mx_server s")
    case ServerIdle
    with assms True obtain req where "window_request (mx_plane s) = Some req" by (auto simp: mailbox_work_def split: if_splits)
    then have "take_window_request (mx_plane s) = (Some req, (mx_plane s)\<lparr>window_request := None\<rparr>)"
      by (simp add: take_window_request_def)
    from take [OF ServerIdle this, of wops] show ?thesis
      by (intro exI conjI) (assumption, simp add: mailbox_arrival_def)
  next
    case (Serving req)
    obtain r calls p where "execute_window_op demo_window_env (req_op req) (mx_plane s) = (r, calls, p)" using prod_cases3 by blast
    from serve [OF Serving this, of wops] Serving show ?thesis
      by (intro exI conjI) (assumption, simp add: mailbox_arrival_def)
  next
    case (Replying k r)
    from reply [OF this, of wops] Replying show ?thesis by (intro exI conjI) (assumption, simp add: mailbox_arrival_def)
  qed
qed

lemma mailbox_step_finite: "mailbox_step wops s s' \<Longrightarrow> finite (open_callers s) \<Longrightarrow> finite (open_callers s')"
proof -
  assume "mailbox_step wops s s'"
  then have "\<exists>k. open_callers s' \<subseteq> insert k (open_callers s)"
    by (induction rule: mailbox_step.induct) (auto simp: open_callers_def)
  then show "finite (open_callers s) \<Longrightarrow> finite (open_callers s')" by (auto intro: finite_subset)
qed

interpretation mailbox: settling "mailbox_step wops" mailbox_arrival "\<lambda>s. finite (open_callers s)" mailbox_work for wops
  by unfold_locales (simp_all add: mailbox_progress mailbox_step_work mailbox_step_finite)

lemma mailbox_reachable_finite: "mailbox_reachable wops p s \<Longrightarrow> finite (open_callers s)"
proof (induction rule: mailbox_reachable.induct)
  case start
  show ?case by (simp add: mailbox_start_def open_callers_def)
qed (rule mailbox_step_finite)

lemma mailbox_reachable_runs: "(mailbox_step wops ^^ n) s s' \<Longrightarrow> mailbox_reachable wops p s \<Longrightarrow> mailbox_reachable wops p s'"
  by (induction n arbitrary: s') (auto intro: mailbox_reachable.step)

lemma mailbox_keeps_posted: "(mailbox_step wops ^^ n) s s' \<Longrightarrow> mx_caller s k \<noteq> NotPosted \<Longrightarrow> mx_caller s' k \<noteq> NotPosted"
proof (induction n arbitrary: s')
  case (Suc n)
  then obtain t where t: "mx_caller t k \<noteq> NotPosted" "mailbox_step wops t s'" by auto
  from t(2,1) show ?case by (induction rule: mailbox_step.induct) auto
qed simp

lemma mailbox_work_bound:
  assumes "finite (open_callers s)"
  shows "mailbox_work s \<le> 2 * card (open_callers s) + 5"
proof -
  have "caller_work c \<le> 2" for c by (cases c) simp_all
  then have "(\<Sum>k \<in> open_callers s. caller_work (mx_caller s k)) \<le> (\<Sum>k \<in> open_callers s. 2)" by (intro sum_mono)
  moreover have "server_work (mx_server s) \<le> 2" by (cases "mx_server s") simp_all
  ultimately show ?thesis by (simp add: mailbox_work_def)
qed

text \<open>C27: Every request to open or close the pairing window is answered: whatever callers have posted and wherever the
  stack thread is, if no more requests come there are at most two accesses per waiting caller and five more, under
  every scheduling and with timeouts at any moment, and where no access is left every caller has returned, the
  mailbox is empty and the stack thread idle; the answers are the results of the executed requests, a busy mailbox
  or a timeout.\<close>

theorem window_requests_complete:
  assumes "mailbox_reachable wops p s" and "window_request p = None"
    and "(own_step (mailbox_step wops) mailbox_arrival ^^ n) s s'"
  shows "n \<le> 2 * card {k. mx_caller s k \<in> {Waiting, TimedOut}} + 5 \<and>
    ((\<forall>t. \<not> own_step (mailbox_step wops) mailbox_arrival s' t) \<longrightarrow>
       window_request (mx_plane s') = None \<and> mx_server s' = ServerIdle \<and>
       (\<forall>k. mx_caller s' k = NotPosted \<or>
          (\<exists>r. mx_caller s' k = Returned r \<and> ((k, r) \<in> set (mx_log s') \<or> r \<in> {Inl busy_mailbox_message, Inl timeout_message}))))"
proof -
  have fin: "finite (open_callers s)" by (rule mailbox_reachable_finite [OF assms(1)])
  have bound: "n \<le> 2 * card (open_callers s) + 5"
    using mailbox.own_bounded [OF assms(3) fin] mailbox_work_bound [OF fin] by simp
  note r = mailbox_reachable_runs [OF mailbox.own_steps [OF assms(3)] assms(1)]
  have inv: "caller_inv s'" using mailbox_reachable_inv [OF r assms(2)] by blast
  have "window_request (mx_plane s') = None \<and> mx_server s' = ServerIdle \<and>
       (\<forall>k. mx_caller s' k = NotPosted \<or>
          (\<exists>r. mx_caller s' k = Returned r \<and> ((k, r) \<in> set (mx_log s') \<or> r \<in> {Inl busy_mailbox_message, Inl timeout_message})))"
    if "\<forall>t. \<not> own_step (mailbox_step wops) mailbox_arrival s' t"
  proof -
    have z: "mailbox_work s' = 0" using mailbox.stuck_done [OF mailbox_reachable_finite [OF r]] that by blast
    then have "\<forall>k \<in> open_callers s'. caller_work (mx_caller s' k) = 0"
      using mailbox_reachable_finite [OF r] by (simp add: mailbox_work_def)
    then have none: "open_callers s' = {}" by (auto simp: open_callers_iff)
    have "mx_caller s' k = NotPosted \<or>
        (\<exists>r. mx_caller s' k = Returned r \<and> ((k, r) \<in> set (mx_log s') \<or> r \<in> {Inl busy_mailbox_message, Inl timeout_message}))" for k
      using none inv by (cases "mx_caller s' k") (auto simp: open_callers_def caller_inv_def)
    moreover have "mx_server s' = ServerIdle" using z by (cases "mx_server s'") (auto simp: mailbox_work_def)
    moreover have "window_request (mx_plane s') = None" using z by (simp add: mailbox_work_def split: if_splits)
    ultimately show ?thesis by blast
  qed
  with bound show ?thesis by (auto simp: open_callers_def)
qed

theorem window_requests_complete_witness:
  "\<exists>n s'. n \<le> 7 \<and> (own_step (mailbox_step (\<lambda>_. WOpen 300)) mailbox_arrival ^^ n) (taken_sys (\<lambda>_. WOpen 300) (plane_new 5)) s' \<and>
     (\<exists>r. mx_caller s' 0 = Returned r)"
proof -
  let ?s = "taken_sys (\<lambda>_. WOpen 300) (plane_new 5)"
  have n: "window_request (plane_new 5) = None" by (simp add: plane_new_def)
  note r = taken_reachable [OF n, of "\<lambda>_. WOpen 300"]
  obtain m s' where run: "(own_step (mailbox_step (\<lambda>_. WOpen 300)) mailbox_arrival ^^ m) ?s s'" "mailbox_work s' = 0"
    using mailbox.completes [OF mailbox_reachable_finite [OF r]] by blast
  note fin = mailbox_reachable_finite [OF mailbox_reachable_runs [OF mailbox.own_steps [OF run(1)] r]]
  have "\<not> own_step (mailbox_step (\<lambda>_. WOpen 300)) mailbox_arrival s' t" for t
    using mailbox.decreasing [OF fin, of _ t] run(2) by (auto simp: own_step_def)
  with window_requests_complete [OF r n run(1)]
  have m: "m \<le> 2 * card {k. mx_caller ?s k \<in> {Waiting, TimedOut}} + 5" and
    "mx_caller s' 0 = NotPosted \<or> (\<exists>r. mx_caller s' 0 = Returned r)" by blast+
  moreover have "{k. mx_caller ?s k \<in> {Waiting, TimedOut}} = {0}" by (auto simp: taken_sys_def)
  moreover have "mx_caller s' 0 \<noteq> NotPosted"
    using mailbox_keeps_posted [OF mailbox.own_steps [OF run(1)], of 0] by (simp add: taken_sys_def)
  ultimately show ?thesis using run(1) by auto
qed

end
