(* ===== verification/Net_Stack.thy ===== *)
theory Net_Stack
  imports Bridge_Config
begin

text \<open>
  \<open>matter/net_stack.rs\<close>: the UDP sockets the Matter stack and its mDNS responder are given. A socket is
  the record of the options set on it; every call to the system may fail, as \<open>fails\<close> says, and the calls
  made are kept in a list, so that the order of the options and the bind is visible. The remaining faces of the
  stack are the library's and handed on as they are.
\<close>

datatype socket_domain = DomainV4 | DomainV6

datatype socket_call =
    NewSocket socket_domain
  | SetReuseAddress
  | SetReusePort
  | SetOnlyV6 bool
  | SetNonblocking
  | BindTo socket_addr
  | SetBroadcast
  | NewAsync

record udp_socket =
  us_domain :: socket_domain
  us_reuse_address :: bool
  us_reuse_port :: bool
  us_only_v6 :: bool
  us_nonblocking :: bool
  us_local :: "socket_addr option"
  us_broadcast :: bool

definition socket_new :: "bool \<Rightarrow> socket_domain \<Rightarrow> udp_socket" where
  "socket_new v6only fam =
     \<lparr>us_domain = fam, us_reuse_address = False, us_reuse_port = False, us_only_v6 = v6only, us_nonblocking = False,
      us_local = None, us_broadcast = False\<rparr>"

text \<open>One call with \<open>?\<close>: its effect, or the error that names it.\<close>

definition sys_call ::
  "(socket_call \<Rightarrow> bool) \<Rightarrow> socket_call \<Rightarrow> ('s \<Rightarrow> 's) \<Rightarrow> 's \<times> socket_call list \<Rightarrow>
     (socket_call + unit) \<times> 's \<times> socket_call list" where
  "sys_call fails c f = (\<lambda>(s, made). if fails c then (Inl c, s, made @ [c]) else (Inr (), f s, made @ [c]))"

definition domain_of :: "socket_addr \<Rightarrow> socket_domain" where
  "domain_of addr = (case sock_ip addr of IpV4 _ \<Rightarrow> DomainV4 | IpV6 _ \<Rightarrow> DomainV6)"

text \<open>
  \<open>ReuseUdpBind::bind\<close> on a Unix host; \<open>v6only\<close> is what the system starts a socket with. The second
  result is the list of the calls made.
\<close>

definition reuse_bind :: "(socket_call \<Rightarrow> bool) \<Rightarrow> bool \<Rightarrow> socket_addr \<Rightarrow> (socket_call + udp_socket) \<times> socket_call list" where
  "reuse_bind fails v6only addr =
     (let fam = domain_of addr; step = sys_call fails;
          (r, s, made) =
            and_then (step (NewSocket fam) id (socket_new v6only fam, [])) (\<lambda>_ s.
            and_then (step SetReuseAddress (\<lambda>s. s\<lparr>us_reuse_address := True\<rparr>) s) (\<lambda>_ s.
            and_then (step SetReusePort (\<lambda>s. s\<lparr>us_reuse_port := True\<rparr>) s) (\<lambda>_ s.
            and_then (if fam = DomainV6 then step (SetOnlyV6 False) (\<lambda>s. s\<lparr>us_only_v6 := False\<rparr>) s else (Inr (), s)) (\<lambda>_ s.
            and_then (step SetNonblocking (\<lambda>s. s\<lparr>us_nonblocking := True\<rparr>) s) (\<lambda>_ s.
            and_then (step (BindTo addr) (\<lambda>s. s\<lparr>us_local := Some addr\<rparr>) s) (\<lambda>_ s.
            and_then (step SetBroadcast (\<lambda>s. s\<lparr>us_broadcast := True\<rparr>) s) (\<lambda>_ s.
              step NewAsync id s)))))))
      in (case r of Inl c \<Rightarrow> Inl c | Inr _ \<Rightarrow> Inr s, made))"

text \<open>The faces of \<open>MatterNetStack\<close>.\<close>

datatype net_face = ReuseUdpBind | StdStack

record net_stack =
  udp_bind :: "net_face option"
  udp_connect :: "net_face option"
  tcp_bind :: "net_face option"
  tcp_connect :: "net_face option"
  dns :: "net_face option"

definition matter_net_stack :: net_stack where
  "matter_net_stack =
     \<lparr>udp_bind = Some ReuseUdpBind, udp_connect = Some StdStack, tcp_bind = Some StdStack, tcp_connect = Some StdStack,
      dns = Some StdStack\<rparr>"

section \<open>Facts\<close>

definition bind_calls :: "socket_addr \<Rightarrow> socket_call list" where
  "bind_calls addr =
     [NewSocket (domain_of addr), SetReuseAddress, SetReusePort] @ (if domain_of addr = DomainV6 then [SetOnlyV6 False] else []) @
     [SetNonblocking, BindTo addr, SetBroadcast, NewAsync]"

text \<open>
  A bind makes the calls in this order and stops at the first that fails. A socket that is handed out has both
  reuse options set before it was bound, so that it can share its port, accepts IPv4 as well when it is an
  IPv6 one, and does not block.
\<close>

lemma reuse_bind_outcome:
  "reuse_bind fails v6only addr =
     (case List.find fails (bind_calls addr) of
        Some c \<Rightarrow> (Inl c, takeWhile (\<lambda>x. \<not> fails x) (bind_calls addr) @ [c])
      | None \<Rightarrow> (Inr \<lparr>us_domain = domain_of addr, us_reuse_address = True, us_reuse_port = True,
           us_only_v6 = (v6only \<and> domain_of addr = DomainV4), us_nonblocking = True, us_local = Some addr,
           us_broadcast = True\<rparr>, bind_calls addr))"
  by (cases "domain_of addr")
    (simp_all add: reuse_bind_def bind_calls_def sys_call_def socket_new_def Let_def)

lemma bound_socket_shares_port:
  assumes "reuse_bind fails v6only addr = (Inr s, made)"
  shows "us_reuse_address s \<and> us_reuse_port s \<and> us_nonblocking s \<and> us_local s = Some addr \<and>
    (\<forall>a. sock_ip addr = IpV6 a \<longrightarrow> \<not> us_only_v6 s) \<and> made = bind_calls addr"
  using assms by (auto simp: reuse_bind_outcome domain_of_def split: option.splits ip_addr.splits)

end
