(* ===== verification/Spec2Isabelle.thy ===== *)
theory Spec2Isabelle
  imports Service_Properties Concurrent_Requests Cover_Protocol Window_Mailbox Net_Stack
begin

text \<open>
  A verification library for the bridge of ThatsMatter (the Rust program under \<open>bridge/src\<close>).
  The bridge publishes entities of Home Assistant as Matter devices. A process keeps a catalog of exports
  (entity, name, device type, endpoint id) in two files, serves a loopback HTTP control plane on which Home
  Assistant changes the catalog, pushes states and polls commands, and runs a Matter stack on a thread of its
  own, which reads the exports as endpoints of a Matter node and turns commands of controllers into commands
  for Home Assistant. The Matter stack (\<open>rs-matter\<close>), the web framework, serde and the system are
  libraries: what they answer is an argument of the definitions.

  \<^bold>\<open>Vocabulary.\<close> \<open>Prelude\<close>: machine integers at their width, the sequencing of fallible steps
  (\<open>and_then\<close> is the \<open>?\<close> operator), updates in place, binary search. \<open>Byte_Strings\<close>: strings as
  UTF-8 bytes and the operations of \<open>str\<close>. \<open>Ordered_Map\<close>: \<open>BTreeMap\<close> as a sorted entry
  list behind the locale \<open>ordered_map\<close>. \<open>Disk\<close>: files with faults at every operation, so that a
  fault is also a crash at that point. Errors are the left values of a sum; state is passed and returned, in
  the error case too.

  \<^bold>\<open>Catalog\<close> (\<open>catalog/model.rs\<close>, \<open>catalog/store.rs\<close>). \<open>Catalog_Model\<close> has the data types,
  \<open>Endpoint_Alloc\<close> the allocation loop (a \<open>partial_function\<close>: the source has no bound; it is shown to
  return whenever one of 1..65535 is free), \<open>Catalog_Store\<close> every operation of \<open>CatalogStore\<close>.
  \<open>Catalog_Invariant\<close> has the invariant and what the single operations do to it, \<open>Catalog_Bulk\<close> the
  operations that build the whole map anew: \<open>replace\<close>, which no handler calls, and the loading of the file.
  Neither checks the endpoint ids it is given, so each keeps the invariant under a condition on its input
  (\<open>snapshot_fits\<close>, \<open>file_ok\<close>); every file written from a catalog with the invariant is \<open>file_ok\<close>.
  \<open>Catalog_History\<close> proves what holds over mutations, replacements, faults and restarts;
  \<open>Catalog_Properties\<close> states it: valid exports with unique non-zero endpoints, endpoints never issued
  twice while the cursor has not wrapped, reading back what was written, crashes between the two files, and
  the effect of every operation on every branch.

  \<^bold>\<open>Matter side\<close> (\<open>matter/on_off_map.rs\<close>, \<open>matter/clusters\<close>, \<open>matter/device_types.rs\<close>,
  \<open>matter/export_plane.rs\<close>). \<open>On_Off_Map\<close> and \<open>Clusters\<close> have the conversions and tables,
  \<open>Export_Slot\<close> one bridged endpoint (\<open>ExportSlot\<close>), \<open>Export_Plane\<close> the slot table with rebuild,
  state push, controller commands and reports (\<open>ExportPlane\<close>). \<open>Plane_Invariant\<close> and
  \<open>Plane_Properties\<close> show that the node stays well formed (endpoints ascending and unique, slots fitting
  their exports), which exports a rebuild exposes, and the effect of each operation. \<open>Plane_Handler\<close> and
  \<open>Handler_Properties\<close> treat reads, writes and commands of the data model: what the metadata declares is
  what is served, a command does all or nothing, a controller reads what it wrote.

  \<^bold>\<open>Threads.\<close> The slot table is shared by the control plane and the stack thread. \<open>Slot_Protocol\<close> takes
  a slot of one boolean apart into atomic accesses under the read-write lock, rebuilds and changes of the device
  type included, and shows that no change is lost or left
  unreported. \<open>Cover_Protocol\<close> does so for a cover
  slot, whose position, target and moving flag are three atomics that pushes and commands access one by one.
  \<open>Settling\<close> says once what it means that a protocol comes to rest (locale \<open>settling\<close>: without new
  arrivals every run has a bounded number of steps and ends nowhere but where all work is done); it is
  interpreted on the slot protocol, the cover protocol, the window mailbox and the start of the stack, with the
  bounds computed from the work each thread has left. \<open>Run_Loop\<close> has the loop of the stack thread, first as one function, then the generation
  protocol of the configuration version access by access. \<open>Timed_Window\<close> is the contract of a pairing
  window (locale \<open>timed_window\<close>), \<open>Pairing_Window\<close> the plane's window with the decisions on the stack
  thread, \<open>Window_Mailbox\<close> the protocol between callers with timeouts and the stack thread.
  \<open>Stack_Start\<close> is the start of the stack (\<open>matter/rs_matter_backend.rs\<close>): the preparation, and the
  stores of \<open>run_matter_stack\<close> and \<open>spawn_stack\<close> as steps, panics of the thread included. Ghost fields,
  which the program does not have, are named as such where they are declared.

  \<^bold>\<open>Backends.\<close> \<open>Backend_Contract\<close> is the trait \<open>MatterBackend\<close> as a record of operations with the
  locale \<open>backend_contract\<close> of what the handlers rely on; \<open>Dev_Backend\<close> (\<open>matter/dev.rs\<close>, with the
  openings, closings and expiry tasks of its window access by access) and \<open>Rs_Backend\<close> (\<open>matter/rs_matter_backend.rs\<close>) interpret it.
  \<open>Commissioning\<close> has the setup material and the pairing codes (\<open>matter/commissioning.rs\<close>,
  \<open>matter/pairing.rs\<close>), \<open>Lan_Netif\<close> the choice of the network interface (\<open>matter/lan_netif.rs\<close>),
  and the inventory it logs,
  \<open>Bridge_Config\<close> the configuration (\<open>config.rs\<close>), \<open>Net_Stack\<close> the sockets handed to the Matter stack
  (\<open>matter/net_stack.rs\<close>).

  \<^bold>\<open>Control plane\<close> (\<open>ipc/types.rs\<close>, \<open>ipc/handlers.rs\<close>, \<open>ipc/server.rs\<close>, \<open>state.rs\<close>,
  \<open>main.rs\<close>). \<open>Ipc_Handlers\<close> has every handler and the routes, \<open>Ipc_Properties\<close> the agreement of
  catalog and backend for every backend with the contract. \<open>Control_Spec\<close> is the abstract specification of
  the control plane: a service whose state is a map of exports, a cursor and a queue, with one step and one
  reply per request; its locale \<open>simulation\<close> lifts the agreement of single requests to sequences, and
  \<open>showing_backend\<close> extends the contract of a backend by what the bridge shows. \<open>Bridge_Surface\<close> has the
  specification of what the bridge shows (a map from export ids to exports) and \<open>main\<close> from the configuration
  to the end of the server. \<open>Concurrent_Requests\<close> lets clients change the catalog, push states and poll
  commands at the same time, step by step between the locks: on a working disk the requests are linearizable
  with respect to the service of \<open>Control_Spec\<close>, in the order of their accesses to the catalog and the queue;
  the bridge may show an older catalog of the run, even after all requests are answered, and it catches up
  unless a change overtakes a list on its way to the backend.
  \<open>Service_Properties\<close> states that request sequences refine the service, that a restart keeps the bridge,
  and that a pushed state is what controllers read. This theory states the other properties that span
  components: the bridge refines the specification after every accepted mutation and after the start, a
  created device can be commanded by a controller and the command reaches Home Assistant.

  \<^bold>\<open>Assumptions.\<close> Text formats are codecs; where a property needs one to read back what it wrote, this is a
  hypothesis, and the instance uses a codec that stores the value itself. Random numbers, clocks, new UUIDs
  and the answers of the Matter stack are arguments. Counters of 64 bits (window and configuration
  generations) are taken not to wrap in the step relations; data versions wrap as in the program. Loops of
  the source without a bound are partial functions (allocation, passcode draws) with theorems that they
  return; the inner loop of the run loop consumes a list of answers, and one answer is shown to be enough.

  \<^bold>\<open>Not modelled.\<close> The Matter stack and mDNS, whose answers are arguments; the descriptor cluster, which is the
  library's; log output other than \<open>log_inventory\<close>; the parser of the command line; the HTTP server between
  binding the address and calling a handler (\<open>serve\<close> answers what the library ends with). In
  \<open>Cover_Protocol\<close> a rebuild is not a step: the lock excludes it while a push or a command is under way, and it
  carries position, target and moving over (\<open>Export_Slot\<close>). The integration under
  \<open>custom_components\<close> is a client in another language.
\<close>

section \<open>Catalog, control plane and bridge\<close>

definition is_mutation :: "ipc_request \<Rightarrow> bool" where
  "is_mutation req \<longleftrightarrow> (case req of PostExports _ _ \<Rightarrow> True | PatchExportId _ _ \<Rightarrow> True | DeleteExportId _ \<Rightarrow> True | _ \<Rightarrow> False)"

text \<open>An accepted mutation ends with a synchronisation of the catalog it leaves.\<close>

lemma mutation_synced:
  assumes "app_inv rs_inv app" and "is_mutation req" and "resp_status r < 300"
    and "route env (rs_ops re) req (app, d) = (r, app', d')"
  shows "\<exists>st. catalog_inv st \<and> app' = snd (sync_exports (rs_ops re) (app\<lparr>app_catalog := st\<rparr>))"
proof -
  have cat: "catalog_inv (app_catalog app)" using assms(1) by (simp add: app_inv_def)
  have err: "\<not> resp_status (catalog_err detail e) < 300" for detail e
    by (cases e) (simp_all add: catalog_err_def error_response_def)
  show ?thesis
  proof (cases req)
    case (PostExports v4 body)
    obtain q st e where c: "create (ie_codec env) (ie_fs env) v4 body (app_catalog app, d) = (q, st, e)"
      using prod_cases3 by blast
    with assms(3,4) PostExports err have "app' = snd (sync_exports (rs_ops re) (app\<lparr>app_catalog := st\<rparr>))"
      by (cases q) (auto simp: post_export_def rs_contract.sync_exports_effect)
    with create_inv [OF cat c] show ?thesis by blast
  next
    case (PatchExportId i body)
    obtain q st e where c: "patch (ie_codec env) (ie_fs env) i body (app_catalog app, d) = (q, st, e)"
      using prod_cases3 by blast
    with assms(3,4) PatchExportId err have "app' = snd (sync_exports (rs_ops re) (app\<lparr>app_catalog := st\<rparr>))"
      by (cases q) (auto simp: patch_export_handler_def rs_contract.sync_exports_effect)
    with patch_inv [OF cat c] show ?thesis by blast
  next
    case (DeleteExportId i)
    obtain q st e where c: "delete (ie_codec env) (ie_fs env) i (app_catalog app, d) = (q, st, e)"
      using prod_cases3 by blast
    with assms(3,4) DeleteExportId err have "app' = snd (sync_exports (rs_ops re) (app\<lparr>app_catalog := st\<rparr>))"
      by (cases q) (auto simp: delete_export_def rs_contract.sync_exports_effect)
    with delete_inv [OF cat c] show ?thesis by blast
  qed (use assms(2) in \<open>simp_all add: is_mutation_def\<close>)
qed

lemma synced_view:
  assumes "catalog_inv st" and "rs_inv (app_backend app)"
    and "app' = snd (sync_exports (rs_ops re) (app\<lparr>app_catalog := st\<rparr>))"
  shows "surface_view (rs_plane (app_backend app')) = bridged_view st" "app_catalog app' = st" "app_inv rs_inv app'"
    "rs_queued (app_backend app') = rs_queued (app_backend app)"
proof -
  have eq: "app' = app\<lparr>app_catalog := st,
      app_backend := snd (be_set_exports (rs_ops re) (catalog_list st) (app_backend app))\<rparr>"
    by (simp add: assms(3) rs_contract.sync_exports_effect)
  then show "app_catalog app' = st" "app_inv rs_inv app'" "rs_queued (app_backend app') = rs_queued (app_backend app)"
    using rs_contract.synced(1) [OF assms(1,2), of re] assms(3) by (simp_all add: rs_contract.set_exports_queued)
  show "surface_view (rs_plane (app_backend app')) = bridged_view st"
    using set_exports_view [OF assms(1)] assms(2)
    by (simp add: eq rs_ops_def rs_set_exports_def snd_on_plane rs_inv_def)
qed

text \<open>C5: The bridge shows what the catalog says: after every accepted creation, change or deletion the exports with a
  Matter endpoint are exactly the enabled exports of the catalog, each with its current fields, except those
  whose endpoint id is 65535.\<close>

theorem surface_refines_catalog:
  assumes "app_inv rs_inv app" and "is_mutation req" and "resp_status r < 300"
    and "route env (rs_ops re) req (app, d) = (r, app', d')"
  shows "surface_view (rs_plane (app_backend app')) = bridged_view (app_catalog app') \<and> app_inv rs_inv app'"
proof -
  obtain st where "catalog_inv st" "app' = snd (sync_exports (rs_ops re) (app\<lparr>app_catalog := st\<rparr>))"
    using mutation_synced [OF assms] by blast
  with synced_view [of st app app' re] assms(1) show ?thesis by (simp add: app_inv_def)
qed

theorem surface_refines_catalog_witness:
  "\<exists>r app' d'. route demo_ipc_env (rs_ops demo_re) (PostExports 9 (demo_body ''Lamp'')) (demo_app, Map.empty) = (r, app', d') \<and>
     surface_view (rs_plane (app_backend app')) 9 = Some (light_of 9)"
proof -
  obtain app' d' where p: "route demo_ipc_env (rs_ops demo_re) (PostExports 9 (demo_body ''Lamp'')) (demo_app, Map.empty) =
     (\<lparr>resp_status = 201, resp_body = ExportBody (light_of 9)\<rparr>, app', d')" "app_catalog app' = one_light 9"
    using demo_post by blast
  have "is_mutation (PostExports 9 (demo_body ''Lamp''))" by (simp add: is_mutation_def)
  from surface_refines_catalog [OF demo_app_inv this _ p(1)] p(2)
  have "surface_view (rs_plane (app_backend app')) = bridged_view (one_light 9)" by simp
  moreover have "bridged_view (one_light 9) 9 = Some (light_of 9)"
    by (simp add: bridged_view_def one_light_def bt_get_def light_of_def demo_export_def)
  ultimately show ?thesis using p(1) by auto
qed

text \<open>C6: The control plane and the Matter bridge agree on which exports exist: whatever requests are served one
  after another, in any state of the Matter stack, the catalog and the slot table keep their invariants, and
  as long as no response is an internal error the bridge knows exactly the exports of the catalog.\<close>

theorem requests_keep_bridge_in_sync:
  assumes "serve_all xs (app, d) = (rs, app', d')" and "list_all (\<lambda>(env, ops, req). \<exists>re. ops = rs_ops re) xs"
    and "app_inv rs_inv app" and "in_sync rs_known app" and "list_all (\<lambda>r. resp_status r \<noteq> 500) rs"
  shows "app_inv rs_inv app' \<and> in_sync rs_known app'"
proof -
  have "backend_contract ops rs_known rs_queued rs_inv" if "\<exists>re. ops = rs_ops re" for ops
    using that rs_contract.backend_contract_axioms by auto
  from serve_all_sync [where P = "\<lambda>ops. \<exists>re. ops = rs_ops re", OF this assms(1,2,3)] assms(4,5)
  show ?thesis by blast
qed

theorem requests_keep_bridge_in_sync_witness:
  "\<exists>rs app' d'. serve_all [(demo_ipc_env, rs_ops demo_re, PostExports 9 (demo_body ''Lamp'')), (demo_ipc_env, rs_ops demo_re, GetStatus)]
     (demo_app, Map.empty) = (rs, app', d') \<and> rs_known (app_backend app') = {9}"
proof -
  obtain app' d' where p: "route demo_ipc_env (rs_ops demo_re) (PostExports 9 (demo_body ''Lamp'')) (demo_app, Map.empty) =
     (\<lparr>resp_status = 201, resp_body = ExportBody (light_of 9)\<rparr>, app', d')" "app_catalog app' = one_light 9"
    using demo_post by blast
  let ?xs = "[(demo_ipc_env, rs_ops demo_re, PostExports 9 (demo_body ''Lamp'')), (demo_ipc_env, rs_ops demo_re, GetStatus)]"
  have s: "serve_all ?xs (demo_app, Map.empty) =
      ([\<lparr>resp_status = 201, resp_body = ExportBody (light_of 9)\<rparr>, status (rs_ops demo_re) app'], app', d')"
    using p(1) by simp
  have "list_all (\<lambda>r. resp_status r \<noteq> 500)
      [\<lparr>resp_status = 201, resp_body = ExportBody (light_of 9)\<rparr>, status (rs_ops demo_re) app']"
    by (simp add: status_def ok_json_def Let_def)
  from requests_keep_bridge_in_sync [OF s _ demo_app_inv demo_app_sync this]
  have "rs_known (app_backend app') = dom (bt_get (by_id (one_light 9)))" using p(2) by (auto simp: in_sync_def)
  also have "\<dots> = {9}" by (auto simp: one_light_def bt_get_def dom_def)
  finally show ?thesis using s by blast
qed

section \<open>Start\<close>

text \<open>C7: What the process serves after a successful start with the Matter backend on a data directory whose exports file,
  if there is one that can be read, has valid exports and no export id or endpoint id twice (endpoint ids may be
  missing; the start does not check any of this): the listening address is loopback unless that was waived, every
  export of the catalog has an endpoint id of its own, the missing ones allocated, and the bridge already shows
  exactly what the catalog says, whatever the stack thread did meanwhile.\<close>

theorem startup_serves_catalog:
  assumes "disk_inv c d" and "\<And>b. spawn_result senv b (rv_spawn re b)"
    and "main_start display cfg c env (rs_ops re) (rs_new mc env rng n codes rnd (mdns_interface cfg)) d = Some (Inr app, d')"
  shows "(allow_non_loopback cfg \<or> ip_is_loopback (sock_ip (listen cfg))) \<and> app_inv rs_inv app \<and>
    in_sync rs_known app \<and> surface_view (rs_plane (app_backend app)) = bridged_view (app_catalog app)"
proof -
  obtain st d1 where s: "allow_non_loopback cfg \<or> ip_is_loopback (sock_ip (listen cfg))"
    "load_or_new c env (cfg_data_dir cfg) (cfg_bridge_name cfg) d = (Inr st, d1)" "app_catalog app = st"
    "catalog_inv st \<longrightarrow> app_inv rs_inv app \<and> in_sync rs_known app \<and> surface_view (rs_plane (app_backend app)) = bridged_view st"
    "rs_queued (app_backend app) = []"
    by (rule main_start_rs [OF assms(2,3)])
  moreover have "catalog_inv st" using load_or_new_inv [OF assms(1) s(2)] by simp
  ultimately show ?thesis by simp
qed

text \<open>The instance: the file has one export, whose endpoint id is missing.\<close>

definition unassigned_disk :: "(persisted_config + persisted_exports) disk" where
  "unassigned_disk = [exports_file \<mapsto> Inr \<lparr>pe_exports = [(light_of 9)\<lparr>endpoint_id := None\<rparr>]\<rparr>]"

lemma load_unassigned: "load_or_new plain_codec ok_env ''/data'' ''Home'' unassigned_disk = (Inr (one_light 9), unassigned_disk)"
proof -
  let ?e = "(light_of 9)\<lparr>endpoint_id := None\<rparr>" and ?st = "catalog_new ''/data'' ''Home''"
  let ?st1 = "?st\<lparr>by_id := [(9, ?e)]\<rparr>"
  have "export_id (light_of 9) = 9" by (simp add: light_of_def demo_export_def)
  then have loop: "load_insert_loop [?e] [] ?st = ([9], ?st1)" by (simp add: catalog_new_def)
  have "used_endpoints ?st1 = {}" by (simp add: used_endpoints_def catalog_list_def bt_values_def List.map_filter_simps)
  then have "alloc_endpoint ?st1 = (Inr 1, ?st1\<lparr>next_endpoint := 2\<rparr>)"
    by (simp add: alloc_endpoint_def Let_def catalog_new_def first_endpoint_id_def) (simp add: alloc_loop.simps [of _ 1])
  then have "load_missing_loop [9] ?st1 = (Inr (), one_light 9)"
    by (simp add: and_then_def bt_modify_def one_light_def catalog_new_def light_of_def demo_export_def)
  with loop show ?thesis
    by (simp add: load_or_new_def fs_create_dir_all_def ok_env_def load_config_def load_exports_def fs_exists_def fs_read_def
        unassigned_disk_def file_names plain_codec_def and_then_def del: load_insert_loop.simps load_missing_loop.simps)
qed

theorem startup_serves_catalog_witness:
  "\<exists>app d'. main_start (\<lambda>_. ''[::1]:18465'') demo_config plain_codec ok_env (rs_ops demo_re)
     (rs_new any_material ok_env demo_rng 3840 (\<lambda>_. demo_pairing) 7 (mdns_interface demo_config)) unassigned_disk = Some (Inr app, d') \<and>
     surface_view (rs_plane (app_backend app)) 9 = Some (light_of 9)"
proof -
  have "unassigned_disk commissioning_file = None"
    by (simp add: unassigned_disk_def file_names commissioning_file_def)
  then obtain app d' where s: "main_start (\<lambda>_. ''[::1]:18465'') demo_config plain_codec ok_env (rs_ops demo_re)
     (rs_new any_material ok_env demo_rng 3840 (\<lambda>_. demo_pairing) 7 (mdns_interface demo_config)) unassigned_disk = Some (Inr app, d')"
    "app_catalog app = one_light 9"
    using demo_main_start_from [OF load_unassigned] by blast
  have "disk_inv plain_codec unassigned_disk"
    by (simp add: disk_inv_def unassigned_disk_def plain_codec_def file_ok_def List.map_filter_simps export_valid_def
        light_of_def demo_export_def)
  moreover have "spawn_result demo_stack_env b (rv_spawn demo_re b)" for b
    by (simp add: demo_re_def demo_spawn_result)
  ultimately have "surface_view (rs_plane (app_backend app)) = bridged_view (one_light 9)"
    using startup_serves_catalog [OF _ _ s(1), of demo_stack_env] s(2) by simp
  moreover have "bridged_view (one_light 9) 9 = Some (light_of 9)"
    by (simp add: bridged_view_def one_light_def bt_get_def light_of_def demo_export_def)
  ultimately show ?thesis using s(1) by auto
qed

section \<open>From a request to a controller and back\<close>

lemma on_off_command_reaches_queue:
  assumes "state_inv (pl_state p)" and "slot_for (pl_state p) i = Some s" and "is_on_off_capable (ex_type (sl_export s))"
  shows "\<exists>ns p'. plane_invoke (matter_endpoint s) COnOff (if on then MOn else MOff) arg p = (Inr (), ns, p') \<and>
    commands p' = commands p @ [on_off_command i on]"
proof -
  note placed = slot_for_placed [OF assms(1,2)]
  obtain old where k: "kind s = KOnOff old"
    using placed(2) assms(3) by (cases "kind s") (auto simp: slot_ok_def is_on_off_capable_def)
  obtain finished p' where a: "apply_controller_on_off (matter_endpoint s) on p = (finished, p')" by fastforce
  have "finished \<and> commands p' = commands p @ [on_off_command i on]"
    using apply_controller_on_off_spec [OF assms(1) a] placed(1,3) k by simp
  with a placed(1) k show ?thesis
    by (cases on) (simp_all add: plane_invoke_def on_off_cluster_def on_off_invoke_def on_off_set_def)
qed

lemma bridged_accepts_on_off:
  assumes "rs_inv b" and "surface_view (rs_plane b) i = Some e" and "endpoint_id e = Some ep" and "ep \<noteq> 65535"
    and "is_on_off_capable (ex_type e)" and "i = export_id e"
  shows "\<exists>ns p'. plane_invoke (ep + 1) COnOff (if on then MOn else MOff) arg (rs_plane b) = (Inr (), ns, p') \<and>
    commands p' = rs_queued b @ [on_off_command (export_id e) on]"
proof -
  have inv: "state_inv (pl_state (rs_plane b))" using assms(1) by (simp add: rs_inv_def)
  obtain s where s: "slot_for (pl_state (rs_plane b)) (export_id e) = Some s" "sl_export s = e"
    using assms(2,6) by (auto simp: surface_view_def)
  have "matter_endpoint_of e = Some (matter_endpoint s)" using slot_for_placed(4) [OF inv s(1)] s(2) by simp
  then have "matter_endpoint s = ep + 1"
    using assms(3) by (auto simp: matter_endpoint_of_def checked_add_def split: if_splits)
  moreover have "is_on_off_capable (ex_type (sl_export s))" using s(2) assms(5) by simp
  ultimately show ?thesis using on_off_command_reaches_queue [OF inv s(1), of on arg] by (simp add: rs_queued_def)
qed

lemma poll_drains:
  assumes "commands p' = xs"
  shows "let b = (app_backend app)\<lparr>rs_plane := p'\<rparr>;
      (answer, app'', d'') = route env (rs_ops re) GetCommands (app\<lparr>app_backend := b\<rparr>, d)
    in answer = ok_json (CommandsBody \<lparr>pc_commands = xs\<rparr>) \<and> rs_queued (app_backend app'') = []"
  using assms rs_contract.take_result [of re "(app_backend app)\<lparr>rs_plane := p'\<rparr>"]
    rs_contract.take_frame(1) [of re "(app_backend app)\<lparr>rs_plane := p'\<rparr>"]
  by (simp add: keep_disk_def take_commands_handler_def on_backend_eq Let_def rs_queued_def)

text \<open>C9: The whole way of a device: when a client creates an enabled on/off export and gets 201, then, unless its endpoint
  id is the last one, a controller can switch the Matter endpoint with the next number on and off, and the
  next poll of the commands returns the commands queued before followed by that one, addressed to the
  export, and empties the queue.\<close>

theorem created_device_is_controllable:
  assumes "app_inv rs_inv app" and "cr_enabled body" and "is_on_off_capable (cr_type body)"
    and "route env (rs_ops re) (PostExports v4 body) (app, d) = (r, app', d')" and "resp_status r = 201"
  shows "\<exists>e ep. resp_body r = ExportBody e \<and> ex_name e = cr_name body \<and> endpoint_id e = Some ep \<and>
    (ep \<noteq> 65535 \<longrightarrow>
      (\<exists>ns p'. plane_invoke (ep + 1) COnOff (if on then MOn else MOff) arg (rs_plane (app_backend app')) = (Inr (), ns, p') \<and>
         (let b = (app_backend app')\<lparr>rs_plane := p'\<rparr>;
              (answer, app'', d'') = route env' (rs_ops re') GetCommands (app'\<lparr>app_backend := b\<rparr>, d')
          in answer = ok_json (CommandsBody \<lparr>pc_commands = rs_queued (app_backend app) @ [on_off_command (export_id e) on]\<rparr>) \<and>
             rs_queued (app_backend app'') = [])))"
proof -
  obtain q st d1 where c: "create (ie_codec env) (ie_fs env) v4 body (app_catalog app, d) = (q, st, d1)"
    using prod_cases3 by blast
  have "resp_status (catalog_err detail x) \<noteq> 201" for detail x by (rule catalog_err_status(5))
  with assms(4,5) c obtain e where e: "q = Inr e" "resp_body r = ExportBody e"
    and app': "app' = snd (sync_exports (rs_ops re) (app\<lparr>app_catalog := st\<rparr>))"
    by (cases q) (auto simp: post_export_def rs_contract.sync_exports_effect)
  have cat: "catalog_inv st" using create_inv [OF _ c] assms(1) by (simp add: app_inv_def)
  have fields: "ex_name e = cr_name body" "enabled e" "ex_type e = cr_type body"
    using create_fields [OF c [unfolded e(1)]] assms(2) by simp_all
  have get: "bt_get (by_id st) (export_id e) = Some e"
    using create_new_id(1) [OF c [unfolded e(1)]] assms(1)
    by (simp add: bt_get_insert app_inv_def catalog_inv_def exports_inv_def)
  obtain ep where ep: "endpoint_id e = Some ep" using catalog_get_ok [OF cat get] by blast
  have good: "rs_inv (app_backend app)" using assms(1) by (simp add: app_inv_def)
  note view = synced_view [OF cat good app']
  have "surface_view (rs_plane (app_backend app')) (export_id e) = Some e" if "ep \<noteq> 65535"
    using that fields(2) ep by (simp add: view(1) bridged_view_def get)
  then have main: "\<exists>ns p'. plane_invoke (ep + 1) COnOff (if on then MOn else MOff) arg (rs_plane (app_backend app')) = (Inr (), ns, p') \<and>
      commands p' = rs_queued (app_backend app) @ [on_off_command (export_id e) on]" if "ep \<noteq> 65535"
    using bridged_accepts_on_off [of "app_backend app'" _ e ep on arg] that view(3,4) fields(3) assms(3) ep
    by (simp add: app_inv_def)
  show ?thesis
    by (intro exI [of _ e] exI [of _ ep] conjI impI e(2) fields(1) ep) (use main poll_drains in blast)
qed

theorem created_device_is_controllable_witness:
  "\<exists>app' d' ns p'. route demo_ipc_env (rs_ops demo_re) (PostExports 9 (demo_body ''Lamp'')) (demo_app, Map.empty) =
     (\<lparr>resp_status = 201, resp_body = ExportBody (light_of 9)\<rparr>, app', d') \<and>
     plane_invoke 2 COnOff MOn (Inl ConstraintError) (rs_plane (app_backend app')) = (Inr (), ns, p')"
proof -
  obtain app' d' where p: "route demo_ipc_env (rs_ops demo_re) (PostExports 9 (demo_body ''Lamp'')) (demo_app, Map.empty) =
     (\<lparr>resp_status = 201, resp_body = ExportBody (light_of 9)\<rparr>, app', d')"
    using demo_post by blast
  have "cr_enabled (demo_body ''Lamp'')" "is_on_off_capable (cr_type (demo_body ''Lamp''))"
    by (simp_all add: demo_body_def is_on_off_capable_def)
  note reached = created_device_is_controllable [OF demo_app_inv this p, of True "Inl ConstraintError" demo_ipc_env demo_re]
  obtain e ep where e: "ExportBody (light_of 9) = ExportBody e" "endpoint_id e = Some ep" and
    imp: "ep \<noteq> 65535 \<longrightarrow> (\<exists>ns p'. plane_invoke (ep + 1) COnOff MOn (Inl ConstraintError) (rs_plane (app_backend app')) = (Inr (), ns, p'))"
    using reached unfolding if_True response.simps by blast
  from e have "ep = 1" by (auto simp: light_of_def demo_export_def)
  with imp p show ?thesis by auto
qed

section \<open>Opening twice\<close>

text \<open>Opening the pairing window while it is open answers with the timeout of the request although the window keeps
  its deadline: the response claims a duration that is not applied.\<close>

lemma open_again_keeps_deadline:
  assumes "rv_reply re = Served now n wenv" and "rs_running b" and "window_request (rs_plane b) = None"
    and "read_fabric_count n \<le> fabric_count (rs_plane b)" and "now < window_deadline (rs_plane b)"
    and "now_check wenv < window_deadline (rs_plane b)" and "de body = Inr req" and "body \<noteq> []"
    and "app_backend app = b"
  shows "\<exists>app'. open_pairing (rs_ops re) de body app =
      (ok_json (OpenBody \<lparr>op_pairing_open = True, op_timeout_secs = clamp_pairing_timeout (opr_timeout_secs req)\<rparr>), app') \<and>
    window_deadline (rs_plane (app_backend app')) = window_deadline (rs_plane b)"
proof -
  define t where "t = clamp_pairing_timeout (opr_timeout_secs req)"
  have ct: "clamp_pairing_timeout t = t" by (simp add: t_def)
  let ?p = "rs_plane b"
  define posted where "posted = ?p\<lparr>window_request := Some \<lparr>req_op = WOpen t, req_ticket = 0\<rparr>, wake := True\<rparr>"
  have post: "request_open_window t 0 ?p = (Inr (), posted)"
    using assms(3) by (simp add: request_open_window_def post_window_request_def posted_def t_def)
  have nz: "window_deadline ?p \<noteq> 0" using assms(5) by auto
  have sample: "sample_fabrics now n posted = posted\<lparr>fabric_count := read_fabric_count n\<rparr>"
    using assms(4) not_le [THEN iffD2, OF assms(5)]
    by (simp add: sample_fabrics_def apply_fabric_sample_def Let_def posted_def not_less)
  have "drain_window_request wenv (sample_fabrics now n posted) =
      (Some (0, Inr ()), [], ?p\<lparr>window_request := None, wake := True, fabric_count := read_fabric_count n\<rparr>)"
    using assms(6) nz
    unfolding sample
    by (simp add: drain_window_request_def take_window_request_def posted_def execute_window_op_def
        pairing_open_def deadline_open_def)
  then have "be_open_pairing_window (rs_ops re) t b =
      (Inr (), b\<lparr>rs_plane := ?p\<lparr>window_request := None, wake := True, fabric_count := read_fabric_count n\<rparr>\<rparr>)"
    using assms(1,2) by (simp add: rs_ops_def rs_open_pairing_window_def on_plane_def await_stack_def ct post)
  then show ?thesis using assms(7-9) by (simp add: open_pairing_def Let_def on_backend_eq t_def)
qed

lemma open_again_keeps_deadline_witness:
  "\<exists>app'. open_pairing (rs_ops demo_re) (\<lambda>_. Inr \<lparr>opr_timeout_secs = 180\<rparr>) ''{}'' demo_app =
      (ok_json (OpenBody \<lparr>op_pairing_open = True, op_timeout_secs = 180\<rparr>), app') \<and>
    window_deadline (rs_plane (app_backend app')) = 1900"
proof -
  have p: "window_request (rs_plane demo_rs) = None" "fabric_count (rs_plane demo_rs) = 0" "window_deadline (rs_plane demo_rs) = 1900"
    "rs_running demo_rs"
    by (simp_all add: demo_rs_def demo_ready_plane_def note_startup_commissioning_state_def plane_new_def deadline_after_def
        saturating_add_def STARTUP_PAIRING_TIMEOUT_SECS_def)
  have "read_fabric_count 0 \<le> fabric_count (rs_plane demo_rs)" "(1000 :: u64) < window_deadline (rs_plane demo_rs)"
    "now_check demo_window_env < window_deadline (rs_plane demo_rs)"
    by (simp_all add: p read_fabric_count_def demo_window_env_def)
  moreover have "rv_reply demo_re = Served 1000 0 demo_window_env" by (simp add: demo_re_def)
  moreover have "clamp_pairing_timeout 180 = 180" by (simp add: clamp_pairing_timeout_def pairing_timeouts)
  ultimately show ?thesis
    using open_again_keeps_deadline [of demo_re 1000 0 demo_window_env demo_rs "\<lambda>_. Inr \<lparr>opr_timeout_secs = 180\<rparr>" "''{}''"
      "\<lparr>opr_timeout_secs = 180\<rparr>" demo_app] p by (simp add: demo_app_fields)
qed

end
